(* ===== verification/US_Prelude.thy ===== *)
theory US_Prelude
  imports Main "HOL-Library.Word"
begin

text \<open>
  Shared vocabulary of the development: the byte and word types, host representation of
  integers as bytes (what \<open>asio::buffer(&x, sizeof(x))\<close> puts on a socket), writing
  into a byte buffer at an offset, decimal printing (\<open>std::to_string\<close>), and the
  named collections that the component theories extend.
\<close>

unbundle bit_operations_syntax

type_synonym byte = "8 word"
type_synonym u32 = "32 word"
type_synonym u64 = "64 word"

text \<open>
  \<open>us_step\<close>: what one operation does to the state, one equation per operation and branch.
  \<open>us_inv\<close>: preservation facts. \<open>us_len\<close>: lengths of encodings.
\<close>

named_theorems us_step
named_theorems us_inv
named_theorems us_len

section \<open>Integers as bytes\<close>

text \<open>
  The code writes \<open>sizeof(x)\<close> raw bytes of an integer object. The hosts it is built for
  (x86-64, also under MSYS2/MinGW64) are little-endian.
\<close>

fun le_bytes :: "nat \<Rightarrow> nat \<Rightarrow> byte list" where
  "le_bytes 0 v = []"
| "le_bytes (Suc n) v = word_of_nat v # le_bytes n (v div 256)"

fun le_nat :: "byte list \<Rightarrow> nat" where
  "le_nat [] = 0"
| "le_nat (b # bs) = unat b + 256 * le_nat bs"

lemma length_le_bytes [simp, us_len]: "length (le_bytes n v) = n"
  by (induction n arbitrary: v) auto

text \<open>Unfolding at a numeral width, for evaluation.\<close>

lemma le_bytes_numeral:
  "le_bytes (numeral k) v = word_of_nat v # le_bytes (pred_numeral k) (v div 256)"
  by (simp only: numeral_eq_Suc [of k] le_bytes.simps)

lemma le_nat_le_bytes: "le_nat (le_bytes n v) = v mod 256 ^ n"
proof (induction n arbitrary: v)
  case 0
  show ?case by simp
next
  case (Suc n)
  have "v mod (256 * 256 ^ n) = 256 * (v div 256 mod 256 ^ n) + v mod 256"
    by (rule mod_mult2_eq)
  with Suc show ?case by (simp add: unat_of_nat)
qed

lemma le_bytes_le_nat: "le_bytes (length bs) (le_nat bs) = bs"
proof (induction bs)
  case Nil
  show ?case by simp
next
  case (Cons b bs)
  have "(unat b + 256 * le_nat bs) div 256 = le_nat bs"
    using unsigned_less [of b, where ?'a = nat] by simp
  moreover have "(256 :: byte) = 0" by (simp add: word_uint_eq_iff)
  then have "word_of_nat (unat b + 256 * le_nat bs) = b"
    by (simp only: of_nat_add of_nat_mult of_nat_numeral mult_zero_left add_0_right of_nat_unat ucast_id)
  ultimately show ?case using Cons by simp
qed

lemma le_nat_bound: "le_nat bs < 256 ^ length bs"
proof (induction bs)
  case Nil
  show ?case by simp
next
  case (Cons b bs)
  have "unat b < 256" using unsigned_less [of b, where ?'a = nat] by simp
  with Cons show ?case by simp
qed

lemma ucast_byte_inject: "(ucast a = (ucast b :: u64)) = ((a::byte) = b)"
proof -
  have "uint (ucast w :: u64) = uint w" for w :: byte
    using unsigned_less [of w, where ?'a = int]
    by (simp add: unsigned_ucast_eq take_bit_int_eq_self)
  then show ?thesis by (metis word_uint_eq_iff)
qed

section \<open>Writing into a buffer\<close>

text \<open>
  An asynchronous read overwrites the destination with the bytes transferred and leaves
  the rest of it as it was; \<open>write_at\<close> is that at an offset.
\<close>

definition overlay :: "'a list \<Rightarrow> 'a list \<Rightarrow> 'a list" where
  "overlay new old = new @ drop (length new) old"

definition write_at :: "nat \<Rightarrow> 'a list \<Rightarrow> 'a list \<Rightarrow> 'a list" where
  "write_at off new buf = take off buf @ overlay new (drop off buf)"

lemma overlay_full: "length new = length old \<Longrightarrow> overlay new old = new"
  by (simp add: overlay_def)

lemma length_overlay [us_len]: "length new \<le> length old \<Longrightarrow> length (overlay new old) = length old"
  by (simp add: overlay_def)

lemma length_write_at [us_len]:
  "off + length new \<le> length buf \<Longrightarrow> length (write_at off new buf) = length buf"
  by (simp add: write_at_def overlay_def)

lemma take_write_at:
  "off + length new \<le> length buf \<Longrightarrow>
     take (off + length new) (write_at off new buf) = take off buf @ new"
  by (simp add: write_at_def overlay_def)

text \<open>\<open>std::string::resize\<close>: keep the front, pad with zero bytes.\<close>

definition resize_bytes :: "nat \<Rightarrow> byte list \<Rightarrow> byte list" where
  "resize_bytes n bs = take n bs @ replicate (n - length bs) 0"

lemma length_resize_bytes [simp, us_len]: "length (resize_bytes n bs) = n"
  by (simp add: resize_bytes_def)

section \<open>Decimal printing\<close>

definition digit_char :: "nat \<Rightarrow> char" where
  "digit_char d = char_of (48 + d)"

fun to_string :: "nat \<Rightarrow> string" where
  "to_string n = (if n < 10 then [digit_char n] else to_string (n div 10) @ [digit_char (n mod 10)])"

declare to_string.simps [simp del]

definition dec_value :: "string \<Rightarrow> nat" where
  "dec_value s = fold (\<lambda>c a. a * 10 + (of_char c - 48)) s 0"

lemma digit_char_value [simp]: "d < 10 \<Longrightarrow> of_char (digit_char d) - 48 = d"
  by (simp add: digit_char_def)

lemma dec_value_to_string: "dec_value (to_string n) = n"
proof (induction n rule: to_string.induct)
  case (1 n)
  show ?case
  proof (cases "n < 10")
    case True
    then show ?thesis by (subst to_string.simps) (simp add: dec_value_def)
  next
    case False
    with 1 have "dec_value (to_string (n div 10)) = n div 10" by simp
    with False show ?thesis by (subst to_string.simps) (simp add: dec_value_def)
  qed
qed

lemma to_string_inject: "to_string m = to_string n \<longleftrightarrow> m = n"
  by (metis dec_value_to_string)

lemma to_string_nonempty: "to_string n \<noteq> []"
  by (subst to_string.simps) simp

lemma to_string_digits: "c \<in> set (to_string n) \<Longrightarrow> \<exists>d<10. c = digit_char d"
proof (induction n rule: to_string.induct)
  case (1 n)
  show ?case
  proof (cases "n < 10")
    case True
    with "1.prems" show ?thesis by (subst (asm) to_string.simps) auto
  next
    case False
    with "1.prems" have "c \<in> set (to_string (n div 10)) \<or> c = digit_char (n mod 10)"
      by (subst (asm) to_string.simps) auto
    with False "1.IH" show ?thesis by (metis mod_less_divisor zero_less_numeral)
  qed
qed

end
