(* ===== verification/AtomicQueue.thy ===== *)
theory AtomicQueue
  imports US_Prelude
begin

text \<open>
  \<open>src/network/AtomicQueue.h\<close> and \<open>AtomicQueue.cpp\<close>: the mutex-protected queue between the
  network thread and its consumers. Every member function runs its body under \<open>_m\<close>, so
  each is one atomic operation on the state: the \<open>std::queue\<close> the class derives from and
  the flag \<open>_isQueueEmpty\<close> that \<open>empty()\<close> reads without the lock. The condition variable
  is modelled where a thread waits on it (theory \<open>PayloadProcessor\<close>).
\<close>

record 'a atomic_queue =
  items :: "'a list"
  isQueueEmpty :: bool

datatype queue_error = EmptyQueueAssertion

definition new_queue :: "'a atomic_queue" where
  "new_queue = \<lparr>items = [], isQueueEmpty = True\<rparr>"

definition push :: "'a \<Rightarrow> 'a atomic_queue \<Rightarrow> 'a atomic_queue" where
  "push val q = q\<lparr>items := items q @ [val], isQueueEmpty := False\<rparr>"

text \<open>\<open>front\<close> and \<open>pop\<close> assert that the queue holds something.\<close>

definition front :: "'a atomic_queue \<Rightarrow> queue_error + 'a" where
  "front q = (case items q of [] \<Rightarrow> Inl EmptyQueueAssertion | x # _ \<Rightarrow> Inr x)"

definition pop :: "'a atomic_queue \<Rightarrow> queue_error + bool \<times> 'a atomic_queue" where
  "pop q = (case items q of
      [] \<Rightarrow> Inl EmptyQueueAssertion
    | _ # rest \<Rightarrow>
        let isEmpty = (rest = [])
        in Inr (isEmpty, q\<lparr>items := rest, isQueueEmpty := isEmpty\<rparr>))"

text \<open>The loop of \<open>popIntoQueue\<close>: the local queue and what is left of the member.\<close>

fun popIntoQueue_loop :: "'a list \<Rightarrow> 'a list \<Rightarrow> 'a list \<times> 'a list" where
  "popIntoQueue_loop queue [] = (queue, [])"
| "popIntoQueue_loop queue (x # rest) = popIntoQueue_loop (queue @ [x]) rest"

definition popIntoQueue :: "'a atomic_queue \<Rightarrow> 'a list \<times> 'a atomic_queue" where
  "popIntoQueue q =
     (let (queue, rest) = popIntoQueue_loop [] (items q)
      in (queue, q\<lparr>items := rest, isQueueEmpty := True\<rparr>))"

definition queue_empty :: "'a atomic_queue \<Rightarrow> bool" where
  "queue_empty q = isQueueEmpty q"

text \<open>The flag that is read without the lock agrees with the queue.\<close>

definition queue_ok :: "'a atomic_queue \<Rightarrow> bool" where
  "queue_ok q \<longleftrightarrow> (isQueueEmpty q \<longleftrightarrow> items q = [])"

lemma popIntoQueue_loop_eq: "popIntoQueue_loop ys xs = (ys @ xs, [])"
  by (induction ys xs rule: popIntoQueue_loop.induct) auto

lemma popIntoQueue_eq: "popIntoQueue q = (items q, q\<lparr>items := [], isQueueEmpty := True\<rparr>)"
  by (simp add: popIntoQueue_def popIntoQueue_loop_eq)

section \<open>The interface its clients rely on\<close>

locale fifo =
  fixes fresh :: 'q
    and put :: "'a \<Rightarrow> 'q \<Rightarrow> 'q"
    and peek :: "'q \<Rightarrow> 'e + 'a"
    and take_one :: "'q \<Rightarrow> 'e + bool \<times> 'q"
    and take_all :: "'q \<Rightarrow> 'a list \<times> 'q"
    and none_left :: "'q \<Rightarrow> bool"
    and contents :: "'q \<Rightarrow> 'a list"
    and ok :: "'q \<Rightarrow> bool"
  assumes fresh_ok: "ok fresh"
    and fresh_contents: "contents fresh = []"
    and put_ok: "ok q \<Longrightarrow> ok (put x q)"
    and put_contents: "contents (put x q) = contents q @ [x]"
    and peek_Nil: "contents q = [] \<Longrightarrow> \<exists>e. peek q = Inl e"
    and peek_Cons: "contents q = x # xs \<Longrightarrow> peek q = Inr x"
    and take_one_Nil: "contents q = [] \<Longrightarrow> \<exists>e. take_one q = Inl e"
    and take_one_Cons: "contents q = x # xs \<Longrightarrow>
          \<exists>q'. take_one q = Inr (xs = [], q') \<and> contents q' = xs \<and> ok q'"
    and take_all_eq: "take_all q = (contents q, snd (take_all q))"
    and take_all_left: "contents (snd (take_all q)) = []"
    and take_all_ok: "ok (snd (take_all q))"
    and none_left_iff: "ok q \<Longrightarrow> none_left q = (contents q = [])"
begin

lemma put_list_contents: "contents (fold put xs q) = contents q @ xs"
  by (induction xs arbitrary: q) (simp_all add: put_contents)

lemma put_list_ok: "ok q \<Longrightarrow> ok (fold put xs q)"
  by (induction xs arbitrary: q) (simp_all add: put_ok)

text \<open>What a batch of puts stores comes out in the order it went in.\<close>

lemma put_list_take_all: "fst (take_all (fold put xs q)) = contents q @ xs"
  by (metis put_list_contents take_all_eq fst_conv)

lemma take_all_twice: "fst (take_all (snd (take_all q))) = []"
  by (metis take_all_eq take_all_left fst_conv)

lemma put_take_one:
  assumes "contents q = []"
  shows "\<exists>q'. take_one (put x q) = Inr (True, q') \<and> contents q' = [] \<and> ok q'"
  using take_one_Cons [of "put x q" x "[]"] put_contents [of x q] assms by simp

lemma none_left_put: "ok q \<Longrightarrow> \<not> none_left (put x q)"
  by (simp add: none_left_iff put_ok put_contents)

end

interpretation aq: fifo new_queue push front pop popIntoQueue queue_empty items queue_ok
  by unfold_locales
     (auto simp: new_queue_def push_def front_def pop_def popIntoQueue_eq queue_empty_def queue_ok_def Let_def)

lemma items_push [simp, us_step]: "items (push x q) = items q @ [x]"
  by (simp add: push_def)

lemma queue_ok_push [us_inv]: "queue_ok (push x q)"
  by (simp add: push_def queue_ok_def)

lemma front_Cons: "items q = x # xs \<Longrightarrow> front q = Inr x"
  by (rule aq.peek_Cons)

lemma pop_Cons: "items q = x # xs \<Longrightarrow> pop q = Inr (xs = [], q\<lparr>items := xs, isQueueEmpty := (xs = [])\<rparr>)"
  by (simp add: pop_def Let_def)

text \<open>
  One atomic operation as a consumer or a producer issues it, and the same operation on a
  plain list: the abstract queue that the class promises.
\<close>

datatype 'a queue_op = Push 'a | Pop | PopIntoQueue

fun queue_exec :: "'a queue_op \<Rightarrow> 'a atomic_queue \<Rightarrow> 'a list \<times> 'a atomic_queue" where
  "queue_exec (Push x) q = ([], push x q)"
| "queue_exec Pop q =
     (case front q of Inl _ \<Rightarrow> ([], q)
      | Inr x \<Rightarrow> (case pop q of Inl _ \<Rightarrow> ([], q) | Inr (_, q') \<Rightarrow> ([x], q')))"
| "queue_exec PopIntoQueue q = popIntoQueue q"

fun queue_run :: "'a queue_op list \<Rightarrow> 'a atomic_queue \<Rightarrow> 'a list \<times> 'a atomic_queue" where
  "queue_run [] q = ([], q)"
| "queue_run (c # cs) q =
     (let (out, q') = queue_exec c q; (outs, q'') = queue_run cs q' in (out @ outs, q''))"

fun pushed :: "'a queue_op list \<Rightarrow> 'a list" where
  "pushed [] = []"
| "pushed (Push x # cs) = x # pushed cs"
| "pushed (_ # cs) = pushed cs"

lemma queue_exec_fifo:
  "fst (queue_exec c q) @ items (snd (queue_exec c q)) = items q @ pushed [c]"
  by (cases c) (auto simp: front_def pop_def popIntoQueue_eq Let_def split: list.splits)

lemma queue_exec_ok: "queue_ok q \<Longrightarrow> queue_ok (snd (queue_exec c q))"
  by (cases c) (auto simp: push_def front_def pop_def popIntoQueue_eq queue_ok_def Let_def split: list.splits)

lemma pushed_Cons: "pushed (c # cs) = pushed [c] @ pushed cs"
  by (cases c) auto

lemma queue_run_fifo:
  "fst (queue_run cs q) @ items (snd (queue_run cs q)) = items q @ pushed cs"
proof (induction cs arbitrary: q)
  case Nil
  show ?case by simp
next
  case (Cons c cs)
  obtain out q' where e: "queue_exec c q = (out, q')" by (cases "queue_exec c q")
  have "fst (queue_run (c # cs) q) @ items (snd (queue_run (c # cs) q))
      = out @ fst (queue_run cs q') @ items (snd (queue_run cs q'))"
    by (simp add: e split_beta Let_def)
  also have "\<dots> = (out @ items q') @ pushed cs" using Cons by simp
  also have "\<dots> = items q @ pushed (c # cs)"
    using queue_exec_fifo [of c q] pushed_Cons [of c cs] by (simp add: e)
  finally show ?case .
qed

lemma queue_run_ok: "queue_ok q \<Longrightarrow> queue_ok (snd (queue_run cs q))"
proof (induction cs arbitrary: q)
  case (Cons c cs)
  then show ?case
    using queue_exec_ok [of q c] by (simp add: split_beta Let_def)
qed simp

text \<open>C14: Any sequence of atomic operations on a fresh \<open>AtomicQueue\<close> hands out its values in the
  order they were pushed, none lost, none twice: what was handed out followed by what is still
  stored is exactly what was pushed, and \<open>empty()\<close> (read without the lock) is right throughout.\<close>

theorem atomic_queue_fifo:
  "fst (queue_run cs new_queue) @ items (snd (queue_run cs new_queue)) = pushed cs
   \<and> queue_empty (snd (queue_run cs new_queue)) = (items (snd (queue_run cs new_queue)) = [])"
  using queue_run_fifo [of cs new_queue] queue_run_ok [OF aq.fresh_ok, of cs]
  by (simp add: aq.fresh_contents aq.none_left_iff)

end
