(* ===== verification/Payloads.thy ===== *)
theory Payloads
  imports AtomicQueue
begin

text \<open>
  \<open>src/network/Payloads.h\<close>, \<open>Marshaller\<close> and \<open>PayloadLogger\<close>: the payload records that travel
  between peers, how messages become payloads, and the traces kept for each payload.
\<close>

section \<open>Payload types and payloads\<close>

text \<open>
  \<open>enum class PayloadType\<close> has the underlying type \<open>int\<close>: four bytes read off a socket may be
  any code, \<open>Unlisted\<close> for the codes without an enumerator.
\<close>

datatype PayloadType = UNKNOWN | HEARTBEAT | HANDSHAKE | Unlisted u32

fun type_code :: "PayloadType \<Rightarrow> u32" where
  "type_code UNKNOWN = 0"
| "type_code HEARTBEAT = 1"
| "type_code HANDSHAKE = 2"
| "type_code (Unlisted c) = c"

definition type_of_code :: "u32 \<Rightarrow> PayloadType" where
  "type_of_code c = (if c = 0 then UNKNOWN else if c = 1 then HEARTBEAT
     else if c = 2 then HANDSHAKE else Unlisted c)"

text \<open>A listed code is never spelled \<open>Unlisted\<close>.\<close>

definition type_ok :: "PayloadType \<Rightarrow> bool" where
  "type_ok t \<longleftrightarrow> type_of_code (type_code t) = t"

lemma type_code_of_code [simp]: "type_code (type_of_code c) = c"
  by (simp add: type_of_code_def)

lemma type_ok_listed [simp]: "type_ok UNKNOWN" "type_ok HEARTBEAT" "type_ok HANDSHAKE" "type_ok (type_of_code c)"
  by (simp_all add: type_ok_def) (simp_all add: type_of_code_def)

text \<open>
  \<open>RawPayload\<close>, and \<open>SpawnedRawPayload\<close>, which adds the id of the receiving socket. The classes
  are templates over the two: a definition over \<open>'x raw_payload_scheme\<close> is the template.
\<close>

record raw_payload =
  ptype :: PayloadType
  bytesSize :: u64
  bytes :: "byte list"

record spawned_raw_payload = raw_payload +
  spawnId :: int

definition raw_payload_init :: "'x \<Rightarrow> 'x raw_payload_scheme" where
  "raw_payload_init m = \<lparr>ptype = UNKNOWN, bytesSize = 0, bytes = [], \<dots> = m\<rparr>"

text \<open>What makes a payload well formed: its size field is the length of its bytes.\<close>

definition payload_ok :: "'x raw_payload_scheme \<Rightarrow> bool" where
  "payload_ok p \<longleftrightarrow> unat (bytesSize p) = length (bytes p) \<and> type_ok (ptype p)"

section \<open>Marshaller\<close>

text \<open>
  The messages of \<open>User.proto\<close> and \<open>Heartbeat.proto\<close> that are sent. Their encoding
  (\<open>SerializePartialToString\<close>) is generated code and the protobuf runtime: the parameter \<open>ser\<close>.
\<close>

record handshake =
  username :: string
  client_version :: string

record heartbeat =
  ts :: u64

definition marshaller_serialize :: "('m \<Rightarrow> byte list) \<Rightarrow> 'm \<Rightarrow> PayloadType \<Rightarrow> raw_payload" where
  "marshaller_serialize ser protobufMsg type =
     (let payload = (raw_payload_init ())\<lparr>ptype := type\<rparr>;
          payload = payload\<lparr>bytes := ser protobufMsg\<rparr>
      in payload\<lparr>bytesSize := word_of_nat (length (bytes payload))\<rparr>)"

definition serialize_handshake :: "(handshake \<Rightarrow> byte list) \<Rightarrow> handshake \<Rightarrow> raw_payload" where
  "serialize_handshake ser protobufMsg = marshaller_serialize ser protobufMsg HANDSHAKE"

definition serialize_heartbeat :: "(heartbeat \<Rightarrow> byte list) \<Rightarrow> heartbeat \<Rightarrow> raw_payload" where
  "serialize_heartbeat ser protobufMsg = marshaller_serialize ser protobufMsg HEARTBEAT"

lemma marshaller_serialize_ok:
  assumes "length (ser m) < 2 ^ 64" and "type_ok t"
  shows "payload_ok (marshaller_serialize ser m t)"
  using assms
  by (simp add: payload_ok_def marshaller_serialize_def raw_payload_init_def unat_of_nat take_bit_eq_mod)

lemma marshaller_serialize_sel [simp]:
  "bytes (marshaller_serialize ser m t) = ser m"
  "ptype (marshaller_serialize ser m t) = t"
  by (simp_all add: marshaller_serialize_def raw_payload_init_def)

section \<open>PayloadLogger\<close>

text \<open>
  The clock (\<open>_epochNow\<close>) is read by the operations that stamp a time: each takes the reading
  as its argument \<open>now\<close>. Identifiers count payloads from one; a run of \<open>2^31\<close> payloads, where
  the C++ \<open>int\<close> would overflow, is outside the model.
\<close>

record payload_trace =
  payloadId :: int
  startedAt :: int
  endedAt :: int
  payloadType :: PayloadType
  expectedSize :: u64

record load_speed_trace =
  speedPayloadId :: int
  doneAt :: int
  bytesExchanged :: u64

record payload_logger =
  traceBuf :: payload_trace
  tracesQueue :: "payload_trace atomic_queue"
  speedQueue :: "load_speed_trace atomic_queue"

definition new_logger :: payload_logger where
  "new_logger =
     \<lparr>traceBuf = \<lparr>payloadId = 0, startedAt = 0, endedAt = 0, payloadType = UNKNOWN, expectedSize = 0\<rparr>,
      tracesQueue = new_queue, speedQueue = new_queue\<rparr>"

definition logNewPayload :: "int \<Rightarrow> payload_logger \<Rightarrow> payload_logger" where
  "logNewPayload now l =
     l\<lparr>traceBuf := (traceBuf l)\<lparr>payloadId := payloadId (traceBuf l) + 1, startedAt := now\<rparr>\<rparr>"

definition logPayloadType :: "PayloadType \<Rightarrow> payload_logger \<Rightarrow> payload_logger" where
  "logPayloadType t l = l\<lparr>traceBuf := (traceBuf l)\<lparr>payloadType := t\<rparr>\<rparr>"

definition logPayloadSize :: "u64 \<Rightarrow> payload_logger \<Rightarrow> payload_logger" where
  "logPayloadSize n l = l\<lparr>traceBuf := (traceBuf l)\<lparr>expectedSize := n\<rparr>\<rparr>"

definition commitPayloadSpeed :: "u64 \<Rightarrow> int \<Rightarrow> payload_logger \<Rightarrow> payload_logger" where
  "commitPayloadSpeed loaded now l =
     l\<lparr>speedQueue :=
        push \<lparr>speedPayloadId = payloadId (traceBuf l), doneAt = now, bytesExchanged = loaded\<rparr>
          (speedQueue l)\<rparr>"

definition commitLog :: "int \<Rightarrow> payload_logger \<Rightarrow> payload_logger" where
  "commitLog now l =
     (let l = l\<lparr>traceBuf := (traceBuf l)\<lparr>endedAt := now\<rparr>\<rparr>
      in l\<lparr>tracesQueue := push (traceBuf l) (tracesQueue l)\<rparr>)"

lemmas logger_defs =
  logNewPayload_def logPayloadType_def logPayloadSize_def commitPayloadSpeed_def commitLog_def

text \<open>The traces committed so far, and the bytes logged for one payload.\<close>

definition traces :: "payload_logger \<Rightarrow> payload_trace list" where
  "traces l = items (tracesQueue l)"

definition speeds :: "payload_logger \<Rightarrow> load_speed_trace list" where
  "speeds l = items (speedQueue l)"

definition logged_bytes :: "int \<Rightarrow> payload_logger \<Rightarrow> nat" where
  "logged_bytes i l = (\<Sum>s \<leftarrow> filter (\<lambda>s. speedPayloadId s = i) (speeds l). unat (bytesExchanged s))"

lemma logger_sel [simp, us_step]:
  "traces (logNewPayload now l) = traces l"
  "traces (logPayloadType t l) = traces l"
  "traces (logPayloadSize n l) = traces l"
  "traces (commitPayloadSpeed n now l) = traces l"
  "traces (commitLog now l) = traces l @ [(traceBuf l)\<lparr>endedAt := now\<rparr>]"
  "speeds (logNewPayload now l) = speeds l"
  "speeds (logPayloadType t l) = speeds l"
  "speeds (logPayloadSize n l) = speeds l"
  "speeds (commitPayloadSpeed n now l) =
     speeds l @ [\<lparr>speedPayloadId = payloadId (traceBuf l), doneAt = now, bytesExchanged = n\<rparr>]"
  "speeds (commitLog now l) = speeds l"
  "payloadId (traceBuf (logNewPayload now l)) = payloadId (traceBuf l) + 1"
  "payloadId (traceBuf (logPayloadType t l)) = payloadId (traceBuf l)"
  "payloadId (traceBuf (logPayloadSize n l)) = payloadId (traceBuf l)"
  "payloadId (traceBuf (commitPayloadSpeed n now l)) = payloadId (traceBuf l)"
  "payloadId (traceBuf (commitLog now l)) = payloadId (traceBuf l)"
  "expectedSize (traceBuf (logNewPayload now l)) = expectedSize (traceBuf l)"
  "expectedSize (traceBuf (logPayloadType t l)) = expectedSize (traceBuf l)"
  "expectedSize (traceBuf (logPayloadSize n l)) = n"
  "expectedSize (traceBuf (commitPayloadSpeed n now l)) = expectedSize (traceBuf l)"
  "expectedSize (traceBuf (commitLog now l)) = expectedSize (traceBuf l)"
  by (simp_all add: logger_defs traces_def speeds_def Let_def)

lemma logged_bytes_sel [simp, us_step]:
  "logged_bytes i (logNewPayload now l) = logged_bytes i l"
  "logged_bytes i (logPayloadType t l) = logged_bytes i l"
  "logged_bytes i (logPayloadSize n l) = logged_bytes i l"
  "logged_bytes i (commitLog now l) = logged_bytes i l"
  "logged_bytes i (commitPayloadSpeed n now l) =
     logged_bytes i l + (if payloadId (traceBuf l) = i then unat n else 0)"
  by (simp_all add: logged_bytes_def)

end
