(* ===== verification/PayloadReceiver.thy ===== *)
theory PayloadReceiver
  imports Payloads
begin

text \<open>
  \<open>src/network/IPayloadHandler\<close> and \<open>IPayloadReceiver\<close>: the receiving half of a connection. The
  receiver reads the type (4 bytes), the size (8 bytes) and then the content of a payload,
  at most 64000 bytes per read, pushes it and starts over.

  \<open>asio::async_read\<close> is composed: its handler runs once, with exactly the bytes asked for, or
  with an error and the bytes that came before it. A receiver is therefore its fields and the
  one read that is outstanding, \<open>pendingRead\<close>; a completion is one call of \<open>complete_read\<close>.
\<close>

section \<open>The base class and the wire\<close>

record 'x payload_handler =
  buf :: "'x raw_payload_scheme"
  bufContentOffset :: u64
  isProcessing :: bool
  logger :: payload_logger

definition MAXIMUM_BYTES_AS_NETWORK_BUFFER :: u64 where
  "MAXIMUM_BYTES_AS_NETWORK_BUFFER = 64000"

definition type_bytes :: "PayloadType \<Rightarrow> byte list" where
  "type_bytes t = le_bytes 4 (unat (type_code t))"

definition size_bytes :: "u64 \<Rightarrow> byte list" where
  "size_bytes n = le_bytes 8 (unat n)"

definition wire :: "'x raw_payload_scheme \<Rightarrow> byte list" where
  "wire p = type_bytes (ptype p) @ size_bytes (bytesSize p) @ bytes p"

lemma length_type_bytes [simp, us_len]: "length (type_bytes t) = 4"
  by (simp add: type_bytes_def)

lemma length_size_bytes [simp, us_len]: "length (size_bytes n) = 8"
  by (simp add: size_bytes_def)

definition bytes_type :: "byte list \<Rightarrow> PayloadType" where
  "bytes_type bs = type_of_code (word_of_nat (le_nat bs))"

definition bytes_size :: "byte list \<Rightarrow> u64" where
  "bytes_size bs = word_of_nat (le_nat bs)"

lemma bytes_type_type_bytes: "type_ok t \<Longrightarrow> bytes_type (type_bytes t) = t"
proof -
  have "unat (type_code t) < 256 ^ 4"
    using unsigned_less [of "type_code t", where ?'a = nat] by simp
  then have "le_nat (type_bytes t) = unat (type_code t)"
    by (simp add: type_bytes_def le_nat_le_bytes)
  then show "type_ok t \<Longrightarrow> ?thesis" by (simp add: bytes_type_def type_ok_def)
qed

lemma bytes_size_size_bytes [simp]: "bytes_size (size_bytes n) = n"
proof -
  have "unat n < 256 ^ 8"
    using unsigned_less [of n, where ?'a = nat] by simp
  then show ?thesis by (simp add: bytes_size_def size_bytes_def le_nat_le_bytes)
qed

section \<open>The receiver\<close>

datatype pending_read = NoRead | TypeRead | SizeRead | BytesRead

record 'x payload_receiver = "'x payload_handler" +
  pendingRead :: pending_read

type_synonym 'x receiver_state = "'x payload_receiver \<times> 'x raw_payload_scheme atomic_queue"

text \<open>\<open>std::string::resize\<close> throws past \<open>max_size()\<close>, the parameter \<open>ms\<close>.\<close>

datatype receive_error = LengthError

definition payload_receiver_init :: "'x \<Rightarrow> 'x payload_receiver" where
  "payload_receiver_init m =
     \<lparr>buf = raw_payload_init m, bufContentOffset = 0, isProcessing = False, logger = new_logger,
      pendingRead = NoRead\<rparr>"

definition onPayloadReceiveError :: "int \<Rightarrow> 'x payload_receiver \<Rightarrow> 'x payload_receiver" where
  "onPayloadReceiveError now r = r\<lparr>logger := commitLog now (logger r)\<rparr>"

definition onPayloadBytesDownloaded :: "u64 \<Rightarrow> int \<Rightarrow> 'x payload_receiver \<Rightarrow> 'x payload_receiver" where
  "onPayloadBytesDownloaded downloaded now r =
     r\<lparr>logger := commitPayloadSpeed downloaded now (logger r)\<rparr>"

definition receivePayloadType :: "'x payload_receiver \<Rightarrow> 'x payload_receiver" where
  "receivePayloadType r = r\<lparr>pendingRead := TypeRead\<rparr>"

definition receivePayloadBytesSize :: "'x payload_receiver \<Rightarrow> 'x payload_receiver" where
  "receivePayloadBytesSize r = r\<lparr>pendingRead := SizeRead\<rparr>"

definition receivePayloadBytes :: "'x payload_receiver \<Rightarrow> 'x payload_receiver" where
  "receivePayloadBytes r = r\<lparr>pendingRead := BytesRead\<rparr>"

definition startReceiving :: "'x payload_receiver \<Rightarrow> 'x payload_receiver" where
  "startReceiving r =
     (if isProcessing r then r else receivePayloadType (r\<lparr>isProcessing := True\<rparr>))"

definition bytesToRead :: "'x payload_receiver \<Rightarrow> u64" where
  "bytesToRead r = min (bytesSize (buf r) - bufContentOffset r) MAXIMUM_BYTES_AS_NETWORK_BUFFER"

text \<open>The bytes the outstanding read asks for.\<close>

definition requested :: "'x payload_receiver \<Rightarrow> nat" where
  "requested r = (case pendingRead r of
      NoRead \<Rightarrow> 0 | TypeRead \<Rightarrow> 4 | SizeRead \<Rightarrow> 8 | BytesRead \<Rightarrow> unat (bytesToRead r))"

text \<open>
  The three completion handlers: \<open>ec\<close> is the error code, \<open>data\<close> the bytes that reached the
  buffer, \<open>clk i\<close> the \<open>i\<close>-th reading of the clock in the handler.
\<close>

definition on_type_read :: "bool \<Rightarrow> byte list \<Rightarrow> (nat \<Rightarrow> int) \<Rightarrow> 'x receiver_state \<Rightarrow> 'x receiver_state" where
  "on_type_read ec data clk = (\<lambda>(r, q).
     let r = r\<lparr>buf := (buf r)\<lparr>ptype := bytes_type (overlay data (type_bytes (ptype (buf r))))\<rparr>\<rparr>;
         r = r\<lparr>logger := logNewPayload (clk 0) (logger r)\<rparr>;
         r = r\<lparr>logger := logPayloadType (ptype (buf r)) (logger r)\<rparr>
     in if ec then (onPayloadReceiveError (clk 1) r, q)
        else (receivePayloadBytesSize r, q))"

definition on_size_read :: "nat \<Rightarrow> bool \<Rightarrow> byte list \<Rightarrow> (nat \<Rightarrow> int) \<Rightarrow> 'x receiver_state \<Rightarrow>
    receive_error + 'x receiver_state" where
  "on_size_read ms ec data clk = (\<lambda>(r, q).
     let r = r\<lparr>buf := (buf r)\<lparr>bytesSize := bytes_size (overlay data (size_bytes (bytesSize (buf r))))\<rparr>\<rparr>
     in if ec then Inr (onPayloadReceiveError (clk 0) r, q)
        else if ms < unat (bytesSize (buf r)) then Inl LengthError
        else let r = r\<lparr>buf := (buf r)\<lparr>bytes := resize_bytes (unat (bytesSize (buf r))) (bytes (buf r))\<rparr>\<rparr>
             in Inr (receivePayloadBytes r, q))"

definition on_bytes_read :: "bool \<Rightarrow> byte list \<Rightarrow> (nat \<Rightarrow> int) \<Rightarrow> 'x receiver_state \<Rightarrow> 'x receiver_state" where
  "on_bytes_read ec data clk = (\<lambda>(r, q).
     let r = r\<lparr>buf := (buf r)\<lparr>bytes := write_at (unat (bufContentOffset r)) data (bytes (buf r))\<rparr>\<rparr>
     in if ec then (onPayloadReceiveError (clk 0) r, q)
        else
          let len = word_of_nat (length data);
              r = r\<lparr>bufContentOffset := bufContentOffset r + len\<rparr>;
              r = onPayloadBytesDownloaded len (clk 0) r
          in if bufContentOffset r < bytesSize (buf r) then (receivePayloadBytes r, q)
             else
               let q = push (buf r) q;
                   r = r\<lparr>logger := commitLog (clk 1) (logger r)\<rparr>;
                   r = r\<lparr>bufContentOffset := 0\<rparr>
               in (receivePayloadType r, q))"

text \<open>The outstanding read completes: it is no longer outstanding when its handler runs.\<close>

definition complete_read :: "nat \<Rightarrow> bool \<Rightarrow> byte list \<Rightarrow> (nat \<Rightarrow> int) \<Rightarrow> 'x receiver_state \<Rightarrow>
    receive_error + 'x receiver_state" where
  "complete_read ms ec data clk = (\<lambda>(r, q).
     let r' = r\<lparr>pendingRead := NoRead\<rparr>
     in case pendingRead r of
          NoRead \<Rightarrow> Inr (r, q)
        | TypeRead \<Rightarrow> Inr (on_type_read ec data clk (r', q))
        | SizeRead \<Rightarrow> on_size_read ms ec data clk (r', q)
        | BytesRead \<Rightarrow> Inr (on_bytes_read ec data clk (r', q)))"

lemmas receiver_defs =
  complete_read_def on_type_read_def on_size_read_def on_bytes_read_def receivePayloadType_def
  receivePayloadBytesSize_def receivePayloadBytes_def onPayloadReceiveError_def
  onPayloadBytesDownloaded_def

section \<open>A receiver on a byte stream\<close>

text \<open>
  Reads complete as long as the stream holds the bytes asked for; what is left is returned with
  the receiver waiting for more. A read of no bytes (an empty payload) completes at once.
  \<open>clk n\<close> is the clock of the handler that runs with \<open>n\<close> bytes still unread.
\<close>

lemma on_bytes_read_nothing_left:
  assumes "bytesToRead r = 0"
  shows "pendingRead (fst (on_bytes_read False [] clk (r\<lparr>pendingRead := NoRead\<rparr>, q))) = TypeRead"
proof -
  have "bytesSize (buf r) - bufContentOffset r = 0"
    using assms by (auto simp: bytesToRead_def MAXIMUM_BYTES_AS_NETWORK_BUFFER_def min_def split: if_splits)
  then have "bufContentOffset r = bytesSize (buf r)" by simp
  then show ?thesis by (simp add: receiver_defs write_at_def overlay_def Let_def)
qed

function (sequential) rcv_feed :: "nat \<Rightarrow> (nat \<Rightarrow> nat \<Rightarrow> int) \<Rightarrow> 'x receiver_state \<Rightarrow> byte list \<Rightarrow>
    receive_error + 'x receiver_state \<times> byte list" where
  "rcv_feed ms clk (r, q) input =
     (if pendingRead r = NoRead \<or> length input < requested r then Inr ((r, q), input)
      else case complete_read ms False (take (requested r) input) (clk (length input)) (r, q) of
             Inl e \<Rightarrow> Inl e
           | Inr s \<Rightarrow> rcv_feed ms clk s (drop (requested r) input))"
  by pat_completeness auto
termination
proof (relation "measures [\<lambda>(ms, clk, (r, q), input). length input,
                          \<lambda>(ms, clk, (r, q), input). if pendingRead r = BytesRead then 1 else 0]",
       goal_cases)
  case 1
  show ?case by simp
next
  case (2 ms clk r q input s)
  show ?case
  proof (cases "requested r = 0")
    case True
    with 2 have b: "pendingRead r = BytesRead" and z: "bytesToRead r = 0"
      by (auto simp: requested_def unat_eq_0 split: pending_read.splits)
    from 2 b True have s: "s = on_bytes_read False [] (clk (length input)) (r\<lparr>pendingRead := NoRead\<rparr>, q)"
      by (simp add: complete_read_def Let_def)
    obtain r' q' where rq: "s = (r', q')" by (cases s)
    with s on_bytes_read_nothing_left [OF z, of "clk (length input)" q]
    have "pendingRead r' = TypeRead" by (metis fst_conv)
    then show ?thesis using b True rq by simp
  next
    case False
    with 2 show ?thesis by (cases s) auto
  qed
qed

declare rcv_feed.simps [simp del]

lemma rcv_feed_step:
  assumes "pendingRead r \<noteq> NoRead" and "length d = requested r"
  shows "rcv_feed ms clk (r, q) (d @ input) =
     (case complete_read ms False d (clk (length d + length input)) (r, q) of
        Inl e \<Rightarrow> Inl e | Inr s \<Rightarrow> rcv_feed ms clk s input)"
  using assms(1)
  by (subst rcv_feed.simps) (simp add: assms(2) [symmetric] split: sum.split)

text \<open>Between two payloads: waiting for a type with the offset reset.\<close>

definition at_boundary :: "'x payload_receiver \<Rightarrow> bool" where
  "at_boundary r \<longleftrightarrow> pendingRead r = TypeRead \<and> bufContentOffset r = 0"

lemma unat_bytesToRead:
  "bufContentOffset r \<le> bytesSize (buf r) \<Longrightarrow>
     unat (bytesToRead r) = min (unat (bytesSize (buf r)) - unat (bufContentOffset r)) 64000"
  by (auto simp: bytesToRead_def MAXIMUM_BYTES_AS_NETWORK_BUFFER_def min_def unat_sub word_le_nat_alt)

text \<open>
  Reading the content from offset \<open>k\<close> on: the buffer is completed with exactly the bytes
  that follow on the stream, in however many chunks, and one payload is pushed.
\<close>

lemma rcv_feed_content:
  assumes "pendingRead r = BytesRead"
    and "length (bytes (buf r)) = unat (bytesSize (buf r))"
    and "unat (bufContentOffset r) + length c = unat (bytesSize (buf r))"
  shows "\<exists>l. rcv_feed ms clk (r, q) (c @ input) =
      (let b = (buf r)\<lparr>bytes := take (unat (bufContentOffset r)) (bytes (buf r)) @ c\<rparr>
       in rcv_feed ms clk (r\<lparr>buf := b, bufContentOffset := 0, logger := l, pendingRead := TypeRead\<rparr>,
            push b q) input)
    \<and> payloadId (traceBuf l) = payloadId (traceBuf (logger r))
    \<and> (\<forall>i. logged_bytes i l = logged_bytes i (logger r) + (if i = payloadId (traceBuf l) then length c else 0))"
  using assms
proof (induction "length c" arbitrary: r c rule: less_induct)
  case less
  let ?k = "unat (bufContentOffset r)" and ?size = "unat (bytesSize (buf r))"
  let ?n = "requested r"
  have le: "bufContentOffset r \<le> bytesSize (buf r)"
    using less.prems(3) by (simp add: word_le_nat_alt)
  have n: "?n = min (length c) 64000"
    using less.prems unat_bytesToRead [OF le] by (simp add: requested_def)
  define d c' where "d = take ?n c" and "c' = drop ?n c"
  have c: "c = d @ c'" and ld: "length d = ?n" using n by (simp_all add: d_def c'_def)
  define t where "t = clk (length d + length (c' @ input))"
  have small: "?k + length d < 2 ^ 64"
    using less.prems(3) unsigned_less [of "bytesSize (buf r)", where ?'a = nat] ld n by simp
  have off: "unat (bufContentOffset r + word_of_nat (length d)) = ?k + length d"
    using small by (simp add: unat_word_ariths unat_of_nat)
  have room: "?k + length d \<le> length (bytes (buf r))"
    using less.prems ld n by simp
  define b1 where "b1 = (buf r)\<lparr>bytes := write_at ?k d (bytes (buf r))\<rparr>"
  define r1 where "r1 = r\<lparr>buf := b1, bufContentOffset := bufContentOffset r + word_of_nat (length d),
      logger := commitPayloadSpeed (word_of_nat (length d)) (t 0) (logger r), pendingRead := BytesRead\<rparr>"
  have step: "rcv_feed ms clk (r, q) (c @ input) =
      (case complete_read ms False d t (r, q) of
         Inl e \<Rightarrow> Inl e | Inr s \<Rightarrow> rcv_feed ms clk s (c' @ input))"
    using rcv_feed_step [of r d ms clk q "c' @ input"] less.prems(1) ld by (simp add: c t_def)
  have ud: "unat (word_of_nat (length d) :: u64) = length d"
    using small by (simp add: unat_of_nat)
  show ?case
  proof (cases "c' = []")
    case True
    then have "c = d" by (simp add: c)
    have last: "\<not> bufContentOffset r + word_of_nat (length d) < bytesSize (buf r)"
      using off less.prems(3) by (simp add: word_less_nat_alt \<open>c = d\<close>)
    have all: "write_at ?k d (bytes (buf r)) = take ?k (bytes (buf r)) @ d"
      using take_write_at [OF room] length_write_at [OF room] less.prems \<open>c = d\<close> by simp
    define l where "l = commitLog (t 1) (commitPayloadSpeed (word_of_nat (length d)) (t 0) (logger r))"
    have "complete_read ms False d t (r, q) =
        Inr (r\<lparr>buf := (buf r)\<lparr>bytes := take ?k (bytes (buf r)) @ c\<rparr>, bufContentOffset := 0, logger := l,
               pendingRead := TypeRead\<rparr>, push ((buf r)\<lparr>bytes := take ?k (bytes (buf r)) @ c\<rparr>) q)"
      using less.prems(1) last all by (simp add: receiver_defs Let_def l_def \<open>c = d\<close>)
    with step True show ?thesis by (intro exI [of _ l]) (simp add: Let_def l_def ud \<open>c = d\<close>)
  next
    case False
    with c ld n have "length d > 0" by (auto simp: min_def split: if_splits)
    with c have shorter: "length c' < length c" by simp
    have more: "bufContentOffset r + word_of_nat (length d) < bytesSize (buf r)"
      using off less.prems(3) False c by (cases c') (simp_all add: word_less_nat_alt)
    have "complete_read ms False d t (r, q) = Inr (r1, q)"
      using less.prems(1) more by (simp add: receiver_defs Let_def r1_def b1_def)
    with step have s: "rcv_feed ms clk (r, q) (c @ input) = rcv_feed ms clk (r1, q) (c' @ input)"
      by simp
    have "take (?k + length d) (bytes b1) = take ?k (bytes (buf r)) @ d"
      using take_write_at [OF room] by (simp add: b1_def)
    then have tk: "take (unat (bufContentOffset r1)) (bytes (buf r1)) = take ?k (bytes (buf r)) @ d"
      using off by (simp add: r1_def)
    have pre: "pendingRead r1 = BytesRead" "length (bytes (buf r1)) = unat (bytesSize (buf r1))"
      "unat (bufContentOffset r1) + length c' = unat (bytesSize (buf r1))"
      using less.prems length_write_at [OF room] off c by (simp_all add: r1_def b1_def)
    obtain l where l: "rcv_feed ms clk (r1, q) (c' @ input) =
        (let b = (buf r1)\<lparr>bytes := take (unat (bufContentOffset r1)) (bytes (buf r1)) @ c'\<rparr>
         in rcv_feed ms clk (r1\<lparr>buf := b, bufContentOffset := 0, logger := l, pendingRead := TypeRead\<rparr>,
              push b q) input)"
      "payloadId (traceBuf l) = payloadId (traceBuf (logger r1))"
      "\<forall>i. logged_bytes i l = logged_bytes i (logger r1) + (if i = payloadId (traceBuf l) then length c' else 0)"
      using less.hyps [OF shorter pre] by blast
    show ?thesis
      by (rule exI [of _ l]) (use l c ud s tk in \<open>simp add: Let_def r1_def b1_def\<close>)
  qed
qed

text \<open>What reaches the queue: the payload as sent, in a record with the receiver's own extra fields.\<close>

definition received :: "'x \<Rightarrow> 'y raw_payload_scheme \<Rightarrow> 'x raw_payload_scheme" where
  "received m p = \<lparr>ptype = ptype p, bytesSize = bytesSize p, bytes = bytes p, \<dots> = m\<rparr>"

lemma received_sel [simp]:
  "ptype (received m p) = ptype p" "bytesSize (received m p) = bytesSize p"
  "bytes (received m p) = bytes p" "raw_payload.more (received m p) = m"
  by (simp_all add: received_def)

lemma payload_ok_received [simp]: "payload_ok (received m p) = payload_ok p"
  by (simp add: payload_ok_def)

lemma wire_received [simp]: "wire (received m p) = wire p"
  by (simp add: wire_def)

lemma raw_payload_eq_received:
  "p = received (raw_payload.more p) p"
  by (simp add: received_def)

lemma rcv_feed_payload:
  assumes "at_boundary r" and "payload_ok p" and "length (bytes p) \<le> ms"
  shows "\<exists>r'. rcv_feed ms clk (r, q) (wire p @ input) =
        rcv_feed ms clk (r', push (received (raw_payload.more (buf r)) p) q) input
    \<and> at_boundary r' \<and> raw_payload.more (buf r') = raw_payload.more (buf r)
    \<and> payloadId (traceBuf (logger r')) = payloadId (traceBuf (logger r)) + 1
    \<and> (\<forall>i. logged_bytes i (logger r') = logged_bytes i (logger r)
          + (if i = payloadId (traceBuf (logger r)) + 1 then length (bytes p) else 0))"
proof -
  from assms(2) have size: "unat (bytesSize p) = length (bytes p)" and t: "type_ok (ptype p)"
    by (auto simp: payload_ok_def)
  let ?in2 = "size_bytes (bytesSize p) @ bytes p @ input"
  let ?t1 = "clk (4 + length ?in2)"
  define l1 where "l1 = logPayloadType (ptype p) (logNewPayload (?t1 0) (logger r))"
  define r1 where "r1 = r\<lparr>buf := (buf r)\<lparr>ptype := ptype p\<rparr>, logger := l1, pendingRead := SizeRead\<rparr>"
  define b2 where "b2 = (buf r1)\<lparr>bytesSize := bytesSize p,
      bytes := resize_bytes (unat (bytesSize p)) (bytes (buf r1))\<rparr>"
  define r2 where "r2 = r1\<lparr>buf := b2, pendingRead := BytesRead\<rparr>"
  have q1: "pendingRead r \<noteq> NoRead" "length (type_bytes (ptype p)) = requested r"
    using assms(1) by (simp_all add: at_boundary_def requested_def)
  have "complete_read ms False (type_bytes (ptype p)) ?t1 (r, q) = Inr (r1, q)"
    using assms(1) t
    by (simp add: at_boundary_def receiver_defs overlay_full bytes_type_type_bytes Let_def r1_def l1_def)
  then have s1: "rcv_feed ms clk (r, q) (wire p @ input) = rcv_feed ms clk (r1, q) ?in2"
    using rcv_feed_step [OF q1, of ms clk q ?in2] by (simp add: wire_def)
  have q2: "pendingRead r1 \<noteq> NoRead" "length (size_bytes (bytesSize p)) = requested r1"
    by (simp_all add: r1_def requested_def)
  have "complete_read ms False (size_bytes (bytesSize p)) c (r1, q) = Inr (r2, q)" for c
    using assms(3) size
    by (simp add: receiver_defs overlay_full Let_def r2_def b2_def r1_def)
  then have s2: "rcv_feed ms clk (r1, q) ?in2 = rcv_feed ms clk (r2, q) (bytes p @ input)"
    using rcv_feed_step [OF q2, of ms clk q "bytes p @ input"] by simp
  have off: "bufContentOffset r2 = 0"
    using assms(1) by (simp add: r2_def r1_def at_boundary_def)
  obtain l where l: "rcv_feed ms clk (r2, q) (bytes p @ input) =
      (let b = (buf r2)\<lparr>bytes := take (unat (bufContentOffset r2)) (bytes (buf r2)) @ bytes p\<rparr>
       in rcv_feed ms clk (r2\<lparr>buf := b, bufContentOffset := 0, logger := l, pendingRead := TypeRead\<rparr>,
            push b q) input)"
    "payloadId (traceBuf l) = payloadId (traceBuf (logger r2))"
    "\<forall>i. logged_bytes i l = logged_bytes i (logger r2)
        + (if i = payloadId (traceBuf l) then length (bytes p) else 0)"
    using rcv_feed_content [of r2 "bytes p" ms clk q input] off size
    by (auto simp: r2_def b2_def r1_def)
  have b: "(buf r2)\<lparr>bytes := bytes p\<rparr> = received (raw_payload.more (buf r)) p"
    by (simp add: r2_def b2_def r1_def received_def)
  show ?thesis
    by (rule exI [of _ "r2\<lparr>buf := received (raw_payload.more (buf r)) p, bufContentOffset := 0,
          logger := l, pendingRead := TypeRead\<rparr>"])
       (use s1 s2 l off b in \<open>simp add: Let_def at_boundary_def r2_def r1_def l1_def\<close>)
qed

lemma rcv_feed_payloads:
  assumes "at_boundary r" and "\<forall>p \<in> set ps. payload_ok p \<and> length (bytes p) \<le> ms"
  shows "\<exists>r'. rcv_feed ms clk (r, q) (concat (map wire ps) @ input) =
        rcv_feed ms clk (r', fold push (map (received (raw_payload.more (buf r))) ps) q) input
    \<and> at_boundary r' \<and> raw_payload.more (buf r') = raw_payload.more (buf r)
    \<and> payloadId (traceBuf (logger r')) = payloadId (traceBuf (logger r)) + int (length ps)
    \<and> (\<forall>i. logged_bytes i (logger r') = logged_bytes i (logger r)
          + (if payloadId (traceBuf (logger r)) < i \<and> i \<le> payloadId (traceBuf (logger r)) + int (length ps)
             then length (bytes (ps ! nat (i - payloadId (traceBuf (logger r)) - 1))) else 0))"
  using assms
proof (induction ps arbitrary: r q)
  case Nil
  then show ?case by (intro exI [of _ r]) auto
next
  case (Cons p ps)
  let ?i = "payloadId (traceBuf (logger r))"
  obtain r1 where r1: "rcv_feed ms clk (r, q) (wire p @ concat (map wire ps) @ input) =
        rcv_feed ms clk (r1, push (received (raw_payload.more (buf r)) p) q) (concat (map wire ps) @ input)"
    "at_boundary r1" "raw_payload.more (buf r1) = raw_payload.more (buf r)"
    "payloadId (traceBuf (logger r1)) = ?i + 1"
    "\<forall>i. logged_bytes i (logger r1) = logged_bytes i (logger r) + (if i = ?i + 1 then length (bytes p) else 0)"
    using rcv_feed_payload [of r p ms clk q "concat (map wire ps) @ input"] Cons.prems by auto
  obtain r2 where r2: "rcv_feed ms clk (r1, push (received (raw_payload.more (buf r)) p) q)
          (concat (map wire ps) @ input) =
        rcv_feed ms clk (r2, fold push (map (received (raw_payload.more (buf r1))) ps)
          (push (received (raw_payload.more (buf r)) p) q)) input"
    "at_boundary r2" "raw_payload.more (buf r2) = raw_payload.more (buf r1)"
    "payloadId (traceBuf (logger r2)) = payloadId (traceBuf (logger r1)) + int (length ps)"
    "\<forall>i. logged_bytes i (logger r2) = logged_bytes i (logger r1)
          + (if payloadId (traceBuf (logger r1)) < i \<and> i \<le> payloadId (traceBuf (logger r1)) + int (length ps)
             then length (bytes (ps ! nat (i - payloadId (traceBuf (logger r1)) - 1))) else 0)"
    using Cons.IH [of r1 "push (received (raw_payload.more (buf r)) p) q"] r1(2) Cons.prems by auto
  have "logged_bytes i (logger r2) = logged_bytes i (logger r)
      + (if ?i < i \<and> i \<le> ?i + int (length (p # ps)) then length (bytes ((p # ps) ! nat (i - ?i - 1))) else 0)" for i
  proof (cases "i = ?i + 1")
    case True
    then show ?thesis using r1(4,5) r2(5) by simp
  next
    case False
    then have "?i + 1 < i \<longrightarrow> nat (i - ?i - 1) = Suc (nat (i - (?i + 1) - 1))" by auto
    with False show ?thesis using r1(4,5) r2(5) by auto
  qed
  with r1 r2 show ?case by (intro exI [of _ r2]) simp
qed

lemma rcv_feed_Nil: "at_boundary r \<Longrightarrow> rcv_feed ms clk (r, q) [] = Inr ((r, q), [])"
  by (subst rcv_feed.simps) (simp add: at_boundary_def requested_def)

text \<open>A freshly started receiver is at a boundary.\<close>

lemma started_boundary: "at_boundary (startReceiving (payload_receiver_init m))"
  by (simp add: startReceiving_def payload_receiver_init_def receivePayloadType_def at_boundary_def)

lemma started_sel [simp]:
  "raw_payload.more (buf (startReceiving (payload_receiver_init m))) = m"
  "payloadId (traceBuf (logger (startReceiving (payload_receiver_init m)))) = 0"
  "logged_bytes i (logger (startReceiving (payload_receiver_init m))) = 0"
  by (simp_all add: startReceiving_def payload_receiver_init_def receivePayloadType_def
      raw_payload_init_def new_logger_def logged_bytes_def speeds_def new_queue_def)

text \<open>A receiver that has just been started and is fed the bytes of any sequence of well-formed
  payloads (of sizes the string type can hold) pushes exactly these payloads, in their order and
  bit for bit, consumes the whole stream, waits for the next payload, and has logged for each
  payload download speeds that add up to its size.\<close>

theorem receiver_delivers:
  assumes "\<forall>p \<in> set ps. payload_ok p \<and> length (bytes p) \<le> ms"
  shows "\<exists>r. rcv_feed ms clk (startReceiving (payload_receiver_init m), new_queue) (concat (map wire ps))
        = Inr ((r, fold push (map (received m) ps) new_queue), [])
      \<and> at_boundary r
      \<and> (\<forall>k < length ps. logged_bytes (int k + 1) (logger r) = length (bytes (ps ! k)))"
proof -
  obtain r where r: "rcv_feed ms clk (startReceiving (payload_receiver_init m), new_queue)
          (concat (map wire ps) @ []) =
        rcv_feed ms clk (r, fold push (map (received m) ps) new_queue) []"
    "at_boundary r"
    "\<forall>i. logged_bytes i (logger r) =
       (if 0 < i \<and> i \<le> int (length ps) then length (bytes (ps ! nat (i - 1))) else 0)"
    using rcv_feed_payloads [OF started_boundary [of m] assms, where clk = clk and q = new_queue and input = "[]"]
    by (auto cong: if_cong)
  then show ?thesis by (intro exI [of _ r]) (simp add: rcv_feed_Nil)
qed

theorem receiver_delivers_witness:
  "\<exists>r. rcv_feed 100 (\<lambda>_ _. 0) (startReceiving (payload_receiver_init ()), new_queue)
        (concat (map wire [\<lparr>ptype = HEARTBEAT, bytesSize = 2, bytes = [7, 9]\<rparr> :: raw_payload]))
      = Inr ((r, fold push (map (received ()) [\<lparr>ptype = HEARTBEAT, bytesSize = 2, bytes = [7, 9]\<rparr> :: raw_payload])
               new_queue), [])"
  using receiver_delivers [of "[\<lparr>ptype = HEARTBEAT, bytesSize = 2, bytes = [7, 9]\<rparr> :: raw_payload]" 100
      "\<lambda>_ _. 0" "()"]
  by (auto simp: payload_ok_def)

section \<open>What holds whatever arrives\<close>

text \<open>
  A read may fail at any point, after any part of the bytes: that is all \<open>asio\<close> promises of a
  completion. The consumer drains the queue at any moment.
\<close>

definition asio_completion :: "'x payload_receiver \<Rightarrow> bool \<Rightarrow> byte list \<Rightarrow> bool" where
  "asio_completion r ec data \<longleftrightarrow> pendingRead r \<noteq> NoRead \<and> length data \<le> requested r
     \<and> (\<not> ec \<longrightarrow> length data = requested r)"

inductive rcv_step :: "nat \<Rightarrow> 'x receiver_state \<Rightarrow> 'x receiver_state \<Rightarrow> bool" for ms where
  completion: "asio_completion r ec data \<Longrightarrow> complete_read ms ec data clk (r, q) = Inr s \<Longrightarrow>
     rcv_step ms (r, q) s"
| drain: "rcv_step ms (r, q) (r, snd (popIntoQueue q))"

inductive_cases rcv_stepE: "rcv_step ms (r, q) s"

definition rcv_inv :: "'x payload_receiver \<Rightarrow> bool" where
  "rcv_inv r \<longleftrightarrow> isProcessing r
     \<and> expectedSize (traceBuf (logger r)) = 0 \<and> (\<forall>t \<in> set (traces (logger r)). expectedSize t = 0)
     \<and> type_ok (ptype (buf r))
     \<and> (case pendingRead r of NoRead \<Rightarrow> True
        | BytesRead \<Rightarrow> length (bytes (buf r)) = unat (bytesSize (buf r))
            \<and> bufContentOffset r \<le> bytesSize (buf r)
        | _ \<Rightarrow> bufContentOffset r = 0)"

lemma type_ok_bytes_type [simp]: "type_ok (bytes_type bs)"
  by (simp add: bytes_type_def)

lemma rcv_inv_started: "rcv_inv (startReceiving (payload_receiver_init m))"
  by (simp add: rcv_inv_def startReceiving_def payload_receiver_init_def receivePayloadType_def
      raw_payload_init_def new_logger_def traces_def new_queue_def)

lemma on_type_read_inv:
  assumes "rcv_inv r" and "pendingRead r = TypeRead"
    and "on_type_read ec data clk (r\<lparr>pendingRead := NoRead\<rparr>, q) = (r', q')"
  shows "rcv_inv r' \<and> q' = q \<and> raw_payload.more (buf r') = raw_payload.more (buf r)"
  using assms by (auto simp: rcv_inv_def receiver_defs Let_def split: if_splits)

lemma on_size_read_inv:
  assumes "rcv_inv r" and "pendingRead r = SizeRead"
    and "on_size_read ms ec data clk (r\<lparr>pendingRead := NoRead\<rparr>, q) = Inr (r', q')"
  shows "rcv_inv r' \<and> q' = q \<and> raw_payload.more (buf r') = raw_payload.more (buf r)"
  using assms by (auto simp: rcv_inv_def receiver_defs Let_def split: if_splits)

lemma in_bounds:
  assumes "rcv_inv r" and "pendingRead r = BytesRead"
  shows "unat (bufContentOffset r) + requested r \<le> length (bytes (buf r))"
proof -
  have "unat (bufContentOffset r) \<le> unat (bytesSize (buf r))"
    using assms by (simp add: rcv_inv_def word_le_nat_alt)
  with assms show ?thesis by (simp add: rcv_inv_def requested_def unat_bytesToRead)
qed

lemma on_bytes_read_inv:
  assumes "rcv_inv r" and "pendingRead r = BytesRead" and "asio_completion r ec data"
    and "on_bytes_read ec data clk (r\<lparr>pendingRead := NoRead\<rparr>, q) = (r', q')"
  shows "rcv_inv r' \<and> raw_payload.more (buf r') = raw_payload.more (buf r)
    \<and> (q' = q \<or> (\<exists>p. q' = push p q \<and> payload_ok p \<and> raw_payload.more p = raw_payload.more (buf r)))"
proof -
  let ?k = "unat (bufContentOffset r)"
  have room: "?k + length data \<le> length (bytes (buf r))"
    using in_bounds [OF assms(1,2)] assms(3) by (simp add: asio_completion_def)
  have len: "length (bytes (buf r)) = unat (bytesSize (buf r))" and ty: "type_ok (ptype (buf r))"
    using assms(1,2) by (simp_all add: rcv_inv_def)
  have "?k + length data < 2 ^ 64"
    using room len unsigned_less [of "bytesSize (buf r)", where ?'a = nat] by simp
  then have off: "unat (bufContentOffset r + word_of_nat (length data)) = ?k + length data"
    by (simp add: unat_word_ariths unat_of_nat)
  then have le: "bufContentOffset r + word_of_nat (length data) \<le> bytesSize (buf r)"
    using room len by (simp add: word_le_nat_alt)
  show ?thesis
    using assms len ty le length_write_at [OF room]
    by (auto simp: rcv_inv_def receiver_defs payload_ok_def Let_def split: if_splits)
qed

lemma complete_read_inv:
  assumes "rcv_inv r" and "asio_completion r ec data"
    and "complete_read ms ec data clk (r, q) = Inr (r', q')"
  shows "rcv_inv r' \<and> raw_payload.more (buf r') = raw_payload.more (buf r)
    \<and> (q' = q \<or> (\<exists>p. q' = push p q \<and> payload_ok p \<and> raw_payload.more p = raw_payload.more (buf r)))"
proof (cases "pendingRead r")
  case NoRead
  with assms show ?thesis by (simp add: asio_completion_def)
next
  case TypeRead
  then show ?thesis
    using assms on_type_read_inv [OF assms(1) TypeRead, of ec data clk q r' q']
    by (auto simp: complete_read_def Let_def)
next
  case SizeRead
  then show ?thesis
    using assms on_size_read_inv [OF assms(1) SizeRead, of ms ec data clk q r' q']
    by (auto simp: complete_read_def Let_def)
next
  case BytesRead
  then show ?thesis
    using assms on_bytes_read_inv [OF assms(1) BytesRead assms(2), of clk q r' q']
    by (auto simp: complete_read_def Let_def)
qed

lemma rcv_step_inv [us_inv]:
  assumes "rcv_step ms (r, q) (r', q')" and "rcv_inv r" and "\<forall>p \<in> set (items q). payload_ok p"
  shows "rcv_inv r' \<and> (\<forall>p \<in> set (items q'). payload_ok p)"
  using assms(1)
proof (rule rcv_stepE)
  fix ec data clk
  assume "asio_completion r ec data" and "complete_read ms ec data clk (r, q) = Inr (r', q')"
  then show ?thesis
    using complete_read_inv [of r ec data ms clk q r' q'] assms(2,3) by auto
next
  assume "(r', q') = (r, snd (popIntoQueue q))"
  with assms show ?thesis by (simp add: popIntoQueue_eq)
qed

lemma rcv_reach_inv:
  assumes "(rcv_step ms)\<^sup>*\<^sup>* s t" and "rcv_inv (fst s)" and "\<forall>p \<in> set (items (snd s)). payload_ok p"
  shows "rcv_inv (fst t) \<and> (\<forall>p \<in> set (items (snd t)). payload_ok p)"
  using assms
proof (induction rule: rtranclp_induct)
  case (step t u)
  then show ?case using rcv_step_inv [of ms "fst t" "snd t" "fst u" "snd u"] by simp
qed simp

text \<open>C11: Whatever bytes arrive, in whatever chunks, with reads failing at any point: every payload a
  receiver ever queues has as many bytes as its size field says and a canonical type; a content read
  never writes outside the resized buffer and never asks for more than 64000 bytes; and no trace it
  commits carries the announced size (\<open>logPayloadSize\<close> is never called by the receiver).\<close>

theorem receiver_memory_safe:
  assumes "(rcv_step ms)\<^sup>*\<^sup>* (startReceiving (payload_receiver_init m), new_queue) (r, q)"
  shows "(\<forall>p \<in> set (items q). payload_ok p)
    \<and> (pendingRead r = BytesRead \<longrightarrow>
         unat (bufContentOffset r) + requested r \<le> length (bytes (buf r)) \<and> requested r \<le> 64000)
    \<and> (\<forall>t \<in> set (traces (logger r)). expectedSize t = 0)"
proof -
  have inv: "rcv_inv r" and ok: "\<forall>p \<in> set (items q). payload_ok p"
    using rcv_reach_inv [OF assms] by (simp_all add: rcv_inv_started aq.fresh_contents)
  moreover have "requested r \<le> 64000" if "pendingRead r = BytesRead"
    using inv that by (simp add: rcv_inv_def requested_def unat_bytesToRead)
  ultimately show ?thesis using in_bounds [OF inv] by (simp add: rcv_inv_def)
qed

theorem receiver_memory_safe_witness:
  "\<exists>r. (rcv_step 100)\<^sup>*\<^sup>* (startReceiving (payload_receiver_init ()), new_queue) (r, new_queue)
     \<and> pendingRead r = SizeRead \<and> (\<forall>t \<in> set (traces (logger r)). expectedSize t = 0)"
proof -
  let ?r0 = "startReceiving (payload_receiver_init ())"
  define s where "s = on_type_read False [1, 0, 0, 0] (\<lambda>_. 5) (?r0\<lparr>pendingRead := NoRead\<rparr>, new_queue)"
  have p0: "pendingRead ?r0 = TypeRead"
    by (simp add: startReceiving_def payload_receiver_init_def receivePayloadType_def)
  have "rcv_step 100 (?r0, new_queue) s"
    by (rule rcv_step.completion [where ec = False and data = "[1, 0, 0, 0]" and clk = "\<lambda>_. 5"])
       (simp_all add: asio_completion_def requested_def p0 complete_read_def Let_def s_def)
  moreover have "s = (fst s, new_queue)" and "pendingRead (fst s) = SizeRead"
    by (simp_all add: s_def receiver_defs Let_def)
  ultimately have "(rcv_step 100)\<^sup>*\<^sup>* (?r0, new_queue) (fst s, new_queue)"
    and "pendingRead (fst s) = SizeRead" by (metis r_into_rtranclp)+
  then show ?thesis using receiver_memory_safe [of 100 "()" "fst s" new_queue] by blast
qed

text \<open>After any read error the receiver is dead: the payload in progress is not queued, the error
  is traced, no read is outstanding, no later completion changes anything, and \<open>_startReceiving\<close>
  (whose flag \<open>_isProcessing\<close> is never cleared) does not bring it back.\<close>

theorem receiver_error_is_final:
  assumes "rcv_inv r" and "asio_completion r True data"
  shows "\<exists>r'. complete_read ms True data clk (r, q) = Inr (r', q)
    \<and> pendingRead r' = NoRead \<and> length (traces (logger r')) = length (traces (logger r)) + 1
    \<and> startReceiving r' = r'
    \<and> complete_read ms ec data' clk' (r', q) = Inr (r', q)"
proof -
  have "isProcessing r" using assms(1) by (simp add: rcv_inv_def)
  then show ?thesis
    using assms(2)
    by (cases "pendingRead r") (auto simp: asio_completion_def receiver_defs startReceiving_def Let_def)
qed

theorem receiver_error_is_final_witness:
  "\<exists>r'. complete_read 100 True [1] (\<lambda>_. 0) (startReceiving (payload_receiver_init ()), new_queue)
      = Inr (r', new_queue) \<and> pendingRead r' = NoRead \<and> startReceiving r' = r'"
proof -
  have c: "asio_completion (startReceiving (payload_receiver_init ())) True [1]"
    by (simp add: asio_completion_def requested_def startReceiving_def payload_receiver_init_def
        receivePayloadType_def)
  show ?thesis
    using receiver_error_is_final [OF rcv_inv_started c, where ms = 100 and clk = "\<lambda>_. 0"
        and q = new_queue and ec = False and data' = "[]" and clk' = "\<lambda>_. 0"] by blast
qed

end
