(* ===== verification/PayloadSender.thy ===== *)
theory PayloadSender
  imports PayloadReceiver
begin

text \<open>
  \<open>src/network/IPayloadSender\<close>: the sending half of a connection. Payloads wait in the outgoing
  queue; the front one is copied to the buffer and written as type, size and content, at most
  64000 bytes per write, then popped, and the next one follows.

  A sender is its fields, the writes that have been started and have not completed
  (\<open>writes\<close>, each with the bytes of its buffer), and the bytes the socket has taken
  (\<open>socketOut\<close>). Nothing in the code limits \<open>writes\<close> to one element.
\<close>

datatype write_kind = TypeWrite | SizeWrite | BytesWrite

record 'x payload_sender = "'x payload_handler" +
  writes :: "(write_kind \<times> byte list) list"
  socketOut :: "byte list"

type_synonym 'x sender_state = "'x payload_sender \<times> 'x raw_payload_scheme atomic_queue"

text \<open>A failed assertion of the queue, or a write whose buffer runs past the payload's bytes.\<close>

datatype send_error = QueueAssertion | BufferOverread

definition payload_sender_init :: "'x \<Rightarrow> 'x payload_sender" where
  "payload_sender_init m =
     \<lparr>buf = raw_payload_init m, bufContentOffset = 0, isProcessing = False, logger = new_logger,
      writes = [], socketOut = []\<rparr>"

definition onPayloadSendError :: "int \<Rightarrow> 'x payload_sender \<Rightarrow> 'x payload_sender" where
  "onPayloadSendError now s = s\<lparr>logger := commitLog now (logger s)\<rparr>"

definition onPayloadBytesUploaded :: "u64 \<Rightarrow> int \<Rightarrow> 'x payload_sender \<Rightarrow> 'x payload_sender" where
  "onPayloadBytesUploaded uploaded now s =
     s\<lparr>logger := commitPayloadSpeed uploaded now (logger s)\<rparr>"

definition async_write :: "write_kind \<Rightarrow> byte list \<Rightarrow> 'x payload_sender \<Rightarrow> 'x payload_sender" where
  "async_write k data s = s\<lparr>writes := writes s @ [(k, data)]\<rparr>"

definition sendPayloadType :: "(nat \<Rightarrow> int) \<Rightarrow> 'x sender_state \<Rightarrow> send_error + 'x sender_state" where
  "sendPayloadType clk = (\<lambda>(s, q).
     case front q of
       Inl _ \<Rightarrow> Inl QueueAssertion
     | Inr p \<Rightarrow>
         let s = s\<lparr>buf := p\<rparr>;
             s = s\<lparr>logger := logNewPayload (clk 0) (logger s)\<rparr>;
             s = s\<lparr>logger := logPayloadType (ptype (buf s)) (logger s)\<rparr>;
             s = s\<lparr>logger := logPayloadSize (bytesSize (buf s)) (logger s)\<rparr>
         in Inr (async_write TypeWrite (type_bytes (ptype (buf s))) s, q))"

definition sendPayloadBytesSize :: "'x payload_sender \<Rightarrow> 'x payload_sender" where
  "sendPayloadBytesSize s = async_write SizeWrite (size_bytes (bytesSize (buf s))) s"

text \<open>
  \<open>c_str() + offset\<close> with \<open>bytesToWrite\<close> bytes: valid up to the string's terminating zero.
\<close>

definition sendPayloadBytes :: "'x payload_sender \<Rightarrow> send_error + 'x payload_sender" where
  "sendPayloadBytes s =
     (let bytesToWrite = min (bytesSize (buf s) - bufContentOffset s) MAXIMUM_BYTES_AS_NETWORK_BUFFER;
          c_str = bytes (buf s) @ [0];
          off = unat (bufContentOffset s)
      in if length c_str < off + unat bytesToWrite then Inl BufferOverread
         else Inr (async_write BytesWrite (take (unat bytesToWrite) (drop off c_str)) s))"

definition sendPayload :: "'x raw_payload_scheme \<Rightarrow> (nat \<Rightarrow> int) \<Rightarrow> 'x sender_state \<Rightarrow>
    send_error + 'x sender_state" where
  "sendPayload payload clk = (\<lambda>(s, q).
     let q = push payload q
     in if isProcessing s then Inr (s, q) else sendPayloadType clk (s, q))"

text \<open>The completion handler of a content write of \<open>len\<close> bytes.\<close>

definition on_bytes_written :: "u64 \<Rightarrow> (nat \<Rightarrow> int) \<Rightarrow> 'x sender_state \<Rightarrow> send_error + 'x sender_state" where
  "on_bytes_written len clk = (\<lambda>(s, q).
     let s = s\<lparr>bufContentOffset := bufContentOffset s + len\<rparr>;
         s = onPayloadBytesUploaded len (clk 0) s
     in if bufContentOffset s < bytesSize (buf s)
        then (case sendPayloadBytes s of Inl e \<Rightarrow> Inl e | Inr s \<Rightarrow> Inr (s, q))
        else
          let s = s\<lparr>bufContentOffset := 0\<rparr>
          in case pop q of
               Inl _ \<Rightarrow> Inl QueueAssertion
             | Inr (queueIsEmpty, q) \<Rightarrow>
                 let s = s\<lparr>logger := commitLog (clk 1) (logger s)\<rparr>
                 in if \<not> queueIsEmpty then sendPayloadType clk (s, q) else Inr (s, q))"

text \<open>
  The \<open>i\<close>-th outstanding write completes: with success after all its bytes, with the error \<open>ec\<close>
  after the first \<open>n\<close> of them.
\<close>

definition complete_write :: "nat \<Rightarrow> bool \<Rightarrow> nat \<Rightarrow> (nat \<Rightarrow> int) \<Rightarrow> 'x sender_state \<Rightarrow>
    send_error + 'x sender_state" where
  "complete_write i ec n clk = (\<lambda>(s, q).
     if length (writes s) \<le> i then Inr (s, q)
     else
       let (k, data) = writes s ! i;
           s = s\<lparr>writes := take i (writes s) @ drop (Suc i) (writes s),
                 socketOut := socketOut s @ (if ec then take n data else data)\<rparr>
       in if ec then Inr (onPayloadSendError (clk 0) s, q)
          else case k of
                 TypeWrite \<Rightarrow> Inr (sendPayloadBytesSize s, q)
               | SizeWrite \<Rightarrow> (case sendPayloadBytes s of Inl e \<Rightarrow> Inl e | Inr s \<Rightarrow> Inr (s, q))
               | BytesWrite \<Rightarrow> on_bytes_written (word_of_nat (length data)) clk (s, q))"

lemmas sender_defs =
  complete_write_def on_bytes_written_def sendPayloadBytesSize_def async_write_def
  onPayloadSendError_def onPayloadBytesUploaded_def

section \<open>Running the writes to completion\<close>

text \<open>
  \<open>n\<close> completions, each of the oldest write and successful; it stops when none is outstanding.
  \<open>clk b\<close> is the clock of the handler that runs when \<open>b\<close> bytes have left.
\<close>

fun snd_run :: "nat \<Rightarrow> (nat \<Rightarrow> nat \<Rightarrow> int) \<Rightarrow> 'x sender_state \<Rightarrow> send_error + 'x sender_state" where
  "snd_run 0 clk (s, q) = Inr (s, q)"
| "snd_run (Suc n) clk (s, q) =
     (if writes s = [] then Inr (s, q)
      else case complete_write 0 False 0 (clk (length (socketOut s))) (s, q) of
             Inl e \<Rightarrow> Inl e
           | Inr t \<Rightarrow> snd_run n clk t)"

lemma snd_run_numeral:
  "snd_run (numeral k) clk (s, q) =
     (if writes s = [] then Inr (s, q)
      else case complete_write 0 False 0 (clk (length (socketOut s))) (s, q) of
             Inl e \<Rightarrow> Inl e
           | Inr t \<Rightarrow> snd_run (pred_numeral k) clk t)"
  by (simp add: numeral_eq_Suc)

lemma snd_run_add: "snd_run n clk s = Inr t \<Longrightarrow> snd_run (n + m) clk s = snd_run m clk t"
proof (induction n clk s rule: snd_run.induct)
  case (1 clk s q)
  then show ?case by simp
next
  case (2 n clk s q)
  show ?case
  proof (cases "writes s = []")
    case True
    with 2 have "t = (s, q)" by simp
    with True show ?thesis by (cases m) simp_all
  next
    case False
    with 2 show ?thesis by (auto split: sum.splits)
  qed
qed

definition reaches :: "nat \<Rightarrow> (nat \<Rightarrow> nat \<Rightarrow> int) \<Rightarrow> 'x sender_state \<Rightarrow> 'x sender_state \<Rightarrow> bool" where
  "reaches b clk s t \<longleftrightarrow> (\<exists>n \<le> b. snd_run n clk s = Inr t)"

lemma reaches_refl: "reaches 0 clk s s"
  by (cases s) (simp add: reaches_def)

lemma reaches_trans: "reaches a clk s t \<Longrightarrow> reaches b clk t u \<Longrightarrow> reaches (a + b) clk s u"
  unfolding reaches_def by (metis add_mono snd_run_add)

lemma reaches_le: "reaches a clk s t \<Longrightarrow> a \<le> b \<Longrightarrow> reaches b clk s t"
  unfolding reaches_def by (metis order_trans)

lemma reaches_step:
  assumes "complete_write 0 False 0 (clk (length (socketOut s))) (s, q) = Inr t" and "writes s \<noteq> []"
  shows "reaches 1 clk (s, q) t"
  unfolding reaches_def by (rule exI [of _ 1]) (use assms in \<open>cases t, simp\<close>)

lemma reaches_final:
  assumes "reaches b clk s (t, q)" and "writes t = []" and "b \<le> n"
  shows "snd_run n clk s = Inr (t, q)"
proof -
  obtain k where k: "k \<le> b" "snd_run k clk s = Inr (t, q)" using assms(1) by (auto simp: reaches_def)
  have "snd_run m clk (t, q) = Inr (t, q)" for m using assms(2) by (cases m) simp_all
  with snd_run_add [OF k(2), of "n - k"] k(1) assms(3) show ?thesis by simp
qed

text \<open>
  One chain of writes: nothing is outstanding and the queue is empty, or the type of the front
  payload, which the buffer holds, is being written.
\<close>

definition ready :: "'x payload_sender \<Rightarrow> 'x raw_payload_scheme atomic_queue \<Rightarrow> bool" where
  "ready s q \<longleftrightarrow> (case items q of
      [] \<Rightarrow> writes s = []
    | p # _ \<Rightarrow> writes s = [(TypeWrite, type_bytes (ptype p))] \<and> buf s = p)"

lemma sendPayloadType_ready:
  assumes "items q \<noteq> []" and "writes s = []"
  shows "\<exists>t. sendPayloadType clk (s, q) = Inr (t, q) \<and> ready t q \<and> socketOut t = socketOut s
    \<and> bufContentOffset t = bufContentOffset s \<and> isProcessing t = isProcessing s"
  using assms
  by (cases "items q")
     (auto simp: sendPayloadType_def front_Cons ready_def async_write_def Let_def)

lemma sendPayloadBytes_ok:
  assumes "payload_ok (buf s)" and "unat (bufContentOffset s) \<le> length (bytes (buf s))"
  shows "sendPayloadBytes s =
    Inr (async_write BytesWrite (take 64000 (drop (unat (bufContentOffset s)) (bytes (buf s)))) s)"
proof -
  let ?k = "unat (bufContentOffset s)" and ?b = "bytes (buf s)"
  have "unat (bytesSize (buf s)) = length ?b" using assms(1) by (simp add: payload_ok_def)
  moreover from this have "bufContentOffset s \<le> bytesSize (buf s)"
    using assms(2) by (simp add: word_le_nat_alt)
  ultimately have "unat (min (bytesSize (buf s) - bufContentOffset s) MAXIMUM_BYTES_AS_NETWORK_BUFFER)
      = min (length ?b - ?k) 64000"
    by (auto simp: MAXIMUM_BYTES_AS_NETWORK_BUFFER_def min_def unat_sub word_le_nat_alt)
  moreover have "take (min (length ?b - ?k) 64000) (drop ?k ?b) = take 64000 (drop ?k ?b)"
    by (simp add: min_def)
  ultimately show ?thesis using assms(2) by (simp add: sendPayloadBytes_def Let_def)
qed

lemma snd_content:
  assumes "payload_ok (buf s)" and "unat (bufContentOffset s) \<le> length (bytes (buf s))"
    and "writes s = [(BytesWrite, take 64000 (drop (unat (bufContentOffset s)) (bytes (buf s))))]"
    and "items q = x # ps"
  shows "\<exists>t q'. reaches (length (bytes (buf s)) - unat (bufContentOffset s) + 1) clk (s, q) (t, q')
    \<and> items q' = ps \<and> ready t q' \<and> bufContentOffset t = 0 \<and> isProcessing t = isProcessing s
    \<and> socketOut t = socketOut s @ drop (unat (bufContentOffset s)) (bytes (buf s))"
  using assms
proof (induction "length (bytes (buf s)) - unat (bufContentOffset s)" arbitrary: s rule: less_induct)
  case less
  let ?k = "unat (bufContentOffset s)" and ?b = "bytes (buf s)"
  define d where "d = take 64000 (drop ?k ?b)"
  have size: "unat (bytesSize (buf s)) = length ?b" using less.prems(1) by (simp add: payload_ok_def)
  have lb: "length ?b < 2 ^ 64" using size unsigned_less [of "bytesSize (buf s)", where ?'a = nat] by simp
  have d: "length d \<le> length ?b - ?k" by (simp add: d_def)
  then have off: "unat (bufContentOffset s + word_of_nat (length d)) = ?k + length d"
    using lb less.prems(2) by (simp add: unat_word_ariths unat_of_nat)
  define s1 where "s1 = s\<lparr>writes := [], socketOut := socketOut s @ d,
      bufContentOffset := bufContentOffset s + word_of_nat (length d),
      logger := commitPayloadSpeed (word_of_nat (length d)) (clk (length (socketOut s)) 0) (logger s)\<rparr>"
  show ?case
  proof (cases "?k + length d < length ?b")
    case True
    then have lt: "bufContentOffset s + word_of_nat (length d) < bytesSize (buf s)"
      using off size by (simp add: word_less_nat_alt)
    define s2 where "s2 = async_write BytesWrite (take 64000 (drop (?k + length d) ?b)) s1"
    have ok: "sendPayloadBytes s1 = Inr s2"
      using sendPayloadBytes_ok [of s1] less.prems(1) True off by (simp add: s2_def s1_def)
    have "complete_write 0 False 0 (clk (length (socketOut s))) (s, q) = Inr (s2, q)"
      using less.prems(3) lt ok
      by (simp add: complete_write_def on_bytes_written_def onPayloadBytesUploaded_def d_def [symmetric]
          s1_def Let_def)
    then have one: "reaches 1 clk (s, q) (s2, q)" by (rule reaches_step) (simp add: less.prems(3))
    have pos: "length d > 0" using True by (simp add: d_def)
    have "length d = 64000" using True by (auto simp: d_def min_def split: if_splits)
    then have join: "d @ drop (?k + length d) ?b = drop ?k ?b"
      using append_take_drop_id [of 64000 "drop ?k ?b"] by (simp add: d_def [symmetric] add.commute)
    have shorter: "length ?b - (?k + length d) < length ?b - ?k" using pos True by linarith
    have pre: "payload_ok (buf s2)" "unat (bufContentOffset s2) \<le> length (bytes (buf s2))"
      "writes s2 = [(BytesWrite, take 64000 (drop (unat (bufContentOffset s2)) (bytes (buf s2))))]"
      "length (bytes (buf s2)) - unat (bufContentOffset s2) < length ?b - ?k"
      "length (bytes (buf s2)) - unat (bufContentOffset s2) = length ?b - (?k + length d)"
      using less.prems True off shorter by (simp_all add: s2_def s1_def async_write_def)
    obtain t q' where t: "reaches (length ?b - (?k + length d) + 1) clk (s2, q) (t, q')"
      "items q' = ps" "ready t q'" "bufContentOffset t = 0" "isProcessing t = isProcessing s2"
      "socketOut t = socketOut s2 @ drop (unat (bufContentOffset s2)) (bytes (buf s2))"
      using less.hyps [OF pre(4,1,2,3) less.prems(4)] pre(5) by auto
    have "reaches (length ?b - ?k + 1) clk (s, q) (t, q')"
      by (rule reaches_le [OF reaches_trans [OF one t(1)]]) (use shorter in linarith)
    moreover have "socketOut t = socketOut s @ drop ?k ?b"
      using t(6) off join by (simp add: s2_def s1_def async_write_def)
    ultimately show ?thesis using t by (intro exI [of _ t] exI [of _ q']) (simp add: s2_def s1_def async_write_def)
  next
    case False
    then have all: "d = drop ?k ?b" and ge: "\<not> bufContentOffset s + word_of_nat (length d) < bytesSize (buf s)"
      using off size less.prems(2) by (auto simp: d_def word_less_nat_alt)
    define q1 where "q1 = q\<lparr>items := ps, isQueueEmpty := (ps = [])\<rparr>"
    define s2 where "s2 = s1\<lparr>bufContentOffset := 0,
        logger := commitLog (clk (length (socketOut s)) 1) (logger s1)\<rparr>"
    have pq: "pop q = Inr (ps = [], q1)" using less.prems(4) by (simp add: pop_Cons q1_def)
    have cw: "complete_write 0 False 0 (clk (length (socketOut s))) (s, q) =
        (if ps \<noteq> [] then sendPayloadType (clk (length (socketOut s))) (s2, q1) else Inr (s2, q1))"
      using less.prems(3) ge pq
      by (simp add: complete_write_def on_bytes_written_def onPayloadBytesUploaded_def d_def [symmetric]
          s2_def s1_def Let_def)
    have s2: "writes s2 = []" "socketOut s2 = socketOut s @ drop ?k ?b" "bufContentOffset s2 = 0"
      "isProcessing s2 = isProcessing s" "items q1 = ps"
      by (simp_all add: s2_def s1_def q1_def all [symmetric])
    obtain t where "complete_write 0 False 0 (clk (length (socketOut s))) (s, q) = Inr (t, q1)"
      "ready t q1" "socketOut t = socketOut s2" "bufContentOffset t = 0" "isProcessing t = isProcessing s"
    proof (cases "ps = []")
      case True
      with cw s2 that [of s2] show thesis by (simp add: ready_def)
    next
      case False
      with sendPayloadType_ready [of q1 s2 "clk (length (socketOut s))"] s2 cw that show thesis by auto
    qed
    moreover from this(1) have "reaches 1 clk (s, q) (t, q1)"
      by (rule reaches_step) (simp add: less.prems(3))
    then have "reaches (length ?b - ?k + 1) clk (s, q) (t, q1)" by (rule reaches_le) simp
    ultimately show ?thesis using s2 by auto
  qed
qed

text \<open>
  One payload from its type on. A non-zero offset, which an earlier content error leaves behind,
  makes the content start there.
\<close>

lemma snd_payload:
  assumes "ready s q" and "items q = p # ps" and "payload_ok p"
    and "unat (bufContentOffset s) \<le> length (bytes p)"
  shows "\<exists>t q'. reaches (length (bytes p) + 3) clk (s, q) (t, q')
    \<and> items q' = ps \<and> ready t q' \<and> bufContentOffset t = 0 \<and> isProcessing t = isProcessing s
    \<and> socketOut t = socketOut s @ type_bytes (ptype p) @ size_bytes (bytesSize p)
        @ drop (unat (bufContentOffset s)) (bytes p)"
proof -
  let ?k = "unat (bufContentOffset s)"
  have w: "writes s = [(TypeWrite, type_bytes (ptype p))]" and b: "buf s = p"
    using assms(1,2) by (simp_all add: ready_def)
  define s1 where "s1 = s\<lparr>writes := [(SizeWrite, size_bytes (bytesSize p))],
      socketOut := socketOut s @ type_bytes (ptype p)\<rparr>"
  define s2 where "s2 = s1\<lparr>writes := [(BytesWrite, take 64000 (drop ?k (bytes p)))],
      socketOut := socketOut s1 @ size_bytes (bytesSize p)\<rparr>"
  have "complete_write 0 False 0 c (s, q) = Inr (s1, q)" for c
    using w b by (simp add: sender_defs s1_def)
  then have r1: "reaches 1 clk (s, q) (s1, q)" by (rule reaches_step) (simp add: w)
  have "sendPayloadBytes (s1\<lparr>writes := [], socketOut := socketOut s1 @ size_bytes (bytesSize p)\<rparr>) = Inr s2"
    using assms(3,4) b by (subst sendPayloadBytes_ok) (simp_all add: s2_def s1_def async_write_def)
  then have "complete_write 0 False 0 c (s1, q) = Inr (s2, q)" for c
    by (simp add: complete_write_def Let_def) (simp add: s1_def)
  then have r2: "reaches 1 clk (s1, q) (s2, q)" by (rule reaches_step) (simp add: s1_def)
  have pre: "payload_ok (buf s2)" "unat (bufContentOffset s2) \<le> length (bytes (buf s2))"
    "writes s2 = [(BytesWrite, take 64000 (drop (unat (bufContentOffset s2)) (bytes (buf s2))))]"
    using assms(3,4) b by (simp_all add: s2_def s1_def)
  obtain t q' where t: "reaches (length (bytes (buf s2)) - unat (bufContentOffset s2) + 1) clk (s2, q) (t, q')"
    "items q' = ps" "ready t q'" "bufContentOffset t = 0" "isProcessing t = isProcessing s2"
    "socketOut t = socketOut s2 @ drop (unat (bufContentOffset s2)) (bytes (buf s2))"
    using snd_content [OF pre assms(2)] by blast
  have "reaches (length (bytes p) + 3) clk (s, q) (t, q')"
    by (rule reaches_le [OF reaches_trans [OF reaches_trans [OF r1 r2] t(1)]])
       (simp add: s2_def s1_def b)
  with t show ?thesis by (intro exI [of _ t] exI [of _ q']) (simp add: s2_def s1_def b)
qed

text \<open>Completions that are enough to write out a whole queue.\<close>

definition send_fuel :: "'x raw_payload_scheme list \<Rightarrow> nat" where
  "send_fuel ps = (\<Sum>p \<leftarrow> ps. length (bytes p) + 3)"

lemma snd_all:
  assumes "ready s q" and "bufContentOffset s = 0" and "\<forall>p \<in> set (items q). payload_ok p"
  shows "\<exists>t q'. reaches (send_fuel (items q)) clk (s, q) (t, q')
    \<and> items q' = [] \<and> writes t = [] \<and> bufContentOffset t = 0 \<and> isProcessing t = isProcessing s
    \<and> socketOut t = socketOut s @ concat (map wire (items q))"
  using assms
proof (induction "items q" arbitrary: s q)
  case Nil
  then have "writes s = []" by (simp add: ready_def flip: Nil.hyps)
  with Nil show ?case
    by (intro exI [of _ s] exI [of _ q]) (simp add: send_fuel_def reaches_refl flip: Nil.hyps)
next
  case (Cons p ps)
  have p: "items q = p # ps" using Cons.hyps(2) by simp
  obtain s1 q1 where s1: "reaches (length (bytes p) + 3) clk (s, q) (s1, q1)"
    "items q1 = ps" "ready s1 q1" "bufContentOffset s1 = 0" "isProcessing s1 = isProcessing s"
    "socketOut s1 = socketOut s @ wire p"
    using snd_payload [OF Cons.prems(1) p, of clk] Cons.prems(2,3) p by (auto simp: wire_def)
  obtain t q' where t: "reaches (send_fuel ps) clk (s1, q1) (t, q')"
    "items q' = []" "writes t = []" "bufContentOffset t = 0" "isProcessing t = isProcessing s1"
    "socketOut t = socketOut s1 @ concat (map wire ps)"
    using Cons.hyps(1) [of q1 s1] s1 Cons.prems(3) p by auto
  have "reaches (send_fuel (items q)) clk (s, q) (t, q')"
    by (rule reaches_le [OF reaches_trans [OF s1(1) t(1)]]) (simp add: p send_fuel_def)
  with s1 t p show ?case by (intro exI [of _ t] exI [of _ q']) simp
qed

section \<open>Sends one at a time\<close>

definition snd_idle :: "'x sender_state \<Rightarrow> bool" where
  "snd_idle = (\<lambda>(s, q). writes s = [] \<and> items q = [] \<and> bufContentOffset s = 0 \<and> \<not> isProcessing s)"

lemma snd_idle_init: "snd_idle (payload_sender_init m, new_queue)"
  by (simp add: snd_idle_def payload_sender_init_def new_queue_def)

lemma sendPayload_idle:
  assumes "snd_idle (s, q)"
  shows "\<exists>t. sendPayload p clk (s, q) = Inr (t, push p q) \<and> ready t (push p q)
    \<and> socketOut t = socketOut s \<and> bufContentOffset t = 0 \<and> isProcessing t = isProcessing s"
  using assms sendPayloadType_ready [of "push p q" s clk]
  by (auto simp: snd_idle_def sendPayload_def Let_def)

text \<open>Send a payload and let its writes complete before the next is sent.\<close>

definition send_and_wait :: "'x raw_payload_scheme \<Rightarrow> (nat \<Rightarrow> nat \<Rightarrow> int) \<Rightarrow> 'x sender_state \<Rightarrow>
    send_error + 'x sender_state" where
  "send_and_wait p clk s =
     (case sendPayload p (clk 0) s of Inl e \<Rightarrow> Inl e
      | Inr t \<Rightarrow> snd_run (send_fuel [p]) clk t)"

fun send_list :: "'x raw_payload_scheme list \<Rightarrow> (nat \<Rightarrow> nat \<Rightarrow> int) \<Rightarrow> 'x sender_state \<Rightarrow>
    send_error + 'x sender_state" where
  "send_list [] clk s = Inr s"
| "send_list (p # ps) clk s =
     (case send_and_wait p clk s of Inl e \<Rightarrow> Inl e | Inr t \<Rightarrow> send_list ps clk t)"

lemma send_and_wait_idle:
  assumes "snd_idle (s, q)" and "payload_ok p"
  shows "\<exists>t q'. send_and_wait p clk (s, q) = Inr (t, q') \<and> snd_idle (t, q')
    \<and> socketOut t = socketOut s @ wire p"
proof -
  obtain s1 where s1: "sendPayload p (clk 0) (s, q) = Inr (s1, push p q)" "ready s1 (push p q)"
    "socketOut s1 = socketOut s" "bufContentOffset s1 = 0" "isProcessing s1 = isProcessing s"
    using sendPayload_idle [OF assms(1)] by blast
  have i: "items (push p q) = [p]" using assms(1) by (simp add: snd_idle_def)
  obtain t q' where t: "reaches (send_fuel (items (push p q))) clk (s1, push p q) (t, q')"
    "items q' = []" "writes t = []" "bufContentOffset t = 0" "isProcessing t = isProcessing s1"
    "socketOut t = socketOut s1 @ concat (map wire (items (push p q)))"
    using snd_all [OF s1(2,4), of clk] assms(2) i by auto
  have "snd_run (send_fuel [p]) clk (s1, push p q) = Inr (t, q')"
    using reaches_final [OF t(1) [unfolded i] t(3)] by simp
  with s1 t i assms(1) show ?thesis
    by (intro exI [of _ t] exI [of _ q']) (simp add: send_and_wait_def snd_idle_def)
qed

lemma send_list_idle:
  assumes "snd_idle s" and "\<forall>p \<in> set ps. payload_ok p"
  shows "\<exists>t q. send_list ps clk s = Inr (t, q) \<and> snd_idle (t, q)
    \<and> socketOut t = socketOut (fst s) @ concat (map wire ps)"
  using assms
proof (induction ps arbitrary: s)
  case Nil
  then show ?case by (cases s) auto
next
  case (Cons p ps)
  obtain s0 q0 where s: "s = (s0, q0)" by (cases s)
  obtain t q' where t: "send_and_wait p clk (s0, q0) = Inr (t, q')" "snd_idle (t, q')"
    "socketOut t = socketOut s0 @ wire p"
    using send_and_wait_idle [of s0 q0 p clk] Cons.prems s by auto
  with Cons.IH [of "(t, q')"] Cons.prems(2) s show ?case by auto
qed

text \<open>C10: When each payload is sent after the writes of the previous one have completed, a new sender
  puts exactly the wire forms of the payloads on the socket, in order (type, size, content in chunks),
  needs at most one completion per byte plus three per payload, and ends with nothing queued,
  nothing outstanding and the offset reset.\<close>

theorem sender_transmits:
  assumes "\<forall>p \<in> set ps. payload_ok p"
  shows "\<exists>t q. send_list ps clk (payload_sender_init m, new_queue) = Inr (t, q)
    \<and> socketOut t = concat (map wire ps)
    \<and> items q = [] \<and> writes t = [] \<and> bufContentOffset t = 0"
proof -
  obtain t q where "send_list ps clk (payload_sender_init m, new_queue) = Inr (t, q)" "snd_idle (t, q)"
    "socketOut t = socketOut (payload_sender_init m) @ concat (map wire ps)"
    using send_list_idle [OF snd_idle_init [of m] assms, of clk] by auto
  then show ?thesis by (auto simp: snd_idle_def payload_sender_init_def)
qed

theorem sender_transmits_witness:
  "\<exists>t q. send_list [\<lparr>ptype = HEARTBEAT, bytesSize = 1, bytes = [7]\<rparr>, \<lparr>ptype = HANDSHAKE, bytesSize = 0, bytes = []\<rparr>]
        (\<lambda>_ _. 0) (payload_sender_init (), new_queue) = Inr (t, q)
    \<and> socketOut t = [1, 0, 0, 0, 1, 0, 0, 0, 0, 0, 0, 0, 7, 2, 0, 0, 0, 0, 0, 0, 0, 0, 0, 0, 0]"
  using sender_transmits [of "[\<lparr>ptype = HEARTBEAT, bytesSize = 1, bytes = [7]\<rparr>,
      \<lparr>ptype = HANDSHAKE, bytesSize = 0, bytes = []\<rparr> :: raw_payload]" "\<lambda>_ _. 0" "()"]
  by (auto simp: payload_ok_def wire_def type_bytes_def size_bytes_def le_bytes_numeral)

section \<open>What holds in every interleaving\<close>

text \<open>Sends at any moment, completions in any order and with any outcome.\<close>

inductive snd_step :: "'x sender_state \<Rightarrow> 'x sender_state \<Rightarrow> bool" where
  send: "sendPayload p clk s = Inr t \<Longrightarrow> snd_step s t"
| complete: "complete_write i ec n clk s = Inr t \<Longrightarrow> snd_step s t"

definition snd_inv :: "'x payload_sender \<Rightarrow> bool" where
  "snd_inv s \<longleftrightarrow> \<not> isProcessing s \<and> (\<forall>(k, data) \<in> set (writes s). k = BytesWrite \<longrightarrow> length data \<le> 64000)"

lemma unat_min_max: "unat (min x MAXIMUM_BYTES_AS_NETWORK_BUFFER) \<le> 64000"
  by (simp add: MAXIMUM_BYTES_AS_NETWORK_BUFFER_def min_def word_le_nat_alt)

lemma sendPayloadType_inv: "sendPayloadType clk (s, q) = Inr (t, q') \<Longrightarrow> snd_inv s \<Longrightarrow> snd_inv t"
  by (auto simp: sendPayloadType_def snd_inv_def async_write_def Let_def split: sum.splits)

lemma sendPayloadBytes_inv: "sendPayloadBytes s = Inr t \<Longrightarrow> snd_inv s \<Longrightarrow> snd_inv t"
  using unat_min_max [of "bytesSize (buf s) - bufContentOffset s"]
  by (auto simp: sendPayloadBytes_def snd_inv_def async_write_def Let_def split: if_splits)

lemma on_bytes_written_inv:
  assumes "on_bytes_written len clk (s, q) = Inr (t, q')" and "snd_inv s"
  shows "snd_inv t"
proof -
  define s1 where "s1 = onPayloadBytesUploaded len (clk 0) (s\<lparr>bufContentOffset := bufContentOffset s + len\<rparr>)"
  define s2 where "s2 = s1\<lparr>bufContentOffset := 0, logger := commitLog (clk 1) (logger s1)\<rparr>"
  have s1: "snd_inv s1" and s2: "snd_inv s2"
    using assms(2) by (simp_all add: snd_inv_def s1_def s2_def onPayloadBytesUploaded_def)
  have "(case sendPayloadBytes s1 of Inl e \<Rightarrow> Inl e | Inr s \<Rightarrow> Inr (s, q)) = Inr (t, q')
      \<or> (\<exists>e q1. pop q = Inr (e, q1) \<and> (sendPayloadType clk (s2, q1) = Inr (t, q') \<or> t = s2))"
    using assms(1)
    by (auto simp: on_bytes_written_def s2_def s1_def Let_def split: if_splits sum.splits)
  then show ?thesis
    using s1 s2 by (auto split: sum.splits intro: sendPayloadBytes_inv sendPayloadType_inv)
qed

lemma complete_write_inv:
  assumes "complete_write i ec n clk (s, q) = Inr (t, q')" and "snd_inv s"
  shows "snd_inv t"
proof (cases "length (writes s) \<le> i")
  case True
  with assms show ?thesis by (simp add: complete_write_def)
next
  case False
  have "snd_inv (s\<lparr>writes := take i (writes s) @ drop (Suc i) (writes s), socketOut := o'\<rparr>)" for o'
    using assms(2) by (auto simp: snd_inv_def dest: in_set_takeD in_set_dropD)
  moreover have "snd_inv (sendPayloadBytesSize u)" if "snd_inv u" for u :: "'a payload_sender"
    using that by (auto simp: snd_inv_def sendPayloadBytesSize_def async_write_def)
  moreover have "snd_inv (onPayloadSendError c u)" if "snd_inv u" for u :: "'a payload_sender" and c
    using that by (simp add: snd_inv_def onPayloadSendError_def)
  ultimately show ?thesis
    using assms(1) False
    by (auto simp: complete_write_def Let_def split: if_splits sum.splits prod.splits write_kind.splits
        intro: on_bytes_written_inv sendPayloadBytes_inv)
qed

lemma snd_step_inv [us_inv]: "snd_step s t \<Longrightarrow> snd_inv (fst s) \<Longrightarrow> snd_inv (fst t)"
proof (induction rule: snd_step.induct)
  case (send p clk s t)
  then show ?case
    by (cases s; cases t) (auto simp: sendPayload_def Let_def split: if_splits intro: sendPayloadType_inv)
next
  case (complete i ec n clk s t)
  then show ?case by (cases s; cases t) (auto intro: complete_write_inv)
qed

lemma snd_reach_inv: "snd_step\<^sup>*\<^sup>* s t \<Longrightarrow> snd_inv (fst s) \<Longrightarrow> snd_inv (fst t)"
  by (induction rule: rtranclp_induct) (auto intro: snd_step_inv)

text \<open>In every interleaving of sends and completions, successful or not, a sender never marks itself
  as processing, so a further send always starts another chain of writes on the same socket, at once,
  beside those that are outstanding (unless the queue assertion fails); and no write takes more
  than 64000 bytes of content.\<close>

theorem sender_always_starts:
  assumes "snd_step\<^sup>*\<^sup>* (payload_sender_init m, new_queue) (s, q)"
  shows "\<not> isProcessing s
    \<and> (\<exists>t. sendPayload p clk (s, q) = Inr (t, push p q)
         \<and> (\<exists>h. writes t = writes s @ [(TypeWrite, type_bytes (ptype h))] \<and> h = hd (items (push p q))))
    \<and> (\<forall>(k, data) \<in> set (writes s). k = BytesWrite \<longrightarrow> length data \<le> 64000)"
proof -
  have inv: "snd_inv s"
    using snd_reach_inv [OF assms] by (simp add: snd_inv_def payload_sender_init_def)
  have "front (push p q) = Inr (hd (items (push p q)))"
    by (cases "items q") (simp_all add: front_Cons)
  with inv show ?thesis
    by (auto simp: snd_inv_def sendPayload_def sendPayloadType_def async_write_def Let_def)
qed

theorem sender_always_starts_witness:
  "\<exists>s q. snd_step\<^sup>*\<^sup>* (payload_sender_init (), new_queue) (s, q) \<and> length (writes s) = 1
    \<and> (\<exists>t. sendPayload \<lparr>ptype = HANDSHAKE, bytesSize = 0, bytes = []\<rparr> (\<lambda>_. 0) (s, q)
           = Inr (t, push \<lparr>ptype = HANDSHAKE, bytesSize = 0, bytes = []\<rparr> q) \<and> length (writes t) = 2)"
proof -
  let ?p = "\<lparr>ptype = HEARTBEAT, bytesSize = 0, bytes = []\<rparr> :: raw_payload"
  let ?p2 = "\<lparr>ptype = HANDSHAKE, bytesSize = 0, bytes = []\<rparr> :: raw_payload"
  have r0: "snd_step\<^sup>*\<^sup>* (payload_sender_init (), new_queue) (payload_sender_init (), new_queue)"
    by simp
  obtain s where s: "sendPayload ?p (\<lambda>_. 0) (payload_sender_init (), new_queue) = Inr (s, push ?p new_queue)"
    "length (writes s) = 1"
    using sender_always_starts [OF r0, of ?p "\<lambda>_. 0"] by (auto simp: payload_sender_init_def)
  then have r1: "snd_step\<^sup>*\<^sup>* (payload_sender_init (), new_queue) (s, push ?p new_queue)"
    by (intro r_into_rtranclp snd_step.send)
  then obtain t where "sendPayload ?p2 (\<lambda>_. 0) (s, push ?p new_queue) = Inr (t, push ?p2 (push ?p new_queue))"
    "length (writes t) = 2"
    using sender_always_starts [OF r1, of ?p2 "\<lambda>_. 0"] s(2) by auto
  with r1 s(2) show ?thesis by blast
qed

text \<open>C13: Two sends in a row, the second before the first has completed, put two writes on the socket at
  once, both of the first payload's type (so the stream is no longer a sequence of payloads). With two
  one-byte payloads whose writes then complete in order, the sender ends in the failed assertion of
  \<open>AtomicQueue::front\<close> or \<open>pop\<close> on an empty queue.\<close>

theorem sender_overlap:
  "(\<exists>s t. sendPayload p1 c1 (payload_sender_init m, new_queue) = Inr (s, push p1 new_queue)
      \<and> sendPayload p2 c2 (s, push p1 new_queue) = Inr (t, push p2 (push p1 new_queue))
      \<and> writes t = [(TypeWrite, type_bytes (ptype p1)), (TypeWrite, type_bytes (ptype p1))])
   \<and> (let hb = \<lparr>ptype = HEARTBEAT, bytesSize = 1, bytes = [7]\<rparr> :: raw_payload;
          hs = \<lparr>ptype = HANDSHAKE, bytesSize = 1, bytes = [9]\<rparr>
      in case sendPayload hb c1 (payload_sender_init (), new_queue) of
           Inl _ \<Rightarrow> False
         | Inr s \<Rightarrow> (case sendPayload hs c2 s of
               Inl _ \<Rightarrow> False
             | Inr t \<Rightarrow> snd_run 10 clk t = Inl QueueAssertion))"
proof -
  have "\<exists>s t. sendPayload p1 c1 (payload_sender_init m, new_queue) = Inr (s, push p1 new_queue)
      \<and> sendPayload p2 c2 (s, push p1 new_queue) = Inr (t, push p2 (push p1 new_queue))
      \<and> writes t = [(TypeWrite, type_bytes (ptype p1)), (TypeWrite, type_bytes (ptype p1))]"
    by (simp add: sendPayload_def sendPayloadType_def front_def push_def new_queue_def async_write_def
        payload_sender_init_def Let_def)
  then show ?thesis
    by (simp add: sendPayload_def sendPayloadType_def front_def push_def new_queue_def pop_def sender_defs
        payload_sender_init_def sendPayloadBytes_def MAXIMUM_BYTES_AS_NETWORK_BUFFER_def
        snd_run_numeral Let_def)
qed

text \<open>An error while content is written leaves the payload at the front of the queue and the offset
  where it was, so the next send writes that payload's type and full size again but only its content
  from the offset on: the peer is promised more bytes than follow before the next payload.\<close>

theorem sender_resends_from_offset:
  assumes "writes s = [(BytesWrite, d)]" and "items q = [p]" and "\<not> isProcessing s"
    and "payload_ok p" and "unat (bufContentOffset s) \<le> length (bytes p)" and "payload_ok p2"
  shows "\<exists>s1. complete_write 0 True n c0 (s, q) = Inr (s1, q)
    \<and> (\<exists>s2. sendPayload p2 c1 (s1, q) = Inr (s2, push p2 q)
      \<and> (\<exists>t q'. snd_run (send_fuel [p, p2]) clk (s2, push p2 q) = Inr (t, q') \<and> writes t = []
          \<and> socketOut t = socketOut s @ take n d @ type_bytes (ptype p) @ size_bytes (bytesSize p)
              @ drop (unat (bufContentOffset s)) (bytes p) @ wire p2))"
proof -
  define s1 where "s1 = s\<lparr>writes := [], socketOut := socketOut s @ take n d,
      logger := commitLog (c0 0) (logger s)\<rparr>"
  have e: "complete_write 0 True n c0 (s, q) = Inr (s1, q)"
    using assms(1) by (simp add: complete_write_def onPayloadSendError_def s1_def)
  have i: "items (push p2 q) = [p, p2]" using assms(2) by simp
  obtain s2 where s2: "sendPayload p2 c1 (s1, q) = Inr (s2, push p2 q)" "ready s2 (push p2 q)"
    "socketOut s2 = socketOut s1" "bufContentOffset s2 = bufContentOffset s"
    using sendPayloadType_ready [of "push p2 q" s1 c1] assms(3)
    by (auto simp: sendPayload_def s1_def Let_def)
  obtain t1 q1 where t1: "reaches (length (bytes p) + 3) clk (s2, push p2 q) (t1, q1)"
    "items q1 = [p2]" "ready t1 q1" "bufContentOffset t1 = 0"
    "socketOut t1 = socketOut s2 @ type_bytes (ptype p) @ size_bytes (bytesSize p)
        @ drop (unat (bufContentOffset s)) (bytes p)"
    using snd_payload [OF s2(2) i assms(4), of clk] assms(5) s2(4) by auto
  obtain t2 q2 where t2: "reaches (send_fuel [p2]) clk (t1, q1) (t2, q2)"
    "writes t2 = []" "socketOut t2 = socketOut t1 @ wire p2"
    using snd_all [OF t1(3,4), of clk] t1(2) assms(6) by auto
  have "reaches (send_fuel [p, p2]) clk (s2, push p2 q) (t2, q2)"
    by (rule reaches_le [OF reaches_trans [OF t1(1) t2(1)]]) (simp add: send_fuel_def)
  then have "snd_run (send_fuel [p, p2]) clk (s2, push p2 q) = Inr (t2, q2)"
    using t2(2) by (rule reaches_final) simp
  with e s2 t1(5) t2 show ?thesis by (simp add: s1_def)
qed

theorem sender_resends_from_offset_witness:
  "\<exists>t q'. (let p = \<lparr>ptype = HEARTBEAT, bytesSize = 3, bytes = [7, 8, 9]\<rparr> :: raw_payload;
       s = (payload_sender_init ())\<lparr>buf := p, bufContentOffset := 2, writes := [(BytesWrite, [9])]\<rparr>
     in \<exists>s1 s2. complete_write 0 True 0 (\<lambda>_. 0) (s, push p new_queue) = Inr (s1, push p new_queue)
        \<and> sendPayload p (\<lambda>_. 0) (s1, push p new_queue) = Inr (s2, push p (push p new_queue))
        \<and> snd_run (send_fuel [p, p]) (\<lambda>_ _. 0) (s2, push p (push p new_queue)) = Inr (t, q')
        \<and> socketOut t = type_bytes HEARTBEAT @ size_bytes 3 @ [9] @ wire p)"
proof -
  let ?p = "\<lparr>ptype = HEARTBEAT, bytesSize = 3, bytes = [7, 8, 9]\<rparr> :: raw_payload"
  let ?s = "(payload_sender_init ())\<lparr>buf := ?p, bufContentOffset := 2, writes := [(BytesWrite, [9])]\<rparr>"
  have "writes ?s = [(BytesWrite, [9])]" "items (push ?p new_queue) = [?p]" "\<not> isProcessing ?s"
    "payload_ok ?p" "unat (bufContentOffset ?s) \<le> length (bytes ?p)"
    by (simp_all add: payload_sender_init_def new_queue_def payload_ok_def)
  from sender_resends_from_offset [OF this this(4), of 0 "\<lambda>_. 0" "\<lambda>_. 0" "\<lambda>_ _. 0"]
  show ?thesis by (simp add: Let_def payload_sender_init_def) blast
qed

end
