(* ===== verification/Fnv1a.thy ===== *)
theory Fnv1a
  imports US_Prelude
begin

text \<open>
  \<open>src/core/hash_fnv1a.hpp\<close>: the 32 and 64 bit FNV-1a hashes, whose result names the asset
  files and keys the asset database. The loop counter is an \<open>int\<close> compared with an unsigned
  length, so a length of \<open>2^31\<close> or more increments \<open>INT_MAX\<close>: undefined behaviour, the
  value \<open>None\<close> here, as is reading past the data.
\<close>

definition INT_MAX :: nat where
  "INT_MAX = 2 ^ 31 - 1"

function hash_32_loop :: "byte list \<Rightarrow> nat \<Rightarrow> nat \<Rightarrow> u32 \<Rightarrow> u32 option" where
  "hash_32_loop data len i hash =
     (if i < len
      then if length data \<le> i \<or> INT_MAX \<le> i then None
           else hash_32_loop data len (Suc i) ((hash XOR ucast (data ! i)) * 0x1000193)
      else Some hash)"
  by pat_completeness auto
termination
  by (relation "measure (\<lambda>(data, len, i, hash). len - i)") auto

definition hash_32_fnv1a :: "byte list \<Rightarrow> u32 \<Rightarrow> u32 option" where
  "hash_32_fnv1a key len = hash_32_loop key (unat len) 0 0x811c9dc5"

function hash_64_loop :: "byte list \<Rightarrow> nat \<Rightarrow> nat \<Rightarrow> u64 \<Rightarrow> u64 option" where
  "hash_64_loop data len i hash =
     (if i < len
      then if length data \<le> i \<or> INT_MAX \<le> i then None
           else hash_64_loop data len (Suc i) ((hash XOR ucast (data ! i)) * 0x100000001b3)
      else Some hash)"
  by pat_completeness auto
termination
  by (relation "measure (\<lambda>(data, len, i, hash). len - i)") auto

definition hash_64_fnv1a :: "byte list \<Rightarrow> u64 \<Rightarrow> u64 option" where
  "hash_64_fnv1a key len = hash_64_loop key (unat len) 0 0xcbf29ce484222325"

declare hash_32_loop.simps [simp del] hash_64_loop.simps [simp del]

section \<open>The published FNV-1a: a fold over the octets\<close>

definition fnv1a_32 :: "u32 \<Rightarrow> byte list \<Rightarrow> u32" where
  "fnv1a_32 = foldl (\<lambda>h b. (h XOR ucast b) * 0x1000193)"

definition fnv1a_64 :: "u64 \<Rightarrow> byte list \<Rightarrow> u64" where
  "fnv1a_64 = foldl (\<lambda>h b. (h XOR ucast b) * 0x100000001b3)"

lemma fnv1a_64_simps [simp]:
  "fnv1a_64 h [] = h"
  "fnv1a_64 h (b # bs) = fnv1a_64 ((h XOR ucast b) * 0x100000001b3) bs"
  "fnv1a_64 h (xs @ ys) = fnv1a_64 (fnv1a_64 h xs) ys"
  by (simp_all add: fnv1a_64_def)

lemma fnv1a_32_simps [simp]:
  "fnv1a_32 h [] = h"
  "fnv1a_32 h (b # bs) = fnv1a_32 ((h XOR ucast b) * 0x1000193) bs"
  "fnv1a_32 h (xs @ ys) = fnv1a_32 (fnv1a_32 h xs) ys"
  by (simp_all add: fnv1a_32_def)

lemma hash_64_loop_fold:
  assumes "len \<le> length data" and "len \<le> INT_MAX"
  shows "hash_64_loop data len i h = Some (fnv1a_64 h (drop i (take len data)))"
  using assms
proof (induction data len i h rule: hash_64_loop.induct)
  case (1 data len i h)
  then show ?case
    by (subst hash_64_loop.simps) (auto simp: Cons_nth_drop_Suc [symmetric])
qed

lemma hash_32_loop_fold:
  assumes "len \<le> length data" and "len \<le> INT_MAX"
  shows "hash_32_loop data len i h = Some (fnv1a_32 h (drop i (take len data)))"
  using assms
proof (induction data len i h rule: hash_32_loop.induct)
  case (1 data len i h)
  then show ?case
    by (subst hash_32_loop.simps) (auto simp: Cons_nth_drop_Suc [symmetric])
qed

lemma hash_64_eq_fold:
  "length data \<le> INT_MAX \<Longrightarrow>
     hash_64_fnv1a data (word_of_nat (length data)) = Some (fnv1a_64 0xcbf29ce484222325 data)"
  by (simp add: hash_64_fnv1a_def hash_64_loop_fold INT_MAX_def unat_of_nat take_bit_eq_mod)

lemma hash_32_eq_fold:
  "length data \<le> INT_MAX \<Longrightarrow>
     hash_32_fnv1a data (word_of_nat (length data)) = Some (fnv1a_32 0x811c9dc5 data)"
  by (simp add: hash_32_fnv1a_def hash_32_loop_fold INT_MAX_def unat_of_nat take_bit_eq_mod)

section \<open>Both primes are odd, so every step is a bijection of the state\<close>

lemma fnv_prime_64_cancel: "(a * 0x100000001b3 = b * 0x100000001b3) = ((a::u64) = b)"
proof
  assume "a * 0x100000001b3 = b * 0x100000001b3"
  then have "a * (0x100000001b3 * 0xce965057aff6957b) = b * (0x100000001b3 * 0xce965057aff6957b)"
    by (simp only: mult.assoc [symmetric])
  moreover have "(0x100000001b3 * 0xce965057aff6957b :: u64) = 1"
    by simp
  ultimately show "a = b" by (simp only: mult_1_right)
qed simp

lemma xor_cancel_right: "(a XOR c = b XOR c) = ((a::'a::len word) = b)"
  by (metis xor.assoc xor.right_neutral xor_self_eq)

lemma xor_cancel_left: "(c XOR a = c XOR b) = ((a::'a::len word) = b)"
  by (metis xor.commute xor_cancel_right)

lemma fnv1a_64_state_inject: "(fnv1a_64 g bs = fnv1a_64 h bs) = (g = h)"
  by (induction bs arbitrary: g h) (simp_all add: fnv_prime_64_cancel xor_cancel_right)

lemma fnv1a_64_one_byte: "(fnv1a_64 h (xs @ a # ys) = fnv1a_64 h (xs @ b # ys)) = (a = b)"
  by (simp add: fnv1a_64_state_inject fnv_prime_64_cancel xor_cancel_left ucast_byte_inject)

lemma hash_64_loop_overflow:
  assumes "INT_MAX < len" and "len \<le> length data" and "i \<le> INT_MAX"
  shows "hash_64_loop data len i h = None"
  using assms
proof (induction data len i h rule: hash_64_loop.induct)
  case (1 data len i h)
  then show ?case by (subst hash_64_loop.simps) auto
qed

text \<open>C21: On data of at most \<open>INT_MAX\<close> bytes both loops compute the published FNV-1a, the fold of
  exclusive-or and multiplication over the bytes; on longer data the \<open>int\<close> counter overflows.\<close>

theorem fnv1a_is_published:
  "(length data \<le> INT_MAX \<longrightarrow>
      hash_32_fnv1a data (word_of_nat (length data)) = Some (fnv1a_32 0x811c9dc5 data)
      \<and> hash_64_fnv1a data (word_of_nat (length data)) = Some (fnv1a_64 0xcbf29ce484222325 data))
   \<and> (INT_MAX < length data \<and> length data < 2 ^ 64 \<longrightarrow>
      hash_64_fnv1a data (word_of_nat (length data)) = None)"
  by (simp add: hash_32_eq_fold hash_64_eq_fold)
     (simp add: hash_64_fnv1a_def hash_64_loop_overflow unat_of_nat take_bit_eq_mod)

text \<open>Two published test vectors.\<close>

theorem fnv1a_is_published_witness:
  "hash_32_fnv1a [0x61] 1 = Some 0xe40c292c \<and> hash_64_fnv1a [0x61] 1 = Some 0xaf63dc4c8601ec8c"
  using fnv1a_is_published [of "[0x61]"] by (simp add: INT_MAX_def)

text \<open>Data of the same length that differ in one byte never have the same 64 bit hash, so the hash
  that names an asset's file detects every single-byte change.\<close>

theorem fnv1a_detects_byte_change:
  assumes "length xs + length ys < INT_MAX" and "a \<noteq> b"
  shows "hash_64_fnv1a (xs @ a # ys) (word_of_nat (length (xs @ a # ys)))
       \<noteq> hash_64_fnv1a (xs @ b # ys) (word_of_nat (length (xs @ b # ys)))"
  using assms hash_64_eq_fold [of "xs @ a # ys"] hash_64_eq_fold [of "xs @ b # ys"]
  by (simp add: fnv1a_64_one_byte del: fnv1a_64_simps)

theorem fnv1a_detects_byte_change_witness:
  "hash_64_fnv1a [1, 2, 3] 3 \<noteq> hash_64_fnv1a [1, 7, 3] 3"
  using fnv1a_detects_byte_change [of "[1]" "[3]" 2 7] by (simp add: INT_MAX_def)

end
