(* ===== verification/NetServer.thy ===== *)
theory NetServer
  imports PayloadSender Fnv1a
begin

text \<open>
  \<open>src/network/Server\<close> and \<open>SpawnedSocket\<close>: the server accepts connections, gives each an id and a
  name, and every connection's receiver pushes into the one incoming queue. Events interleave
  freely: accepts, completions of any client's read, and the consumer taking the queue.
\<close>

section \<open>Spawned sockets\<close>

record spawned_socket =
  sName :: string
  receiver :: "unit spawned_raw_payload_ext payload_receiver"
  sender :: "unit payload_sender"
  outgoingQueue :: "raw_payload atomic_queue"

definition spawned_payload_receiver :: "int \<Rightarrow> unit spawned_raw_payload_ext payload_receiver" where
  "spawned_payload_receiver i =
     (let r = payload_receiver_init (spawned_raw_payload.fields 0)
      in r\<lparr>buf := (buf r)\<lparr>spawnId := i\<rparr>\<rparr>)"

definition spawned_socket_init :: "string \<Rightarrow> int \<Rightarrow> spawned_socket" where
  "spawned_socket_init name i =
     \<lparr>sName = name, receiver = spawned_payload_receiver i, sender = payload_sender_init (),
      outgoingQueue = new_queue\<rparr>"

definition spawned_socket_start :: "spawned_socket \<Rightarrow> spawned_socket" where
  "spawned_socket_start sock = sock\<lparr>receiver := startReceiving (receiver sock)\<rparr>"

definition sock_id :: "spawned_socket \<Rightarrow> int" where
  "sock_id sock = spawnId (buf (receiver sock))"

section \<open>The server\<close>

record server =
  server_prefix :: string
  server_port :: nat
  spawnCount :: int
  accepting :: bool
  spawnedSockets :: "spawned_socket list"
  incomingQueue :: "spawned_raw_payload atomic_queue"

text \<open>
  What ends the network thread: overflow of \<open>_spawnCount\<close> (undefined behaviour) and a
  \<open>std::length_error\<close> of a receiver's \<open>resize\<close>, which nothing catches.
\<close>

datatype server_error = SpawnCountOverflow | ReceiverThrew receive_error

definition acceptConnections :: "server \<Rightarrow> server" where
  "acceptConnections srv = srv\<lparr>accepting := True\<rparr>"

definition server_init :: "string \<Rightarrow> nat \<Rightarrow> server" where
  "server_init name port = acceptConnections
     \<lparr>server_prefix = name, server_port = port, spawnCount = 0, accepting = False, spawnedSockets = [],
      incomingQueue = new_queue\<rparr>"

definition socket_name :: "string \<Rightarrow> int \<Rightarrow> string" where
  "socket_name prefix count =
     (let sockName = prefix;
          sockName = sockName @ ''_Sock'';
          sockName = sockName @ to_string (nat count)
      in sockName)"

text \<open>The handler of \<open>async_accept\<close>: \<open>ec\<close> is its error code.\<close>

definition on_accept :: "bool \<Rightarrow> server \<Rightarrow> server_error + server" where
  "on_accept ec srv =
     (if spawnCount srv = int INT_MAX then Inl SpawnCountOverflow
      else
        let srv = srv\<lparr>spawnCount := spawnCount srv + 1, accepting := False\<rparr>;
            sockName = socket_name (server_prefix srv) (spawnCount srv);
            srv = (if ec then srv
                   else let sock_ptr = spawned_socket_init sockName (spawnCount srv)
                        in srv\<lparr>spawnedSockets := spawnedSockets srv @ [spawned_socket_start sock_ptr]\<rparr>)
        in Inr (acceptConnections srv))"

text \<open>The outstanding read of the \<open>i\<close>-th spawned socket completes.\<close>

definition on_received :: "nat \<Rightarrow> nat \<Rightarrow> bool \<Rightarrow> byte list \<Rightarrow> (nat \<Rightarrow> int) \<Rightarrow> server \<Rightarrow> server_error + server" where
  "on_received ms i ec data clk srv =
     (let sock = spawnedSockets srv ! i
      in case complete_read ms ec data clk (receiver sock, incomingQueue srv) of
           Inl e \<Rightarrow> Inl (ReceiverThrew e)
         | Inr (r, q) \<Rightarrow>
             Inr (srv\<lparr>spawnedSockets := (spawnedSockets srv)[i := sock\<lparr>receiver := r\<rparr>], incomingQueue := q\<rparr>))"

text \<open>The consumer thread takes everything queued.\<close>

definition on_collect :: "server \<Rightarrow> spawned_raw_payload list \<times> server" where
  "on_collect srv = (let (ps, q) = popIntoQueue (incomingQueue srv) in (ps, srv\<lparr>incomingQueue := q\<rparr>))"

type_synonym completion = "bool \<times> byte list \<times> (nat \<Rightarrow> int)"

datatype server_event = Accepted bool | Received nat completion | Collected

inductive server_step :: "nat \<Rightarrow> server \<Rightarrow> server_event \<Rightarrow> spawned_raw_payload list \<Rightarrow> server \<Rightarrow> bool" for ms where
  accepted: "accepting srv \<Longrightarrow> on_accept ec srv = Inr srv' \<Longrightarrow> server_step ms srv (Accepted ec) [] srv'"
| received: "i < length (spawnedSockets srv) \<Longrightarrow>
    asio_completion (receiver (spawnedSockets srv ! i)) ec data \<Longrightarrow>
    on_received ms i ec data clk srv = Inr srv' \<Longrightarrow>
    server_step ms srv (Received i (ec, data, clk)) [] srv'"
| collected: "on_collect srv = (ps, srv') \<Longrightarrow> server_step ms srv Collected ps srv'"

inductive server_trace :: "nat \<Rightarrow> server \<Rightarrow> server_event list \<Rightarrow> spawned_raw_payload list \<Rightarrow> server \<Rightarrow> bool"
  for ms srv0 where
  start: "server_trace ms srv0 [] [] srv0"
| step: "server_trace ms srv0 evs out srv \<Longrightarrow> server_step ms srv ev ps srv' \<Longrightarrow>
    server_trace ms srv0 (evs @ [ev]) (out @ ps) srv'"

section \<open>A receiver does not see what else is in the queue\<close>

lemma complete_read_frame:
  "complete_read ms ec data clk (r, q) =
     map_sum id (\<lambda>(r', q'). (r', fold push (items q') q)) (complete_read ms ec data clk (r, new_queue))"
  by (cases "pendingRead r") (auto simp: receiver_defs new_queue_def Let_def)

lemma complete_read_other_queue:
  assumes "complete_read ms ec data clk (r, q) = Inr (r', q')"
  shows "\<exists>new. q' = fold push new q \<and> (\<forall>p. complete_read ms ec data clk (r, p) = Inr (r', fold push new p))"
proof -
  obtain q0 where "complete_read ms ec data clk (r, new_queue) = Inr (r', q0)" and q': "q' = fold push (items q0) q"
    using assms by (subst (asm) complete_read_frame)
      (cases "complete_read ms ec data clk (r, new_queue)"; auto)
  then have "complete_read ms ec data clk (r, p) = Inr (r', fold push (items q0) p)" for p
    by (subst complete_read_frame) simp
  with q' show ?thesis by blast
qed

lemma spawnId_more: "raw_payload.more p = raw_payload.more p' \<Longrightarrow> spawnId p = spawnId (p' :: spawned_raw_payload)"
  by (cases p; cases p') simp

lemma fold_push_same:
  assumes "fold push new q = q \<or> (\<exists>p. fold push new q = push p q \<and> P p)"
  shows "\<forall>p \<in> set new. P p"
proof -
  have "items q @ new = items q \<or> (\<exists>p. items q @ new = items q @ [p] \<and> P p)"
    using assms by (metis aq.put_list_contents items_push)
  then show ?thesis by auto
qed

lemma received_read:
  assumes "rcv_inv r" and "asio_completion r ec data"
    and "complete_read ms ec data clk (r, q) = Inr (r', q')"
  shows "\<exists>new. q' = fold push new q \<and> (\<forall>p. complete_read ms ec data clk (r, p) = Inr (r', fold push new p))
    \<and> rcv_inv r' \<and> raw_payload.more (buf r') = raw_payload.more (buf r)
    \<and> (\<forall>p \<in> set new. payload_ok p \<and> raw_payload.more p = raw_payload.more (buf r))"
proof -
  obtain new where new: "q' = fold push new q" "\<forall>p. complete_read ms ec data clk (r, p) = Inr (r', fold push new p)"
    using complete_read_other_queue [OF assms(3)] by blast
  have inv: "rcv_inv r' \<and> raw_payload.more (buf r') = raw_payload.more (buf r)
    \<and> (q' = q \<or> (\<exists>p. q' = push p q \<and> payload_ok p \<and> raw_payload.more p = raw_payload.more (buf r)))"
    by (rule complete_read_inv [OF assms])
  then have "\<forall>p \<in> set new. payload_ok p \<and> raw_payload.more p = raw_payload.more (buf r)"
    using new(1) by (intro fold_push_same [of new q]) auto
  with new inv show ?thesis by blast
qed

section \<open>What one client alone would have queued\<close>

fun rcv_events :: "nat \<Rightarrow> completion list \<Rightarrow> 'x receiver_state \<Rightarrow> receive_error + 'x receiver_state" where
  "rcv_events ms [] s = Inr s"
| "rcv_events ms ((ec, data, clk) # cs) s =
     (case complete_read ms ec data clk s of Inl e \<Rightarrow> Inl e | Inr s' \<Rightarrow> rcv_events ms cs s')"

lemma rcv_events_snoc:
  "rcv_events ms (cs @ [(ec, data, clk)]) s =
     (case rcv_events ms cs s of Inl e \<Rightarrow> Inl e | Inr s' \<Rightarrow> complete_read ms ec data clk s')"
proof (induction cs arbitrary: s)
  case Nil
  show ?case by (simp split: sum.split)
next
  case (Cons c cs)
  then show ?case by (cases c) (simp split: sum.split)
qed

definition client_events :: "nat \<Rightarrow> server_event list \<Rightarrow> completion list" where
  "client_events i evs = List.map_filter (\<lambda>ev. case ev of Received j c \<Rightarrow> if j = i then Some c else None | _ \<Rightarrow> None) evs"

lemma client_events_simps [simp]:
  "client_events i [] = []"
  "client_events i (evs @ [Accepted ec]) = client_events i evs"
  "client_events i (evs @ [Collected]) = client_events i evs"
  "client_events i (evs @ [Received j c]) = client_events i evs @ (if j = i then [c] else [])"
  by (simp_all add: client_events_def List.map_filter_def) (metis prod_cases3)

definition started_socket :: "string \<Rightarrow> int \<Rightarrow> spawned_socket" where
  "started_socket prefix i = spawned_socket_start (spawned_socket_init (socket_name prefix i) i)"

lemma started_socket_receiver:
  "receiver (started_socket prefix i) = startReceiving (payload_receiver_init (spawned_raw_payload.fields i))"
  by (simp add: started_socket_def spawned_socket_start_def spawned_socket_init_def spawned_payload_receiver_def
      payload_receiver_init_def raw_payload_init_def spawned_raw_payload.defs)

lemma started_socket_sel [simp]:
  "sName (started_socket prefix i) = socket_name prefix i"
  "sock_id (started_socket prefix i) = i"
  "rcv_inv (receiver (started_socket prefix i))"
proof -
  show "rcv_inv (receiver (started_socket prefix i))" by (simp add: started_socket_receiver rcv_inv_started)
  show "sName (started_socket prefix i) = socket_name prefix i"
    by (simp add: started_socket_def spawned_socket_start_def spawned_socket_init_def)
  show "sock_id (started_socket prefix i) = i"
    by (simp add: sock_id_def started_socket_receiver startReceiving_def payload_receiver_init_def receivePayloadType_def
        raw_payload_init_def spawned_raw_payload.defs)
qed

text \<open>The receiver of the client with an id, run alone on some completions.\<close>

definition alone :: "nat \<Rightarrow> string \<Rightarrow> int \<Rightarrow> completion list \<Rightarrow>
    receive_error + unit spawned_raw_payload_ext receiver_state" where
  "alone ms prefix i cs = rcv_events ms cs (receiver (started_socket prefix i), new_queue)"

section \<open>The server's invariant\<close>

definition server_ids :: "string \<Rightarrow> server \<Rightarrow> bool" where
  "server_ids prefix srv \<longleftrightarrow>
     server_prefix srv = prefix \<and> 0 \<le> spawnCount srv \<and> accepting srv
     \<and> sorted_wrt (<) (map sock_id (spawnedSockets srv))
     \<and> (\<forall>s \<in> set (spawnedSockets srv). 1 \<le> sock_id s \<and> sock_id s \<le> spawnCount srv
          \<and> sName s = socket_name prefix (sock_id s) \<and> rcv_inv (receiver s))"

definition queued_ids :: "spawned_raw_payload list \<Rightarrow> server \<Rightarrow> bool" where
  "queued_ids ps srv \<longleftrightarrow> (\<forall>p \<in> set ps. payload_ok p \<and> spawnId p \<in> sock_id ` set (spawnedSockets srv))"

text \<open>Socket \<open>i\<close> is its receiver run alone, and owns the payloads of \<open>ps\<close> with its id.\<close>

definition served :: "nat \<Rightarrow> string \<Rightarrow> completion list \<Rightarrow> spawned_raw_payload list \<Rightarrow> spawned_socket \<Rightarrow> bool" where
  "served ms prefix cs ps sock \<longleftrightarrow> (\<exists>q. alone ms prefix (sock_id sock) cs = Inr (receiver sock, q)
     \<and> filter (\<lambda>p. spawnId p = sock_id sock) ps = items q)"

definition all_served :: "nat \<Rightarrow> string \<Rightarrow> server_event list \<Rightarrow> spawned_raw_payload list \<Rightarrow> server \<Rightarrow> bool" where
  "all_served ms prefix evs ps srv \<longleftrightarrow>
     (\<forall>i. if i < length (spawnedSockets srv)
          then served ms prefix (client_events i evs) ps (spawnedSockets srv ! i)
          else client_events i evs = [])"

definition server_inv :: "nat \<Rightarrow> string \<Rightarrow> server_event list \<Rightarrow> spawned_raw_payload list \<Rightarrow> server \<Rightarrow> bool" where
  "server_inv ms prefix evs out srv \<longleftrightarrow> server_ids prefix srv
     \<and> queued_ids (out @ items (incomingQueue srv)) srv
     \<and> all_served ms prefix evs (out @ items (incomingQueue srv)) srv"

lemma server_inv_init: "server_inv ms name [] [] (server_init name port)"
  by (simp add: server_inv_def server_ids_def queued_ids_def all_served_def server_init_def
      acceptConnections_def new_queue_def)

subsection \<open>Accepting\<close>

lemma on_accept_eq:
  assumes "on_accept ec srv = Inr srv'"
  shows "srv' = srv\<lparr>spawnCount := spawnCount srv + 1, accepting := True,
      spawnedSockets := spawnedSockets srv @
        (if ec then [] else [started_socket (server_prefix srv) (spawnCount srv + 1)])\<rparr>"
  using assms by (auto simp: on_accept_def acceptConnections_def started_socket_def Let_def split: if_splits)

lemma server_ids_accept:
  assumes "on_accept ec srv = Inr srv'" and "server_ids prefix srv"
  shows "server_ids prefix srv'"
proof (cases ec)
  case True
  with on_accept_eq [OF assms(1)] assms(2) show ?thesis
    by (fastforce simp: server_ids_def)
next
  case False
  define sock where "sock = started_socket prefix (spawnCount srv + 1)"
  have id: "sock_id sock = spawnCount srv + 1" "sName sock = socket_name prefix (spawnCount srv + 1)"
    "rcv_inv (receiver sock)"
    by (simp_all add: sock_def)
  have srv': "srv' = srv\<lparr>spawnCount := spawnCount srv + 1, accepting := True,
      spawnedSockets := spawnedSockets srv @ [sock]\<rparr>"
    using on_accept_eq [OF assms(1)] assms(2) False by (simp add: sock_def server_ids_def)
  have less: "\<forall>s \<in> set (spawnedSockets srv). sock_id s < sock_id sock"
    using assms(2) id by (force simp: server_ids_def)
  show ?thesis
    using assms(2) id less by (auto simp: server_ids_def srv' sorted_wrt_append dest: less_imp_le)
qed

lemma accept_new_id:
  assumes "server_inv ms prefix evs out srv"
  shows "filter (\<lambda>p. spawnId p = spawnCount srv + 1) (out @ items (incomingQueue srv)) = []"
proof -
  have queued: "queued_ids (out @ items (incomingQueue srv)) srv" and ids: "server_ids prefix srv"
    using assms unfolding server_inv_def by blast+
  have "spawnId p \<noteq> spawnCount srv + 1" if "p \<in> set (out @ items (incomingQueue srv))" for p
  proof -
    have "spawnId p \<in> sock_id ` set (spawnedSockets srv)"
      using bspec [OF queued [unfolded queued_ids_def] that] by (rule conjunct2)
    then obtain s where s: "spawnId p = sock_id s" "s \<in> set (spawnedSockets srv)" by (rule imageE)
    have "sock_id s \<le> spawnCount srv"
      using ids s(2) unfolding server_ids_def by blast
    with s(1) show ?thesis by simp
  qed
  then show ?thesis by (simp only: filter_empty_conv) blast
qed

lemma on_accept_inv:
  assumes "on_accept ec srv = Inr srv'" and inv: "server_inv ms prefix evs out srv"
  shows "server_inv ms prefix (evs @ [Accepted ec]) out srv'"
proof -
  note eq = on_accept_eq [OF assms(1)]
  have pre: "server_prefix srv = prefix" using inv by (simp add: server_inv_def server_ids_def)
  have ids: "server_ids prefix srv'"
    using server_ids_accept [OF assms(1)] inv by (simp add: server_inv_def)
  have queued: "queued_ids (out @ items (incomingQueue srv')) srv'"
    using inv by (auto simp: server_inv_def queued_ids_def eq)
  define sock where "sock = started_socket prefix (spawnCount srv + 1)"
  have fresh: "served ms prefix [] (out @ items (incomingQueue srv)) sock"
    using accept_new_id [OF inv] by (simp add: served_def alone_def sock_def new_queue_def del: filter_append)
  have all: "all_served ms prefix evs (out @ items (incomingQueue srv)) srv"
    using inv by (simp add: server_inv_def)
  have "all_served ms prefix (evs @ [Accepted ec]) (out @ items (incomingQueue srv')) srv'"
    unfolding all_served_def
  proof
    fix i
    consider "i < length (spawnedSockets srv)" | "\<not> i < length (spawnedSockets srv)" "i < length (spawnedSockets srv')"
      | "\<not> i < length (spawnedSockets srv')" by blast
    then show "if i < length (spawnedSockets srv')
        then served ms prefix (client_events i (evs @ [Accepted ec])) (out @ items (incomingQueue srv'))
               (spawnedSockets srv' ! i)
        else client_events i (evs @ [Accepted ec]) = []"
    proof cases
      case 1
      with all [unfolded all_served_def, THEN spec, of i] show ?thesis by (simp add: eq nth_append)
    next
      case 2
      with eq have "i = length (spawnedSockets srv)" "\<not> ec" by (auto split: if_splits)
      with all [unfolded all_served_def, THEN spec, of i] fresh show ?thesis
        by (simp add: eq sock_def pre)
    next
      case 3
      with eq have "\<not> i < length (spawnedSockets srv)" by simp
      with 3 all [unfolded all_served_def, THEN spec, of i] show ?thesis by simp
    qed
  qed
  with ids queued show ?thesis by (simp add: server_inv_def)
qed

subsection \<open>Receiving and collecting\<close>

lemma on_received_eq:
  assumes "on_received ms i ec data clk srv = Inr srv'"
  obtains r q where "complete_read ms ec data clk (receiver (spawnedSockets srv ! i), incomingQueue srv) = Inr (r, q)"
    and "srv' = srv\<lparr>spawnedSockets := (spawnedSockets srv)[i := (spawnedSockets srv ! i)\<lparr>receiver := r\<rparr>],
           incomingQueue := q\<rparr>"
  using assms by (auto simp: on_received_def Let_def split: sum.splits)

lemma map_list_update_same: "i < length xs \<Longrightarrow> f y = f (xs ! i) \<Longrightarrow> map f (xs[i := y]) = map f xs"
  by (metis list_update_id map_update)

lemma on_received_inv:
  assumes "on_received ms i ec data clk srv = Inr srv'" and i: "i < length (spawnedSockets srv)"
    and "asio_completion (receiver (spawnedSockets srv ! i)) ec data"
    and inv: "server_inv ms prefix evs out srv"
  shows "server_inv ms prefix (evs @ [Received i (ec, data, clk)]) out srv'"
proof -
  let ?sock = "spawnedSockets srv ! i" and ?Q = "out @ items (incomingQueue srv)"
  obtain r q where read: "complete_read ms ec data clk (receiver ?sock, incomingQueue srv) = Inr (r, q)"
    and srv': "srv' = srv\<lparr>spawnedSockets := (spawnedSockets srv)[i := ?sock\<lparr>receiver := r\<rparr>], incomingQueue := q\<rparr>"
    using on_received_eq [OF assms(1)] by blast
  have ids: "server_ids prefix srv" and queued: "queued_ids ?Q srv" and all: "all_served ms prefix evs ?Q srv"
    using inv by (simp_all add: server_inv_def)
  have mem: "?sock \<in> set (spawnedSockets srv)" using i by simp
  then have "rcv_inv (receiver ?sock)" using ids unfolding server_ids_def by blast
  from received_read [OF this assms(3) read] obtain new where new:
    "q = fold push new (incomingQueue srv)"
    "\<forall>p. complete_read ms ec data clk (receiver ?sock, p) = Inr (r, fold push new p)"
    "rcv_inv r" "raw_payload.more (buf r) = raw_payload.more (buf (receiver ?sock))"
    "\<forall>p \<in> set new. payload_ok p \<and> raw_payload.more p = raw_payload.more (buf (receiver ?sock))"
    by blast
  define sock where "sock = ?sock\<lparr>receiver := r\<rparr>"
  have id: "sock_id sock = sock_id ?sock"
    using spawnId_more [OF new(4)] by (simp add: sock_id_def sock_def)
  have new_id: "\<forall>p \<in> set new. spawnId p = sock_id ?sock"
    using new(5) spawnId_more unfolding sock_id_def by blast
  have same_ids: "map sock_id (spawnedSockets srv') = map sock_id (spawnedSockets srv)"
    using map_list_update_same [OF i, of sock_id sock] id by (simp add: srv' sock_def)
  have Q': "out @ items (incomingQueue srv') = ?Q @ new"
    by (simp add: srv' new(1) aq.put_list_contents)
  have sub: "set (spawnedSockets srv') \<subseteq> insert sock (set (spawnedSockets srv))"
    by (simp add: srv' sock_def set_update_subset_insert)
  have "1 \<le> sock_id s \<and> sock_id s \<le> spawnCount srv \<and> sName s = socket_name prefix (sock_id s) \<and> rcv_inv (receiver s)"
    if "s \<in> set (spawnedSockets srv')" for s
  proof (cases "s = sock")
    case True
    have "receiver sock = r" "sName sock = sName ?sock" by (simp_all add: sock_def)
    with True id ids mem new(3) show ?thesis unfolding server_ids_def by metis
  next
    case False
    with that sub ids show ?thesis unfolding server_ids_def by blast
  qed
  then have ids': "server_ids prefix srv'"
    using ids same_ids unfolding server_ids_def by (simp add: srv')
  have "sock_id ` set (spawnedSockets srv') = sock_id ` set (spawnedSockets srv)"
    using arg_cong [OF same_ids, of set] by simp
  with queued new_id new(5) mem have queued': "queued_ids (?Q @ new) srv'"
    unfolding queued_ids_def set_append by blast
  have len: "length (spawnedSockets srv') = length (spawnedSockets srv)" by (simp add: srv')
  have "all_served ms prefix (evs @ [Received i (ec, data, clk)]) (?Q @ new) srv'"
    unfolding all_served_def
  proof
    fix j
    have old: "if j < length (spawnedSockets srv) then served ms prefix (client_events j evs) ?Q (spawnedSockets srv ! j)
        else client_events j evs = []"
      using all unfolding all_served_def by blast
    consider "\<not> j < length (spawnedSockets srv)" | "j < length (spawnedSockets srv)" "j \<noteq> i" | "j = i" by blast
    then show "if j < length (spawnedSockets srv')
        then served ms prefix (client_events j (evs @ [Received i (ec, data, clk)])) (?Q @ new) (spawnedSockets srv' ! j)
        else client_events j (evs @ [Received i (ec, data, clk)]) = []"
    proof cases
      case 1
      with old i len show ?thesis by auto
    next
      case 2
      then have "sock_id (spawnedSockets srv ! j) \<noteq> sock_id ?sock"
        using ids i strict_sorted_iff [of "map sock_id (spawnedSockets srv)"]
        unfolding server_ids_def by (metis distinct_conv_nth length_map nth_map)
      then have "filter (\<lambda>p. spawnId p = sock_id (spawnedSockets srv ! j)) new = []"
        using new_id by (simp add: filter_empty_conv)
      moreover have "spawnedSockets srv' ! j = spawnedSockets srv ! j" using 2 by (simp add: srv')
      ultimately show ?thesis using 2 old len by (simp add: served_def)
    next
      case 3
      obtain q0 where q0: "alone ms prefix (sock_id ?sock) (client_events i evs) = Inr (receiver ?sock, q0)"
        "filter (\<lambda>p. spawnId p = sock_id ?sock) ?Q = items q0"
        using old i 3 unfolding served_def by auto
      have a: "alone ms prefix (sock_id sock) (client_events i evs @ [(ec, data, clk)]) = Inr (r, fold push new q0)"
        using q0(1) new(2) by (simp add: id alone_def rcv_events_snoc)
      have f: "filter (\<lambda>p. spawnId p = sock_id sock) (?Q @ new) = items (fold push new q0)"
        using q0(2) new_id by (simp only: id filter_append aq.put_list_contents filter_True)
      have "spawnedSockets srv' ! i = sock" "receiver sock = r" using i by (simp_all add: srv' sock_def)
      then show ?thesis using a f 3 i len unfolding served_def by (simp del: filter_append)
    qed
  qed
  with ids' queued' show ?thesis unfolding server_inv_def Q' by blast
qed

lemma on_collect_inv:
  assumes "on_collect srv = (ps, srv')" and "server_inv ms prefix evs out srv"
  shows "server_inv ms prefix (evs @ [Collected]) (out @ ps) srv'"
proof -
  have e: "srv' = srv\<lparr>incomingQueue := snd (popIntoQueue (incomingQueue srv))\<rparr>" "ps = items (incomingQueue srv)"
    using assms(1) by (auto simp: on_collect_def popIntoQueue_eq)
  have Q: "(out @ ps) @ items (incomingQueue srv') = out @ items (incomingQueue srv)"
    by (simp add: e popIntoQueue_eq)
  have "spawnedSockets srv' = spawnedSockets srv" "server_ids prefix srv' = server_ids prefix srv"
    by (simp_all add: e server_ids_def)
  with assms(2) show ?thesis
    unfolding server_inv_def Q by (simp add: queued_ids_def all_served_def)
qed

lemma server_step_inv [us_inv]:
  assumes "server_step ms srv ev ps srv'" and "server_inv ms prefix evs out srv"
  shows "server_inv ms prefix (evs @ [ev]) (out @ ps) srv'"
  using assms
  by (cases rule: server_step.cases) (auto intro: on_accept_inv on_received_inv on_collect_inv)

lemma server_trace_inv:
  "server_trace ms (server_init name port) evs out srv \<Longrightarrow> server_inv ms name evs out srv"
  by (induction rule: server_trace.induct) (auto intro: server_inv_init server_step_inv)

section \<open>What the server promises\<close>

lemma socket_name_inject:
  assumes "socket_name p i = socket_name p j" and "1 \<le> i" and "1 \<le> j"
  shows "i = j"
  using assms by (simp add: socket_name_def Let_def to_string_inject nat_eq_iff2 split: if_splits)

lemma server_names_distinct:
  assumes "server_ids prefix srv"
  shows "distinct (map sName (spawnedSockets srv))"
proof -
  have ids: "distinct (map sock_id (spawnedSockets srv))"
    using assms strict_sorted_iff [of "map sock_id (spawnedSockets srv)"] unfolding server_ids_def by blast
  have "inj_on sName (set (spawnedSockets srv))"
  proof (rule inj_onI)
    fix s t
    assume st: "s \<in> set (spawnedSockets srv)" "t \<in> set (spawnedSockets srv)" "sName s = sName t"
    then have "sock_id s = sock_id t"
      using assms socket_name_inject [of prefix "sock_id s" "sock_id t"] unfolding server_ids_def by metis
    with st ids show "s = t" by (metis distinct_map inj_onD)
  qed
  with ids show ?thesis by (metis distinct_map)
qed

text \<open>Whatever the interleaving of accepts (failing or not), reads and collections: the server numbers
  its clients in the order it accepted them, no two clients share an id or a name, every name is
  \<open><prefix>_Sock<id>\<close>, every payload in the incoming queue or handed to the consumer is well formed
  and carries the id of an accepted client, and the server is always accepting.\<close>

theorem server_identities:
  assumes "server_trace ms (server_init name port) evs out srv"
  shows "accepting srv \<and> sorted_wrt (<) (map sock_id (spawnedSockets srv))
    \<and> distinct (map sName (spawnedSockets srv))
    \<and> (\<forall>s \<in> set (spawnedSockets srv). sName s = name @ ''_Sock'' @ to_string (nat (sock_id s)))
    \<and> (\<forall>p \<in> set (out @ items (incomingQueue srv)).
         payload_ok p \<and> spawnId p \<in> sock_id ` set (spawnedSockets srv))"
proof -
  have ids: "server_ids name srv" and queued: "queued_ids (out @ items (incomingQueue srv)) srv"
    using server_trace_inv [OF assms] unfolding server_inv_def by blast+
  have "sName s = name @ ''_Sock'' @ to_string (nat (sock_id s))" if "s \<in> set (spawnedSockets srv)" for s
    using ids that unfolding server_ids_def socket_name_def Let_def append_assoc by blast
  moreover have "accepting srv" "sorted_wrt (<) (map sock_id (spawnedSockets srv))"
    using ids unfolding server_ids_def by blast+
  ultimately show ?thesis
    using server_names_distinct [OF ids] queued [unfolded queued_ids_def] by blast
qed

text \<open>Demultiplexing. Whatever the other clients do meanwhile, the payloads carrying a client's id, in
  the order the consumer gets them, are exactly those that the client's receiver would have queued
  running alone on its own read completions.\<close>

theorem server_demultiplexes:
  assumes "server_trace ms (server_init name port) evs out srv" and "i < length (spawnedSockets srv)"
  shows "\<exists>q. rcv_events ms (client_events i evs)
          (receiver (started_socket name (sock_id (spawnedSockets srv ! i))), new_queue)
        = Inr (receiver (spawnedSockets srv ! i), q)
    \<and> filter (\<lambda>p. spawnId p = sock_id (spawnedSockets srv ! i)) (out @ items (incomingQueue srv)) = items q"
proof -
  have "all_served ms name evs (out @ items (incomingQueue srv)) srv"
    using server_trace_inv [OF assms(1)] unfolding server_inv_def by blast
  then have "served ms name (client_events i evs) (out @ items (incomingQueue srv)) (spawnedSockets srv ! i)"
    using assms(2) unfolding all_served_def by metis
  then show ?thesis unfolding served_def alone_def .
qed

lemma server_trace4:
  assumes "server_step ms s0 e1 [] s1" "server_step ms s1 e2 [] s2" "server_step ms s2 e3 [] s3"
    "server_step ms s3 e4 [] s4"
  shows "server_trace ms s0 [e1, e2, e3, e4] [] s4"
proof -
  note t = server_trace.step [where out = "[]" and ps = "[]", simplified]
  have "server_trace ms s0 ([] @ [e1]) [] s1" by (rule t [OF server_trace.start assms(1)])
  then have "server_trace ms s0 (([] @ [e1]) @ [e2]) [] s2" by (rule t [OF _ assms(2)])
  then have "server_trace ms s0 ((([] @ [e1]) @ [e2]) @ [e3]) [] s3" by (rule t [OF _ assms(3)])
  then have "server_trace ms s0 (((([] @ [e1]) @ [e2]) @ [e3]) @ [e4]) [] s4" by (rule t [OF _ assms(4)])
  then show ?thesis by simp
qed

text \<open>A run that reaches two clients: one failed accept in between, one completed type read.\<close>

lemma server_run_two:
  "\<exists>srv r. server_trace 100 (server_init ''US'' 4545)
      [Accepted False, Accepted True, Accepted False, Received 1 (False, [1, 0, 0, 0], \<lambda>_. 0)] [] srv
    \<and> spawnedSockets srv = [started_socket ''US'' 1, (started_socket ''US'' 3)\<lparr>receiver := r\<rparr>]
    \<and> pendingRead r = SizeRead \<and> incomingQueue srv = new_queue"
proof -
  define s0 where "s0 = server_init ''US'' 4545"
  define s1 where "s1 = s0\<lparr>spawnCount := 1, spawnedSockets := [started_socket ''US'' 1]\<rparr>"
  define s2 where "s2 = s1\<lparr>spawnCount := 2\<rparr>"
  define s3 where "s3 = s2\<lparr>spawnCount := 3, spawnedSockets := [started_socket ''US'' 1, started_socket ''US'' 3]\<rparr>"
  define r0 where "r0 = receiver (started_socket ''US'' 3)"
  define r where "r = fst (on_type_read False [1, 0, 0, 0] (\<lambda>_. 0) (r0\<lparr>pendingRead := NoRead\<rparr>, new_queue))"
  define s4 where "s4 = s3\<lparr>spawnedSockets := [started_socket ''US'' 1, (started_socket ''US'' 3)\<lparr>receiver := r\<rparr>]\<rparr>"
  note ev = s0_def s1_def s2_def s3_def on_accept_def server_init_def acceptConnections_def started_socket_def
    Let_def INT_MAX_def
  have acc: "accepting s0" "accepting s1" "accepting s2" by (simp_all add: ev)
  have st: "server_step 100 s0 (Accepted False) [] s1" "server_step 100 s1 (Accepted True) [] s2"
    "server_step 100 s2 (Accepted False) [] s3"
    by (rule server_step.accepted; simp add: ev)+
  have r0: "pendingRead r0 = TypeRead"
    by (simp add: r0_def started_socket_def spawned_socket_start_def spawned_socket_init_def startReceiving_def
        receivePayloadType_def spawned_payload_receiver_def payload_receiver_init_def)
  have r: "complete_read 100 False [1, 0, 0, 0] (\<lambda>_. 0) (r0, new_queue) = Inr (r, new_queue)"
    "pendingRead r = SizeRead"
    using r0 by (simp_all add: receiver_defs r_def Let_def)
  have s3: "spawnedSockets s3 = [started_socket ''US'' 1, started_socket ''US'' 3]" "incomingQueue s3 = new_queue"
    by (simp_all add: s3_def s2_def s1_def s0_def server_init_def acceptConnections_def)
  have "server_step 100 s3 (Received 1 (False, [1, 0, 0, 0], \<lambda>_. 0)) [] s4"
  proof (rule server_step.received)
    show "asio_completion (receiver (spawnedSockets s3 ! 1)) False [1, 0, 0, 0]"
      using r0 by (simp add: s3 asio_completion_def requested_def r0_def [symmetric])
    show "on_received 100 1 False [1, 0, 0, 0] (\<lambda>_. 0) s3 = Inr s4"
      using r(1) by (simp add: on_received_def s3 r0_def [symmetric] s4_def s3_def s2_def s1_def s0_def
          server_init_def acceptConnections_def)
  qed (simp add: s3)
  then have "server_trace 100 s0 [Accepted False, Accepted True, Accepted False,
      Received 1 (False, [1, 0, 0, 0], \<lambda>_. 0)] [] s4"
    by (rule server_trace4 [OF st])
  moreover have "spawnedSockets s4 = [started_socket ''US'' 1, (started_socket ''US'' 3)\<lparr>receiver := r\<rparr>]"
    "incomingQueue s4 = new_queue"
    using s3(2) by (simp_all add: s4_def)
  ultimately show ?thesis using r(2) unfolding s0_def by blast
qed

theorem server_identities_witness:
  "\<exists>srv evs. server_trace 100 (server_init ''US'' 4545) evs [] srv
    \<and> length (spawnedSockets srv) = 2 \<and> distinct (map sName (spawnedSockets srv))"
proof -
  obtain srv r where srv: "server_trace 100 (server_init ''US'' 4545)
      [Accepted False, Accepted True, Accepted False, Received 1 (False, [1, 0, 0, 0], \<lambda>_. 0)] [] srv"
    "spawnedSockets srv = [started_socket ''US'' 1, (started_socket ''US'' 3)\<lparr>receiver := r\<rparr>]"
    using server_run_two by blast
  have "length (spawnedSockets srv) = 2" by (simp add: srv(2))
  with srv(1) server_identities [OF srv(1)] show ?thesis by blast
qed

theorem server_demultiplexes_witness:
  "\<exists>srv evs q. server_trace 100 (server_init ''US'' 4545) evs [] srv \<and> 1 < length (spawnedSockets srv)
    \<and> client_events 1 evs = [(False, [1, 0, 0, 0], \<lambda>_. 0)]
    \<and> rcv_events 100 (client_events 1 evs)
          (receiver (started_socket ''US'' (sock_id (spawnedSockets srv ! 1))), new_queue)
        = Inr (receiver (spawnedSockets srv ! 1), q)"
proof -
  let ?evs = "[Accepted False, Accepted True, Accepted False, Received 1 (False, [1, 0, 0, 0], \<lambda>_. 0)]"
  obtain srv r where srv: "server_trace 100 (server_init ''US'' 4545) ?evs [] srv"
    "spawnedSockets srv = [started_socket ''US'' 1, (started_socket ''US'' 3)\<lparr>receiver := r\<rparr>]"
    using server_run_two by blast
  have "1 < length (spawnedSockets srv)" by (simp add: srv(2))
  moreover have "client_events 1 ?evs = [(False, [1, 0, 0, 0], \<lambda>_. 0)]"
    using client_events_simps(4) [of 1 "[Accepted False, Accepted True, Accepted False]" 1]
      client_events_simps(2) [of 1 "[Accepted False, Accepted True]" False]
      client_events_simps(2) [of 1 "[Accepted False]" True] client_events_simps(2) [of 1 "[]" False]
    by simp
  ultimately show ?thesis using srv(1) server_demultiplexes [OF srv(1)] by blast
qed

section \<open>A connection from end to end\<close>



end
