(* ===== verification/NetClient.thy ===== *)
theory NetClient
  imports PayloadSender
begin

text \<open>
  \<open>src/network/ClientSocket\<close>, \<open>IClientImpl\<close> and \<open>asio/time_t_timer.hpp\<close>: the client's connection,
  its heartbeat timer, and the posting of payloads to the network thread. The protobuf encodings
  are the parameters \<open>serHs\<close> and \<open>serHb\<close>.
\<close>

section \<open>The timer's clock\<close>

text \<open>
  Durations are nanoseconds. The clock is \<open>std::time\<close>, whole seconds, so a wait ends by polling:
  \<open>to_wait_duration\<close> says how long to sleep before looking at the clock again.
\<close>

definition SECOND :: int where "SECOND = 10 ^ 9"
definition MILLISECOND :: int where "MILLISECOND = 10 ^ 6"

definition time_t_now :: "int \<Rightarrow> int" where
  "time_t_now t = (t div SECOND) * SECOND"

definition to_wait_duration :: "int \<Rightarrow> int" where
  "to_wait_duration d = (if d > SECOND then d - SECOND else if d > 0 then 10 * MILLISECOND else 0)"

definition to_wait_duration_until :: "int \<Rightarrow> int \<Rightarrow> int" where
  "to_wait_duration_until now t = to_wait_duration (t - time_t_now now)"

text \<open>
  The documented loop of a waitable timer: when the clock has not reached the expiry, sleep for
  \<open>to_wait_duration\<close> and look again. \<open>timer_fires expiry t\<close> is the time it is done.
\<close>

function timer_fires :: "int \<Rightarrow> int \<Rightarrow> int" where
  "timer_fires expiry t =
     (if expiry \<le> time_t_now t then t
      else timer_fires expiry (t + to_wait_duration_until t expiry))"
  by pat_completeness auto
termination
proof (relation "measure (\<lambda>(expiry, t). nat (expiry - t + SECOND))", goal_cases)
  case 1
  show ?case by simp
next
  case (2 expiry t)
  have "t - SECOND < time_t_now t"
    using div_mult_mod_eq [of t SECOND] pos_mod_bound [of SECOND t] by (simp add: time_t_now_def SECOND_def)
  moreover have "0 < to_wait_duration_until t expiry"
    using 2 by (simp add: to_wait_duration_until_def to_wait_duration_def MILLISECOND_def)
  moreover have "time_t_now t \<le> t"
    using div_mult_mod_eq [of t SECOND] pos_mod_sign [of SECOND t] by (simp add: time_t_now_def SECOND_def)
  ultimately show ?case using 2 by simp
qed

declare timer_fires.simps [simp del]

lemma time_t_now_le: "time_t_now t \<le> t"
  using div_mult_mod_eq [of t SECOND] pos_mod_sign [of SECOND t] by (simp add: time_t_now_def SECOND_def)

lemma time_t_now_gt: "t - SECOND < time_t_now t"
  using div_mult_mod_eq [of t SECOND] pos_mod_bound [of SECOND t] by (simp add: time_t_now_def SECOND_def)

lemma time_t_now_reached:
  assumes "SECOND dvd expiry"
  shows "(expiry \<le> time_t_now t) = (expiry \<le> t)"
proof -
  obtain k where k: "expiry = SECOND * k" using assms by blast
  have pos: "0 < SECOND" by (simp add: SECOND_def)
  have "(SECOND * k \<le> t) = (k \<le> t div SECOND)"
    using pos zdiv_mono1 [of "SECOND * k" t SECOND] time_t_now_le [of t]
    by (smt (verit) mult.commute mult_left_mono nonzero_mult_div_cancel_left time_t_now_def)
  then show ?thesis using pos by (simp add: k time_t_now_def mult.commute)
qed

lemma wait_step:
  assumes "SECOND dvd expiry" and "t < expiry"
  shows "t + to_wait_duration_until t expiry < expiry + 10 * MILLISECOND"
proof (cases "expiry - time_t_now t > SECOND")
  case True
  then have "t + to_wait_duration_until t expiry = t + (expiry - time_t_now t - SECOND)"
    by (simp add: to_wait_duration_until_def to_wait_duration_def)
  also have "\<dots> < expiry" using time_t_now_gt [of t] by simp
  finally show ?thesis by (simp add: MILLISECOND_def)
next
  case False
  then show ?thesis
    using assms(2) time_t_now_le [of t] by (auto simp: to_wait_duration_until_def to_wait_duration_def)
qed

lemma timer_fires_bounds:
  assumes "SECOND dvd expiry" and "t < expiry + 10 * MILLISECOND"
  shows "expiry \<le> timer_fires expiry t \<and> timer_fires expiry t < expiry + 10 * MILLISECOND"
  using assms
proof (induction expiry t rule: timer_fires.induct)
  case (1 expiry t)
  show ?case
  proof (cases "expiry \<le> t")
    case True
    then have "timer_fires expiry t = t"
      using time_t_now_reached [OF 1(2)] by (subst timer_fires.simps) simp
    with True 1 show ?thesis by simp
  next
    case False
    then have f: "\<not> expiry \<le> time_t_now t" using time_t_now_reached [OF 1(2)] by simp
    then have "timer_fires expiry t = timer_fires expiry (t + to_wait_duration_until t expiry)"
      by (subst timer_fires.simps) simp
    with 1(1) [OF f 1(2)] wait_step [OF 1(2)] False show ?thesis by simp
  qed
qed

definition HEARTBEAT_FREQUENCY :: int where
  "HEARTBEAT_FREQUENCY = 10 * SECOND"

text \<open>A heartbeat wait armed at time \<open>t\<close> always ends, more than nine and less than 10.01 seconds
  later: the one-second clock may shorten the wait, the polling lengthens it by at most 10 ms.\<close>

theorem heartbeat_period:
  "t + 9 * SECOND < timer_fires (time_t_now t + HEARTBEAT_FREQUENCY) t
   \<and> timer_fires (time_t_now t + HEARTBEAT_FREQUENCY) t < t + HEARTBEAT_FREQUENCY + 10 * MILLISECOND"
proof -
  let ?e = "time_t_now t + HEARTBEAT_FREQUENCY"
  have "SECOND dvd ?e" by (simp add: time_t_now_def HEARTBEAT_FREQUENCY_def)
  moreover have lower: "t + 9 * SECOND < ?e" using time_t_now_gt [of t] by (simp add: HEARTBEAT_FREQUENCY_def)
  moreover have "t < ?e + 10 * MILLISECOND"
    using lower by (simp add: SECOND_def MILLISECOND_def)
  ultimately show ?thesis
    using timer_fires_bounds [of ?e t] time_t_now_le [of t] by linarith
qed

section \<open>The client\<close>

definition APP_CURRENT_VERSION :: string where
  "APP_CURRENT_VERSION = ''0.0.7''"

text \<open>
  \<open>posted\<close> holds the payloads of the handlers given to \<open>asio::post\<close> that have not run yet,
  \<open>hbWaits\<close> the outstanding waits on the timer: the clock's expiry, and whether a later
  \<open>expires_after\<close> has cancelled the wait.
\<close>

record client_socket =
  cReceiver :: "unit payload_receiver"
  cIncoming :: "raw_payload atomic_queue"
  cSender :: "unit payload_sender"
  cOutgoing :: "raw_payload atomic_queue"
  connecting :: bool
  posted :: "raw_payload list"
  hbWaits :: "(int \<times> bool) list"

definition client_init :: client_socket where
  "client_init =
     \<lparr>cReceiver = payload_receiver_init (), cIncoming = new_queue, cSender = payload_sender_init (),
      cOutgoing = new_queue, connecting = True, posted = [], hbWaits = []\<rparr>"

definition asyncSendPayload :: "raw_payload \<Rightarrow> client_socket \<Rightarrow> client_socket" where
  "asyncSendPayload payload c = c\<lparr>posted := posted c @ [payload]\<rparr>"

definition initiateHandshake :: "(handshake \<Rightarrow> byte list) \<Rightarrow> string \<Rightarrow> client_socket \<Rightarrow> client_socket" where
  "initiateHandshake serHs userName c =
     (let hsIn = \<lparr>username = userName, client_version = APP_CURRENT_VERSION\<rparr>;
          payload = serialize_handshake serHs hsIn
      in asyncSendPayload payload c)"

definition sendHeartbeat :: "(heartbeat \<Rightarrow> byte list) \<Rightarrow> int \<Rightarrow> client_socket \<Rightarrow> client_socket" where
  "sendHeartbeat serHb count c =
     (let hb = \<lparr>ts = word_of_int count\<rparr>;
          payload = serialize_heartbeat serHb hb
      in asyncSendPayload payload c)"

text \<open>\<open>expires_after\<close> cancels what waits on the timer, then \<open>async_wait\<close> adds a wait.\<close>

definition heartbeating :: "int \<Rightarrow> client_socket \<Rightarrow> client_socket" where
  "heartbeating now c =
     (let c = c\<lparr>hbWaits := map (\<lambda>(e, _). (e, True)) (hbWaits c)\<rparr>
      in c\<lparr>hbWaits := hbWaits c @ [(time_t_now now + HEARTBEAT_FREQUENCY, False)]\<rparr>)"

text \<open>The handler of the \<open>i\<close>-th wait: it ignores the error code.\<close>

definition on_heartbeat :: "(heartbeat \<Rightarrow> byte list) \<Rightarrow> nat \<Rightarrow> int \<Rightarrow> int \<Rightarrow> client_socket \<Rightarrow> client_socket" where
  "on_heartbeat serHb i now count c =
     (let c = c\<lparr>hbWaits := take i (hbWaits c) @ drop (Suc i) (hbWaits c)\<rparr>;
          c = sendHeartbeat serHb count c
      in heartbeating now c)"

definition on_connect :: "bool \<Rightarrow> int \<Rightarrow> client_socket \<Rightarrow> client_socket" where
  "on_connect ec now c =
     (let c = c\<lparr>connecting := False\<rparr>
      in if ec then c
         else let c = c\<lparr>cReceiver := startReceiving (cReceiver c)\<rparr> in heartbeating now c)"

text \<open>The \<open>i\<close>-th posted handler runs.\<close>

definition run_posted :: "nat \<Rightarrow> (nat \<Rightarrow> int) \<Rightarrow> client_socket \<Rightarrow> send_error + client_socket" where
  "run_posted i clk c =
     (let payload = posted c ! i;
          c = c\<lparr>posted := take i (posted c) @ drop (Suc i) (posted c)\<rparr>
      in case sendPayload payload clk (cSender c, cOutgoing c) of
           Inl e \<Rightarrow> Inl e
         | Inr (s, q) \<Rightarrow> Inr (c\<lparr>cSender := s, cOutgoing := q\<rparr>))"

definition on_write :: "nat \<Rightarrow> bool \<Rightarrow> nat \<Rightarrow> (nat \<Rightarrow> int) \<Rightarrow> client_socket \<Rightarrow> send_error + client_socket" where
  "on_write i ec n clk c =
     (case complete_write i ec n clk (cSender c, cOutgoing c) of
        Inl e \<Rightarrow> Inl e
      | Inr (s, q) \<Rightarrow> Inr (c\<lparr>cSender := s, cOutgoing := q\<rparr>))"

inductive client_step :: "(handshake \<Rightarrow> byte list) \<Rightarrow> (heartbeat \<Rightarrow> byte list) \<Rightarrow> client_socket \<Rightarrow> client_socket \<Rightarrow> bool"
  for serHs serHb where
  connected: "connecting c \<Longrightarrow> client_step serHs serHb c (on_connect ec now c)"
| handshake: "client_step serHs serHb c (initiateHandshake serHs userName c)"
| heartbeat: "i < length (hbWaits c) \<Longrightarrow> client_step serHs serHb c (on_heartbeat serHb i now count c)"
| post: "i < length (posted c) \<Longrightarrow> run_posted i clk c = Inr c' \<Longrightarrow> client_step serHs serHb c c'"
| written: "on_write i ec n clk c = Inr c' \<Longrightarrow> client_step serHs serHb c c'"
| read_done: "asio_completion (cReceiver c) ec data \<Longrightarrow>
    complete_read ms ec data clk (cReceiver c, cIncoming c) = Inr (r, q) \<Longrightarrow>
    client_step serHs serHb c (c\<lparr>cReceiver := r, cIncoming := q\<rparr>)"
| take_received: "client_step serHs serHb c (c\<lparr>cIncoming := snd (popIntoQueue (cIncoming c))\<rparr>)"

section \<open>What the client keeps\<close>

definition wait_ok :: "client_socket \<Rightarrow> bool" where
  "wait_ok c \<longleftrightarrow> (if isProcessing (cReceiver c)
      then \<not> connecting c \<and> (\<exists>e. hbWaits c = [(e, False)])
      else hbWaits c = [] \<and> pendingRead (cReceiver c) = NoRead)"

definition sent_ok :: "client_socket \<Rightarrow> bool" where
  "sent_ok c \<longleftrightarrow> (\<forall>p \<in> set (posted c) \<union> set (items (cOutgoing c)).
     payload_ok p \<and> (ptype p = HANDSHAKE \<or> ptype p = HEARTBEAT))"

lemma sendPayload_queue: "sendPayload p clk (s, q) = Inr (t, q') \<Longrightarrow> q' = push p q"
  by (auto simp: sendPayload_def sendPayloadType_def Let_def split: if_splits sum.splits)

lemma complete_write_queue:
  "complete_write i ec n clk (s, q) = Inr (t, q') \<Longrightarrow> set (items q') \<subseteq> set (items q)"
  by (auto simp: complete_write_def on_bytes_written_def sendPayloadType_def pop_def Let_def
      split: if_splits sum.splits prod.splits write_kind.splits list.splits)

lemma complete_read_processing:
  "complete_read ms ec data clk (r, q) = Inr (r', q') \<Longrightarrow> isProcessing r' = isProcessing r"
  by (cases "pendingRead r") (auto simp: receiver_defs Let_def split: if_splits)

lemma client_init_ok: "wait_ok client_init \<and> sent_ok client_init"
  by (simp add: wait_ok_def sent_ok_def client_init_def payload_receiver_init_def new_queue_def)

lemma on_connect_wait: "connecting c \<Longrightarrow> wait_ok c \<Longrightarrow> wait_ok (on_connect ec now c)"
  by (auto simp: wait_ok_def on_connect_def heartbeating_def startReceiving_def receivePayloadType_def Let_def
      split: if_splits)

lemma on_heartbeat_wait: "i < length (hbWaits c) \<Longrightarrow> wait_ok c \<Longrightarrow> wait_ok (on_heartbeat serHb i now count c)"
  by (auto simp: wait_ok_def on_heartbeat_def heartbeating_def sendHeartbeat_def asyncSendPayload_def Let_def
      split: if_splits)

lemma client_step_wait [us_inv]: "client_step serHs serHb c c' \<Longrightarrow> wait_ok c \<Longrightarrow> wait_ok c'"
proof (induction rule: client_step.induct)
  case (read_done c ec data ms clk r q)
  then have "isProcessing (cReceiver c)"
    by (auto simp: wait_ok_def asio_completion_def split: if_splits)
  with read_done complete_read_processing [OF read_done(2)] show ?case by (simp add: wait_ok_def)
next
  case (connected c ec now)
  then show ?case by (rule on_connect_wait)
next
  case (heartbeat i c now count)
  then show ?case by (rule on_heartbeat_wait)
qed (auto simp: run_posted_def on_write_def initiateHandshake_def
      asyncSendPayload_def wait_ok_def Let_def split: sum.splits prod.splits)

text \<open>Encodings are shorter than the address space, a fact of any string.\<close>

definition encodings_fit :: "(handshake \<Rightarrow> byte list) \<Rightarrow> (heartbeat \<Rightarrow> byte list) \<Rightarrow> bool" where
  "encodings_fit serHs serHb \<longleftrightarrow> (\<forall>m. length (serHs m) < 2 ^ 64) \<and> (\<forall>m. length (serHb m) < 2 ^ 64)"

lemma handshake_payload_ok:
  "encodings_fit serHs serHb \<Longrightarrow> payload_ok (serialize_handshake serHs m) \<and> ptype (serialize_handshake serHs m) = HANDSHAKE"
  by (simp add: serialize_handshake_def encodings_fit_def marshaller_serialize_ok)

lemma heartbeat_payload_ok:
  "encodings_fit serHs serHb \<Longrightarrow> payload_ok (serialize_heartbeat serHb m) \<and> ptype (serialize_heartbeat serHb m) = HEARTBEAT"
  by (simp add: serialize_heartbeat_def encodings_fit_def marshaller_serialize_ok)

lemma client_step_sent [us_inv]:
  assumes "client_step serHs serHb c c'" and "encodings_fit serHs serHb" and "sent_ok c"
  shows "sent_ok c'"
  using assms(1,3)
proof (induction rule: client_step.induct)
  case (connected c ec now)
  then show ?case by (simp add: sent_ok_def on_connect_def heartbeating_def Let_def)
next
  case (handshake c userName)
  then show ?case
    using handshake_payload_ok [OF assms(2)] by (simp add: sent_ok_def initiateHandshake_def asyncSendPayload_def Let_def)
next
  case (heartbeat i c now count)
  then show ?case
    using heartbeat_payload_ok [OF assms(2)]
    by (simp add: sent_ok_def on_heartbeat_def heartbeating_def sendHeartbeat_def asyncSendPayload_def Let_def)
next
  case (post i c clk c')
  then obtain s q where sq: "sendPayload (posted c ! i) clk (cSender c, cOutgoing c) = Inr (s, q)"
    "c' = c\<lparr>posted := take i (posted c) @ drop (Suc i) (posted c), cSender := s, cOutgoing := q\<rparr>"
    by (auto simp: run_posted_def Let_def split: sum.splits)
  have "posted c ! i \<in> set (posted c)" using post(1) by simp
  with sq post(3) sendPayload_queue [OF sq(1)] show ?case
    by (auto simp: sent_ok_def dest: in_set_takeD in_set_dropD)
next
  case (written i ec n clk c c')
  then obtain s q where sq: "complete_write i ec n clk (cSender c, cOutgoing c) = Inr (s, q)"
    "c' = c\<lparr>cSender := s, cOutgoing := q\<rparr>"
    by (auto simp: on_write_def split: sum.splits)
  with written(2) complete_write_queue [OF sq(1)] show ?case by (auto simp: sent_ok_def)
qed (simp_all add: sent_ok_def)

lemma client_reach:
  assumes "(client_step serHs serHb)\<^sup>*\<^sup>* client_init c"
  shows "wait_ok c" and "encodings_fit serHs serHb \<Longrightarrow> sent_ok c"
  using assms
  by (induction rule: rtranclp_induct) (auto simp: client_init_ok intro: client_step_wait client_step_sent)

text \<open>C15: However connection, user, timer, posted handlers, reads and writes interleave: a connected
  client has exactly one wait outstanding on its timer, never a cancelled one, so heartbeats keep
  their period although the handler ignores the error code; before the connection, or after a failed
  one, it neither reads nor beats.\<close>

theorem client_one_heartbeat:
  assumes "(client_step serHs serHb)\<^sup>*\<^sup>* client_init c"
  shows "if isProcessing (cReceiver c) then \<not> connecting c \<and> (\<exists>e. hbWaits c = [(e, False)])
    else hbWaits c = [] \<and> pendingRead (cReceiver c) = NoRead"
  using client_reach(1) [OF assms] unfolding wait_ok_def .

theorem client_one_heartbeat_witness:
  "let c = on_connect False 5 client_init in \<exists>e. hbWaits c = [(e, False)]"
proof -
  have "(client_step (\<lambda>_. []) (\<lambda>_. []))\<^sup>*\<^sup>* client_init (on_connect False 5 client_init)"
    by (rule r_into_rtranclp, rule client_step.connected) (simp add: client_init_def)
  from client_one_heartbeat [OF this] show ?thesis
    by (simp add: on_connect_def heartbeating_def startReceiving_def client_init_def payload_receiver_init_def
        receivePayloadType_def Let_def)
qed

text \<open>C16: Every payload a client has posted or queued is well formed and a handshake or a heartbeat, as
  long as no encoding exceeds the address space.\<close>

theorem client_sends_well_formed:
  assumes "(client_step serHs serHb)\<^sup>*\<^sup>* client_init c"
    and "\<forall>m. length (serHs m) < 2 ^ 64" and "\<forall>m. length (serHb m) < 2 ^ 64"
  shows "\<forall>p \<in> set (posted c) \<union> set (items (cOutgoing c)).
     unat (bytesSize p) = length (bytes p) \<and> (ptype p = HANDSHAKE \<or> ptype p = HEARTBEAT)"
  using client_reach(2) [OF assms(1)] assms(2,3) by (simp add: encodings_fit_def sent_ok_def payload_ok_def)

theorem client_sends_well_formed_witness:
  "\<exists>c p. (client_step (\<lambda>m. [1, 2]) (\<lambda>m. [3]))\<^sup>*\<^sup>* client_init c \<and> posted c = [p] \<and> ptype p = HANDSHAKE
     \<and> unat (bytesSize p) = length (bytes p)"
proof -
  let ?c = "initiateHandshake (\<lambda>m. [1, 2]) ''Bob'' client_init"
  have "(client_step (\<lambda>m. [1, 2]) (\<lambda>m. [3]))\<^sup>*\<^sup>* client_init ?c"
    by (rule r_into_rtranclp, rule client_step.handshake)
  moreover have "posted ?c = [serialize_handshake (\<lambda>m. [1, 2]) \<lparr>username = ''Bob'', client_version = ''0.0.7''\<rparr>]"
    by (simp add: initiateHandshake_def asyncSendPayload_def client_init_def APP_CURRENT_VERSION_def Let_def)
  ultimately show ?thesis
    using client_sends_well_formed [of "\<lambda>m. [1, 2]" "\<lambda>m. [3]" ?c]
    by (intro exI [of _ ?c] exI [of _ "serialize_handshake (\<lambda>m. [1, 2]) \<lparr>username = ''Bob'', client_version = ''0.0.7''\<rparr>"])
       (simp add: serialize_handshake_def)
qed

end
