(* ===== verification/PayloadProcessor.thy ===== *)
theory PayloadProcessor
  imports AtomicQueue
begin

text \<open>
  \<open>src/network/IPayloadProcessor.cpp\<close> and the condition variable of \<open>AtomicQueue\<close>: one consumer
  thread runs \<open>processPayloadQueue\<close> while the network thread pushes. The steps are those that
  the scheduler can interleave: the locked part of \<open>push\<close>, its later \<open>notify_all\<close>, each step of
  the consumer's loop, and the spurious wake-ups the standard allows \<open>_cv.wait\<close>, which the code
  calls without a predicate and on a mutex of its own.
\<close>

section \<open>States and steps\<close>

datatype 'a thread_phase =
    AboutToWait
  | Waiting
  | Woken
  | Handling "'a list"
  | Returned

text \<open>\<open>sent\<close> and \<open>handled\<close> record every value pushed and every call of the processor.\<close>

record 'a processor_state =
  shared :: "'a atomic_queue"
  phase :: "'a thread_phase"
  toNotify :: nat
  sent :: "'a list"
  handled :: "'a list"

definition processor_init :: "'a processor_state" where
  "processor_init = \<lparr>shared = new_queue, phase = AboutToWait, toNotify = 0, sent = [], handled = []\<rparr>"

definition push_locked :: "'a \<Rightarrow> 'a processor_state \<Rightarrow> 'a processor_state" where
  "push_locked v s = s\<lparr>shared := push v (shared s), toNotify := Suc (toNotify s), sent := sent s @ [v]\<rparr>"

text \<open>\<open>notify_all\<close> wakes a thread that is waiting now, and is forgotten otherwise.\<close>

definition notify_all :: "'a processor_state \<Rightarrow> 'a processor_state" where
  "notify_all s = s\<lparr>toNotify := toNotify s - 1, phase := (if phase s = Waiting then Woken else phase s)\<rparr>"

definition waitToBeFilled :: "'a processor_state \<Rightarrow> 'a processor_state" where
  "waitToBeFilled s = s\<lparr>phase := Waiting\<rparr>"

definition processPayloadQueue :: "('a \<Rightarrow> bool) \<Rightarrow> 'a processor_state \<Rightarrow> 'a processor_state" where
  "processPayloadQueue processor s = (case phase s of
      AboutToWait \<Rightarrow> waitToBeFilled s
    | Waiting \<Rightarrow> s
    | Woken \<Rightarrow>
        let (payloads, q) = popIntoQueue (shared s)
        in s\<lparr>shared := q, phase := Handling payloads\<rparr>
    | Handling [] \<Rightarrow> s\<lparr>phase := AboutToWait\<rparr>
    | Handling (p # payloads) \<Rightarrow>
        let s = s\<lparr>handled := handled s @ [p]\<rparr>; shouldBreak = processor p
        in if shouldBreak then s\<lparr>phase := Returned\<rparr> else s\<lparr>phase := Handling payloads\<rparr>
    | Returned \<Rightarrow> s)"

datatype 'a processor_event = Enqueue 'a | Notify | Spurious | Consumer

inductive processor_step :: "('a \<Rightarrow> bool) \<Rightarrow> 'a processor_event \<Rightarrow> 'a processor_state \<Rightarrow> 'a processor_state \<Rightarrow> bool"
  for processor where
  enqueue: "processor_step processor (Enqueue v) s (push_locked v s)"
| notify: "0 < toNotify s \<Longrightarrow> processor_step processor Notify s (notify_all s)"
| spurious: "phase s = Waiting \<Longrightarrow> processor_step processor Spurious s (s\<lparr>phase := Woken\<rparr>)"
| consumer: "phase s \<noteq> Waiting \<Longrightarrow> phase s \<noteq> Returned \<Longrightarrow>
    processor_step processor Consumer s (processPayloadQueue processor s)"

inductive_simps notify_step_iff: "processor_step processor Notify s t"
inductive_simps consumer_step_iff: "processor_step processor Consumer s t"

inductive processor_reach :: "('a \<Rightarrow> bool) \<Rightarrow> 'a processor_state \<Rightarrow> bool" for processor where
  start: "processor_reach processor processor_init"
| step: "processor_reach processor s \<Longrightarrow> processor_step processor e s t \<Longrightarrow> processor_reach processor t"

section \<open>No payload is lost or handled twice before the processor breaks\<close>

fun local_payloads :: "'a thread_phase \<Rightarrow> 'a list" where
  "local_payloads (Handling ps) = ps"
| "local_payloads _ = []"

definition processor_inv :: "('a \<Rightarrow> bool) \<Rightarrow> 'a processor_state \<Rightarrow> bool" where
  "processor_inv processor s \<longleftrightarrow>
     (\<exists>lost. sent s = handled s @ local_payloads (phase s) @ lost @ items (shared s)
        \<and> (phase s \<noteq> Returned \<longrightarrow> lost = []))
     \<and> (\<forall>p \<in> set (butlast (handled s)). \<not> processor p)
     \<and> (phase s = Returned) = (handled s \<noteq> [] \<and> processor (last (handled s)))"

lemma initial_wait: "processPayloadQueue processor processor_init = waitToBeFilled processor_init"
  by (simp add: processPayloadQueue_def processor_init_def)

lemma processor_inv_init: "processor_inv processor processor_init"
  by (simp add: processor_inv_def processor_init_def new_queue_def)

lemma push_locked_inv: "processor_inv processor s \<Longrightarrow> processor_inv processor (push_locked v s)"
  by (fastforce simp: processor_inv_def push_locked_def)

lemma notify_all_inv: "processor_inv processor s \<Longrightarrow> processor_inv processor (notify_all s)"
  by (auto simp: processor_inv_def notify_all_def)

lemma spurious_inv:
  "processor_inv processor s \<Longrightarrow> phase s = Waiting \<Longrightarrow> processor_inv processor (s\<lparr>phase := Woken\<rparr>)"
  by (auto simp: processor_inv_def)

lemma processor_inv_sent:
  "processor_inv processor s \<Longrightarrow> phase s \<noteq> Returned \<Longrightarrow>
     sent s = handled s @ local_payloads (phase s) @ items (shared s)"
  unfolding processor_inv_def by (metis append_Nil)

lemma none_broke_yet:
  "\<forall>p \<in> set (butlast ps). \<not> P p \<Longrightarrow> \<not> (ps \<noteq> [] \<and> P (last ps)) \<Longrightarrow> \<forall>p \<in> set ps. \<not> P p"
  by (cases ps rule: rev_cases) auto

lemma processor_inv_none:
  "processor_inv processor s \<Longrightarrow> phase s \<noteq> Returned \<Longrightarrow> \<forall>p \<in> set (handled s). \<not> processor p"
  using none_broke_yet [of "handled s" processor] unfolding processor_inv_def by blast

lemma processPayloadQueue_inv:
  assumes "processor_inv processor s"
  shows "processor_inv processor (processPayloadQueue processor s)"
proof (cases "phase s")
  case (Handling ps)
  have sent: "sent s = handled s @ ps @ items (shared s)"
    using processor_inv_sent [OF assms] Handling by simp
  have none: "\<forall>p \<in> set (handled s). \<not> processor p"
    using processor_inv_none [OF assms] Handling by simp
  show ?thesis
  proof (cases ps)
    case Nil
    with assms Handling show ?thesis by (simp add: processor_inv_def processPayloadQueue_def)
  next
    case (Cons p ps')
    with Handling have "processPayloadQueue processor s = s\<lparr>handled := handled s @ [p],
        phase := (if processor p then Returned else Handling ps')\<rparr>"
      by (simp add: processPayloadQueue_def Let_def)
    then show ?thesis using sent none Cons by (simp add: processor_inv_def)
  qed
qed (use assms in \<open>simp_all add: processor_inv_def processPayloadQueue_def waitToBeFilled_def popIntoQueue_eq\<close>)

lemma processor_step_inv [us_inv]:
  "processor_step processor e s t \<Longrightarrow> processor_inv processor s \<Longrightarrow> processor_inv processor t"
  by (induction rule: processor_step.induct)
     (simp_all add: push_locked_inv notify_all_inv spurious_inv processPayloadQueue_inv)

lemma processor_reach_inv: "processor_reach processor s \<Longrightarrow> processor_inv processor s"
  by (induction rule: processor_reach.induct) (auto intro: processor_inv_init processor_step_inv)

lemma processor_run_reach:
  assumes "processor_reach processor s" and "phase s \<noteq> Waiting" and "phase s \<noteq> Returned"
  shows "processor_reach processor (processPayloadQueue processor s)"
  using assms by (blast intro: processor_reach.step processor_step.consumer)

lemma processor_notify_reach:
  "processor_reach processor s \<Longrightarrow> 0 < toNotify s \<Longrightarrow> processor_reach processor (notify_all s)"
  by (blast intro: processor_reach.step processor_step.notify)

lemma processor_push_reach: "processor_reach processor s \<Longrightarrow> processor_reach processor (push_locked v s)"
  by (blast intro: processor_reach.step processor_step.enqueue)

lemma processor_waits: "processor_reach processor (waitToBeFilled processor_init)"
  using processor_run_reach [OF processor_reach.start, of processor]
  by (simp add: initial_wait) (simp add: processor_init_def)

text \<open>C12: In every interleaving of pushes, notifications, spurious wake-ups and consumer steps, until
  \<open>processPayloadQueue\<close> returns: the payloads handed to the processor, those in the local queue
  and those still shared are, in this order, exactly the payloads pushed.\<close>

theorem processor_no_loss:
  assumes "processor_reach processor s" and "phase s \<noteq> Returned"
  shows "sent s = handled s @ local_payloads (phase s) @ items (shared s)
    \<and> (\<forall>p \<in> set (handled s). \<not> processor p)"
  using processor_inv_sent processor_inv_none processor_reach_inv assms by blast

theorem processor_no_loss_witness:
  "\<exists>s. processor_reach (\<lambda>n. n = (9::nat)) s \<and> phase s = Woken \<and> items (shared s) = [3]
     \<and> sent s = handled s @ [3]"
proof -
  define s0 where "s0 = waitToBeFilled (processor_init :: nat processor_state)"
  have "processor_reach (\<lambda>n. n = 9) (push_locked 3 s0)"
    unfolding s0_def by (intro processor_push_reach processor_waits)
  then have r2: "processor_reach (\<lambda>n. n = 9) (notify_all (push_locked 3 s0))" (is "processor_reach _ ?s")
    by (rule processor_notify_reach) (simp add: push_locked_def)
  have ph: "phase ?s = Woken" and it: "items (shared ?s) = [3]"
    by (simp_all add: s0_def waitToBeFilled_def processor_init_def push_locked_def notify_all_def new_queue_def)
  show ?thesis
    using processor_no_loss [OF r2] r2 ph it by (intro exI [of _ ?s]) simp
qed

text \<open>When \<open>processPayloadQueue\<close> has returned, the last payload handled is the first one on which
  the processor asked to break; what the local queue still held after it is dropped, and later
  pushes stay in the shared queue.\<close>

theorem processor_break:
  assumes "processor_reach processor s" and "phase s = Returned"
  shows "\<exists>before p lost. handled s = before @ [p] \<and> processor p \<and> (\<forall>p' \<in> set before. \<not> processor p')
    \<and> sent s = before @ [p] @ lost @ items (shared s)"
proof -
  have inv: "processor_inv processor s" using assms(1) by (rule processor_reach_inv)
  then obtain before p where h: "handled s = before @ [p]"
    using assms(2) by (cases "handled s" rule: rev_cases) (auto simp: processor_inv_def)
  with inv assms(2) show ?thesis by (auto simp: processor_inv_def)
qed

theorem processor_break_witness:
  "\<exists>s lost. processor_reach (\<lambda>n. n = (3::nat)) s \<and> phase s = Returned \<and> sent s = [3, 4]
     \<and> [3, 4] = [3] @ lost @ items (shared s) \<and> items (shared s) = []"
proof -
  let ?P = "\<lambda>n. n = (3::nat)"
  define s0 where "s0 = push_locked 4 (push_locked 3 (waitToBeFilled (processor_init :: nat processor_state)))"
  define s1 where "s1 = notify_all s0"
  define s2 where "s2 = processPayloadQueue ?P (processPayloadQueue ?P s1)"
  note ev = s0_def s1_def s2_def processor_init_def waitToBeFilled_def push_locked_def notify_all_def
    processPayloadQueue_def popIntoQueue_eq new_queue_def push_def
  have "processor_reach ?P s0"
    unfolding s0_def by (intro processor_push_reach processor_waits)
  then have r1: "processor_reach ?P s1"
    unfolding s1_def by (rule processor_notify_reach) (simp add: ev)
  have r2: "processor_reach ?P s2"
    unfolding s2_def by (intro processor_run_reach r1) (simp_all add: ev)
  have ph: "phase s2 = Returned" by (simp add: ev)
  have ss: "sent s2 = [3, 4] \<and> items (shared s2) = [] \<and> handled s2 = [3]" by (simp add: ev)
  obtain lost where "sent s2 = handled s2 @ lost @ items (shared s2)"
    using processor_break [OF r2 ph] by auto
  with ss have "sent s2 = [3, 4] \<and> [3, 4] = [3] @ lost @ items (shared s2) \<and> items (shared s2) = []"
    by metis
  with r2 ph show ?thesis by blast
qed

section \<open>A woken consumer drains the queue\<close>

lemma handle_all:
  assumes "\<forall>p \<in> set ps. \<not> processor p"
  shows "(processPayloadQueue processor ^^ Suc (length ps)) (s\<lparr>phase := Handling ps\<rparr>)
       = s\<lparr>phase := AboutToWait, handled := handled s @ ps\<rparr>"
  using assms
proof (induction ps arbitrary: s)
  case Nil
  show ?case by (simp add: processPayloadQueue_def)
next
  case (Cons p ps)
  have step: "processPayloadQueue processor (s\<lparr>phase := Handling (p # ps)\<rparr>)
      = (s\<lparr>handled := handled s @ [p]\<rparr>)\<lparr>phase := Handling ps\<rparr>"
    using Cons.prems by (simp add: processPayloadQueue_def Let_def)
  have "(processPayloadQueue processor ^^ Suc (length (p # ps))) (s\<lparr>phase := Handling (p # ps)\<rparr>)
      = (processPayloadQueue processor ^^ Suc (length ps)) ((s\<lparr>handled := handled s @ [p]\<rparr>)\<lparr>phase := Handling ps\<rparr>)"
    by (simp only: list.size(4) add_Suc_right add_0_right funpow_Suc_right [of "Suc (length ps)"] o_apply step)
  also have "\<dots> = (s\<lparr>handled := handled s @ [p]\<rparr>)\<lparr>phase := AboutToWait, handled := (handled s @ [p]) @ ps\<rparr>"
    using Cons.IH [of "s\<lparr>handled := handled s @ [p]\<rparr>"] Cons.prems by simp
  finally show ?case by simp
qed

text \<open>A woken consumer whose processor does not ask to break handles everything the shared queue
  holds, in order, in exactly \<open>length + 2\<close> steps, and is back before the wait.\<close>

theorem processor_drains:
  assumes "phase s = Woken" and "\<forall>p \<in> set (items (shared s)). \<not> processor p"
  shows "(processPayloadQueue processor ^^ (length (items (shared s)) + 2)) s
       = s\<lparr>shared := snd (popIntoQueue (shared s)), phase := AboutToWait,
            handled := handled s @ items (shared s)\<rparr>"
proof -
  have "processPayloadQueue processor s
      = s\<lparr>shared := snd (popIntoQueue (shared s)), phase := Handling (items (shared s))\<rparr>"
    using assms(1) by (simp add: processPayloadQueue_def popIntoQueue_eq)
  then show ?thesis
    using handle_all [OF assms(2), of "s\<lparr>shared := snd (popIntoQueue (shared s))\<rparr>"]
    by (simp add: funpow_Suc_right del: funpow.simps(2))
qed

theorem processor_drains_witness:
  "let s = push_locked 2 (push_locked 1 (processor_init\<lparr>phase := Woken\<rparr>)) :: nat processor_state
   in handled ((processPayloadQueue (\<lambda>n. n = 9) ^^ 4) s) = [1, 2]"
proof -
  define s :: "nat processor_state"
    where "s = push_locked 2 (push_locked 1 (processor_init\<lparr>phase := Woken\<rparr>))"
  have s: "phase s = Woken" "items (shared s) = [1, 2]" "handled s = []"
    by (simp_all add: s_def processor_init_def push_locked_def new_queue_def push_def)
  have "handled ((processPayloadQueue (\<lambda>n. n = 9) ^^ (length (items (shared s)) + 2)) s) = [1, 2]"
    by (subst processor_drains) (simp_all add: s)
  then have "handled ((processPayloadQueue (\<lambda>n. n = 9) ^^ 4) s) = [1, 2]"
    by (simp only: s(2) list.size(3,4)) (simp only: numeral_eq_Suc pred_numeral_simps BitM.simps
        add_Suc_right add_Suc add_0_right add_0_left One_nat_def)
  then show ?thesis by (simp only: Let_def s_def)
qed

section \<open>The lost wake-up\<close>

text \<open>A payload pushed and notified before the consumer reaches the wait is not seen: there is a
  reachable state with that payload in the shared queue in which no notification is outstanding and
  the consumer cannot take a step, because the wait has no predicate over the queue.\<close>

theorem processor_lost_wakeup:
  "\<exists>s. processor_reach processor s \<and> items (shared s) = [v] \<and> \<not> queue_empty (shared s)
     \<and> handled s = [] \<and> \<not> (\<exists>t. processor_step processor Consumer s t)
     \<and> \<not> (\<exists>t. processor_step processor Notify s t)"
proof -
  define s0 where "s0 = push_locked v (processor_init :: 'a processor_state)"
  define s1 where "s1 = notify_all s0"
  define s2 where "s2 = processPayloadQueue processor s1"
  note ev = s0_def s1_def s2_def processor_init_def waitToBeFilled_def push_locked_def notify_all_def
    processPayloadQueue_def new_queue_def push_def queue_empty_def
  have "processor_reach processor s0"
    unfolding s0_def by (intro processor_push_reach processor_reach.start)
  then have "processor_reach processor s1"
    unfolding s1_def by (rule processor_notify_reach) (simp add: ev)
  then have "processor_reach processor s2"
    unfolding s2_def by (rule processor_run_reach) (simp_all add: ev)
  moreover have "items (shared s2) = [v]" "\<not> queue_empty (shared s2)" "handled s2 = []"
    "phase s2 = Waiting" "toNotify s2 = 0"
    by (simp_all add: ev)
  ultimately show ?thesis
    by (intro exI [of _ s2]) (simp add: consumer_step_iff notify_step_iff)
qed

end
