(* ===== verification/Network.thy ===== *)
theory Network
  imports NetServer PayloadProcessor
begin

text \<open>
  The network layer from the clients' payloads to the consumer's handler: what reaches the processor when the
  bytes of every client arrive in any chunks, interleaved with those of the others, and any connection may
  break at any point, in the middle of a payload included.
\<close>

section \<open>A receiver in the middle of a stream\<close>

text \<open>\<open>todo\<close>: the payloads whose bytes are not all read; \<open>rest\<close>: the bytes that are not read yet.\<close>

definition mid_payload :: "'x payload_receiver \<Rightarrow> 'y raw_payload_scheme list \<Rightarrow> byte list \<Rightarrow> bool" where
  "mid_payload r todo rest = (case pendingRead r of
       NoRead \<Rightarrow> True
     | TypeRead \<Rightarrow> bufContentOffset r = 0 \<and> rest = concat (map wire todo)
     | SizeRead \<Rightarrow> bufContentOffset r = 0
         \<and> (\<exists>p ps. todo = p # ps \<and> ptype (buf r) = ptype p \<and> rest = size_bytes (bytesSize p) @ bytes p @ concat (map wire ps))
     | BytesRead \<Rightarrow> (\<exists>p ps. todo = p # ps \<and> ptype (buf r) = ptype p \<and> bytesSize (buf r) = bytesSize p
         \<and> length (bytes (buf r)) = length (bytes p) \<and> unat (bufContentOffset r) \<le> length (bytes p)
         \<and> take (unat (bufContentOffset r)) (bytes (buf r)) = take (unat (bufContentOffset r)) (bytes p)
         \<and> rest = drop (unat (bufContentOffset r)) (bytes p) @ concat (map wire ps)))"

text \<open>What a completion leaves: the rest of the stream, and the payload it finished, if it did.\<close>

definition advanced :: "'x \<Rightarrow> 'y raw_payload_scheme list \<Rightarrow> byte list \<Rightarrow> 'x raw_payload_scheme atomic_queue \<Rightarrow>
    'x receiver_state \<Rightarrow> bool" where
  "advanced m todo rest q s \<longleftrightarrow>
     (\<exists>todo'. mid_payload (fst s) todo' rest
        \<and> (todo' = todo \<and> snd s = q \<or> (\<exists>p. todo = p # todo' \<and> snd s = push (received m p) q)))"

lemma advanced_stay: "mid_payload r todo rest \<Longrightarrow> advanced m todo rest q (r, q)"
  by (auto simp: advanced_def)

lemma advanced_push: "mid_payload r todo rest \<Longrightarrow> advanced m (p # todo) rest q (r, push (received m p) q)"
  by (auto simp: advanced_def)

text \<open>The three reads. Each leaves the extra fields of the buffer alone.\<close>

definition reads_on :: "nat \<Rightarrow> byte list \<Rightarrow> (nat \<Rightarrow> int) \<Rightarrow> 'x payload_receiver \<Rightarrow> 'y raw_payload_scheme list \<Rightarrow> byte list \<Rightarrow> bool" where
  "reads_on ms data clk r todo rest \<longleftrightarrow> (\<forall>q. \<exists>s. complete_read ms False data clk (r, q) = Inr s
     \<and> advanced (raw_payload.more (buf r)) todo rest q s \<and> raw_payload.more (buf (fst s)) = raw_payload.more (buf r))"

lemma mid_type:
  assumes "pendingRead r = TypeRead" and "mid_payload r todo (data @ rest)" and "length data = 4" and "\<forall>p \<in> set todo. payload_ok p"
  shows "reads_on ms data clk r todo rest"
proof -
  have d: "bufContentOffset r = 0" "data @ rest = concat (map wire todo)" using assms(1,2) by (simp_all add: mid_payload_def)
  then obtain p ps where todo: "todo = p # ps" using assms(3) by (cases todo) auto
  have data: "data = type_bytes (ptype p)" and rest: "rest = size_bytes (bytesSize p) @ bytes p @ concat (map wire ps)"
    using d(2) assms(3) append_eq_append_conv [of data "type_bytes (ptype p)"] by (auto simp: todo wire_def)
  have "type_ok (ptype p)" using assms(4) by (simp add: todo payload_ok_def)
  then obtain l where "\<forall>q. complete_read ms False data clk (r, q) =
      Inr (r\<lparr>buf := (buf r)\<lparr>ptype := ptype p\<rparr>, logger := l, pendingRead := SizeRead\<rparr>, q)"
    using assms(1) by (simp add: receiver_defs overlay_full bytes_type_type_bytes data Let_def)
  moreover have "mid_payload (r\<lparr>buf := (buf r)\<lparr>ptype := ptype p\<rparr>, logger := l, pendingRead := SizeRead\<rparr>) todo rest"
    using d(1) by (simp add: mid_payload_def todo rest)
  ultimately show ?thesis unfolding reads_on_def by (auto intro!: advanced_stay)
qed

lemma mid_size:
  assumes "pendingRead r = SizeRead" and "mid_payload r todo (data @ rest)" and "length data = 8"
    and "\<forall>p \<in> set todo. payload_ok p \<and> length (bytes p) \<le> ms"
  shows "reads_on ms data clk r todo rest"
proof -
  obtain p ps where p: "todo = p # ps" "ptype (buf r) = ptype p" "bufContentOffset r = 0"
    "data @ rest = size_bytes (bytesSize p) @ bytes p @ concat (map wire ps)"
    using assms(1,2) by (auto simp: mid_payload_def)
  have data: "data = size_bytes (bytesSize p)" and rest: "rest = bytes p @ concat (map wire ps)"
    using p(4) assms(3) append_eq_append_conv [of data "size_bytes (bytesSize p)"] by auto
  have size: "unat (bytesSize p) = length (bytes p)" "length (bytes p) \<le> ms" using assms(4) by (auto simp: p(1) payload_ok_def)
  let ?b = "(buf r)\<lparr>bytesSize := bytesSize p, bytes := resize_bytes (length (bytes p)) (bytes (buf r))\<rparr>"
  have "\<forall>q. complete_read ms False data clk (r, q) = Inr (r\<lparr>buf := ?b, pendingRead := BytesRead\<rparr>, q)"
    using assms(1) size by (simp add: receiver_defs overlay_full data Let_def)
  moreover have "mid_payload (r\<lparr>buf := ?b, pendingRead := BytesRead\<rparr>) todo rest"
    using p size by (simp add: mid_payload_def rest)
  ultimately show ?thesis unfolding reads_on_def by (auto intro!: advanced_stay)
qed

lemma split_prefix: "data @ rest = xs @ ys \<Longrightarrow> length data \<le> length xs \<Longrightarrow> data = take (length data) xs \<and> rest = drop (length data) xs @ ys"
  by (auto simp: append_eq_append_conv2)

lemma mid_bytes:
  assumes "pendingRead r = BytesRead" and "mid_payload r todo (data @ rest)" and "length data = requested r"
    and "\<forall>p \<in> set todo. payload_ok p"
  shows "reads_on ms data clk r todo rest"
proof -
  let ?k = "unat (bufContentOffset r)"
  obtain p ps where p: "todo = p # ps" "ptype (buf r) = ptype p" "bytesSize (buf r) = bytesSize p"
    "length (bytes (buf r)) = length (bytes p)" "?k \<le> length (bytes p)" "take ?k (bytes (buf r)) = take ?k (bytes p)"
    "data @ rest = drop ?k (bytes p) @ concat (map wire ps)"
    using assms(1,2) by (auto simp: mid_payload_def)
  have size: "unat (bytesSize p) = length (bytes p)" using assms(4) by (simp add: p(1) payload_ok_def)
  have n: "length data = min (length (bytes p) - ?k) 64000"
    using assms(1,3) p(5) unat_bytesToRead [of r] by (simp add: requested_def p(3) size word_le_nat_alt)
  then have room: "?k + length data \<le> length (bytes p)" using p(5) by simp
  have data: "data = take (length data) (drop ?k (bytes p))" and rest: "rest = drop (?k + length data) (bytes p) @ concat (map wire ps)"
    using split_prefix [OF p(7)] n by (simp_all add: add.commute)
  have "?k + length data < 2 ^ 64"
    using room size unsigned_less [of "bytesSize p", where ?'a = nat] by simp
  then have off: "unat (bufContentOffset r + word_of_nat (length data)) = ?k + length data"
    by (simp add: unat_word_ariths unat_of_nat)
  have w: "take (?k + length data) (write_at ?k data (bytes (buf r))) = take (?k + length data) (bytes p)"
    "length (write_at ?k data (bytes (buf r))) = length (bytes p)"
    using take_write_at [of ?k data "bytes (buf r)"] length_write_at [of ?k data "bytes (buf r)"] room data p(4,6)
    by (simp_all add: take_add)
  show ?thesis
  proof (cases "?k + length data < length (bytes p)")
    case True
    then have more: "bufContentOffset r + word_of_nat (length data) < bytesSize p" using off size by (simp add: word_less_nat_alt)
    obtain l where "\<forall>q. complete_read ms False data clk (r, q) =
        Inr (r\<lparr>buf := (buf r)\<lparr>bytes := write_at ?k data (bytes (buf r))\<rparr>,
               bufContentOffset := bufContentOffset r + word_of_nat (length data), logger := l, pendingRead := BytesRead\<rparr>, q)"
      using assms(1) more by (simp add: receiver_defs p(3) Let_def)
    moreover have "mid_payload (r\<lparr>buf := (buf r)\<lparr>bytes := write_at ?k data (bytes (buf r))\<rparr>,
        bufContentOffset := bufContentOffset r + word_of_nat (length data), logger := l, pendingRead := BytesRead\<rparr>) todo rest"
      using p(1-3) w room by (simp add: mid_payload_def off rest)
    ultimately show ?thesis unfolding reads_on_def by (auto intro!: advanced_stay)
  next
    case False
    then have last: "\<not> bufContentOffset r + word_of_nat (length data) < bytesSize p" using off size by (simp add: word_less_nat_alt)
    have all: "write_at ?k data (bytes (buf r)) = bytes p" using w False room by simp
    have b: "(buf r)\<lparr>bytes := bytes p\<rparr> = received (raw_payload.more (buf r)) p"
      using p(2,3) by (simp add: received_def)
    define l where "l = commitLog (clk 1) (commitPayloadSpeed (word_of_nat (length data)) (clk 0) (logger r))"
    have "\<forall>q. complete_read ms False data clk (r, q) =
        Inr (r\<lparr>buf := received (raw_payload.more (buf r)) p, bufContentOffset := 0, logger := l, pendingRead := TypeRead\<rparr>,
             push (received (raw_payload.more (buf r)) p) q)"
      using assms(1) last by (simp add: receiver_defs p(3) all b [symmetric] l_def Let_def)
    moreover have "mid_payload (r\<lparr>buf := received (raw_payload.more (buf r)) p, bufContentOffset := 0, logger := l,
        pendingRead := TypeRead\<rparr>) ps rest"
      using False room by (simp add: mid_payload_def rest)
    ultimately show ?thesis unfolding reads_on_def p(1) by (auto intro!: advanced_push)
  qed
qed

section \<open>Completions of a stream\<close>

text \<open>A connection hands over the bytes of a stream in order, until it fails.\<close>

fun transports :: "byte list \<Rightarrow> completion list \<Rightarrow> bool" where
  "transports stream [] = True"
| "transports stream ((ec, data, clk) # cs) = (\<exists>rest. stream = data @ rest \<and> (ec \<or> transports rest cs))"

text \<open>Every completion is one of the read that is outstanding, and nothing throws.\<close>

fun rcv_valid :: "nat \<Rightarrow> completion list \<Rightarrow> 'x receiver_state \<Rightarrow> bool" where
  "rcv_valid ms [] s = True"
| "rcv_valid ms ((ec, data, clk) # cs) s =
     (asio_completion (fst s) ec data \<and> (case complete_read ms ec data clk s of Inl e \<Rightarrow> False | Inr s' \<Rightarrow> rcv_valid ms cs s'))"

lemma rcv_valid_snoc:
  "rcv_valid ms cs s \<Longrightarrow> rcv_events ms cs s = Inr s' \<Longrightarrow> asio_completion (fst s') ec data \<Longrightarrow>
     complete_read ms ec data clk s' = Inr s'' \<Longrightarrow> rcv_valid ms (cs @ [(ec, data, clk)]) s"
proof (induction cs arbitrary: s)
  case (Cons c cs)
  then show ?case by (cases c) (auto split: sum.splits)
qed simp

lemma failed_read:
  assumes "asio_completion r True data"
  shows "(\<exists>e. complete_read ms True data clk (r, q) = Inl e) \<or> (\<exists>r'. complete_read ms True data clk (r, q) = Inr (r', q) \<and> pendingRead r' = NoRead)"
  using assms by (cases "pendingRead r") (auto simp: asio_completion_def receiver_defs Let_def)

lemma dead_receiver: "pendingRead r = NoRead \<Longrightarrow> rcv_valid ms cs (r, q) \<Longrightarrow> cs = []"
  by (cases cs rule: list.exhaust) (auto simp: asio_completion_def)

lemma read_mid:
  assumes "mid_payload r todo (data @ rest)" and "asio_completion r False data"
    and "\<forall>p \<in> set todo. payload_ok p \<and> length (bytes p) \<le> ms"
  shows "reads_on ms data clk r todo rest"
proof -
  have l: "length data = requested r" "pendingRead r \<noteq> NoRead" and ok: "\<forall>p \<in> set todo. payload_ok p"
    using assms(2,3) by (simp_all add: asio_completion_def)
  show ?thesis
  proof (cases "pendingRead r")
    case TypeRead
    then show ?thesis using mid_type [OF _ assms(1) _ ok] l by (simp add: requested_def)
  next
    case SizeRead
    then show ?thesis using mid_size [OF _ assms(1) _ assms(3)] l by (simp add: requested_def)
  next
    case BytesRead
    then show ?thesis using mid_bytes [OF _ assms(1) l(1) ok] by simp
  qed (use l in simp)
qed

lemma stream_prefix:
  assumes "rcv_valid ms cs (r, q)" and "transports stream cs" and "mid_payload r todo stream"
    and "\<forall>p \<in> set todo. payload_ok p \<and> length (bytes p) \<le> ms" and "rcv_events ms cs (r, q) = Inr (r', q')"
  shows "\<exists>k \<le> length todo. items q' = items q @ map (received (raw_payload.more (buf r))) (take k todo)"
  using assms
proof (induction cs arbitrary: r q stream todo)
  case (Cons c cs)
  obtain ec data clk where c: "c = (ec, data, clk)" by (metis prod_cases3)
  obtain s where s: "asio_completion r ec data" "complete_read ms ec data clk (r, q) = Inr s" "rcv_valid ms cs s"
    using Cons.prems(1) by (auto simp: c split: sum.splits)
  obtain rest where rest: "stream = data @ rest" "ec \<or> transports rest cs" using Cons.prems(2) by (auto simp: c)
  show ?case
  proof (cases ec)
    case True
    then obtain r1 where r1: "s = (r1, q)" "pendingRead r1 = NoRead" using failed_read [of r data ms clk q] s by auto
    then have "cs = []" using dead_receiver s(3) by blast
    then show ?thesis using Cons.prems(5) s(2) r1 by (intro exI [of _ 0]) (simp add: c)
  next
    case False
    with rest s have "reads_on ms data clk r todo rest" using read_mid [of r todo data rest ms clk] Cons.prems(3,4) by simp
    then have a: "advanced (raw_payload.more (buf r)) todo rest q s" "raw_payload.more (buf (fst s)) = raw_payload.more (buf r)"
      using s(2) False unfolding reads_on_def by (metis Inr_inject)+
    obtain r1 q1 where s1: "s = (r1, q1)" by fastforce
    have run: "rcv_events ms cs (r1, q1) = Inr (r', q')" using Cons.prems(5) s(2) by (simp add: c s1)
    obtain todo' where t: "mid_payload r1 todo' rest" "todo' = todo \<and> q1 = q \<or> (\<exists>p. todo = p # todo' \<and> q1 = push (received (raw_payload.more (buf r)) p) q)"
      using a(1) by (auto simp: advanced_def s1)
    have "\<forall>p \<in> set todo'. payload_ok p \<and> length (bytes p) \<le> ms" using t(2) Cons.prems(4) by auto
    from Cons.IH [OF s(3) [unfolded s1] _ t(1) this run] rest False a(2)
    obtain k where "k \<le> length todo'" "items q' = items q1 @ map (received (raw_payload.more (buf r))) (take k todo')" by (auto simp: s1)
    with t(2) show ?thesis by (auto intro: exI [of _ k] exI [of _ "Suc k"])
  qed
next
  case Nil
  then show ?case by (intro exI [of _ 0]) simp
qed

section \<open>The server\<close>

lemma server_served:
  "server_inv ms prefix evs out srv \<Longrightarrow> i < length (spawnedSockets srv) \<Longrightarrow>
     served ms prefix (client_events i evs) (out @ items (incomingQueue srv)) (spawnedSockets srv ! i)"
  unfolding server_inv_def all_served_def by metis

lemma server_valid:
  "server_trace ms (server_init name port) evs out srv \<Longrightarrow> i < length (spawnedSockets srv) \<Longrightarrow>
     rcv_valid ms (client_events i evs) (receiver (started_socket name (sock_id (spawnedSockets srv ! i))), new_queue)"
proof (induction arbitrary: i rule: server_trace.induct)
  case start
  then show ?case by (simp add: server_init_def acceptConnections_def)
next
  case (step evs out srv ev ps srv')
  have inv: "server_inv ms name evs out srv" using server_trace_inv [OF step(1)] .
  show ?case
    using step(2)
  proof (cases rule: server_step.cases)
    case (accepted ec)
    show ?thesis
    proof (cases "i < length (spawnedSockets srv)")
      case True
      then show ?thesis using step.IH [OF True] on_accept_eq [OF accepted(4)] accepted by (simp add: nth_append)
    next
      case False
      then have "client_events i evs = []" using inv by (simp add: server_inv_def all_served_def)
      then show ?thesis by (simp add: accepted)
    qed
  next
    case (received j ec data clk)
    obtain r q where rq: "complete_read ms ec data clk (receiver (spawnedSockets srv ! j), incomingQueue srv) = Inr (r, q)"
      "srv' = srv\<lparr>spawnedSockets := (spawnedSockets srv)[j := (spawnedSockets srv ! j)\<lparr>receiver := r\<rparr>], incomingQueue := q\<rparr>"
      using on_received_eq [OF received(5)] by blast
    have i: "i < length (spawnedSockets srv)" using step(4) rq(2) by simp
    have ids: "sock_id (spawnedSockets srv' ! i) = sock_id (spawnedSockets srv ! i)"
    proof (cases "i = j")
      case True
      have "rcv_inv (receiver (spawnedSockets srv ! j))" using inv received(3) by (auto simp: server_inv_def server_ids_def)
      from complete_read_inv [OF this received(4) rq(1)] have "spawnId (buf r) = spawnId (buf (receiver (spawnedSockets srv ! j)))"
        using spawnId_more by blast
      then show ?thesis using True received(3) by (simp add: rq(2) sock_id_def)
    qed (simp add: rq(2))
    show ?thesis
    proof (cases "j = i")
      case True
      obtain q0 where q0: "alone ms name (sock_id (spawnedSockets srv ! i)) (client_events i evs) = Inr (receiver (spawnedSockets srv ! i), q0)"
        using server_served [OF inv i] by (auto simp: served_def)
      obtain s'' where "complete_read ms ec data clk (receiver (spawnedSockets srv ! i), q0) = Inr s''"
        using complete_read_other_queue [OF rq(1)] True by blast
      then show ?thesis
        using rcv_valid_snoc [OF step.IH [OF i] q0 [unfolded alone_def]] received True by (simp add: ids)
    next
      case False
      then show ?thesis using step.IH [OF i] received by (simp add: ids)
    qed
  next
    case collected
    then show ?thesis using step by (auto simp: on_collect_def popIntoQueue_eq)
  qed
qed

text \<open>The payloads of one client among all those that were queued.\<close>

lemma server_prefix_of_client:
  assumes "server_trace ms (server_init name port) evs out srv" and "i < length (spawnedSockets srv)"
    and "transports (concat (map wire ps)) (client_events i evs)"
    and "\<forall>p \<in> set ps. payload_ok p \<and> length (bytes p) \<le> ms"
  shows "\<exists>n \<le> length ps. filter (\<lambda>p. spawnId p = sock_id (spawnedSockets srv ! i)) (out @ items (incomingQueue srv)) =
    map (received (spawned_raw_payload.fields (sock_id (spawnedSockets srv ! i)))) (take n ps)"
proof -
  let ?id = "sock_id (spawnedSockets srv ! i)"
  let ?r = "receiver (started_socket name ?id)"
  obtain q where q: "rcv_events ms (client_events i evs) (?r, new_queue) = Inr (receiver (spawnedSockets srv ! i), q)"
    "filter (\<lambda>p. spawnId p = ?id) (out @ items (incomingQueue srv)) = items q"
    using server_served [OF server_trace_inv [OF assms(1)] assms(2)] by (auto simp: served_def alone_def)
  have "mid_payload ?r ps (concat (map wire ps))"
    using started_boundary [of "spawned_raw_payload.fields ?id"] by (simp add: started_socket_receiver at_boundary_def mid_payload_def)
  from stream_prefix [OF server_valid [OF assms(1,2)] assms(3) this assms(4) q(1)]
  show ?thesis unfolding q(2) by (simp add: started_socket_receiver aq.fresh_contents)
qed

section \<open>From the clients to the consumer\<close>

text \<open>The consumer thread takes what the server queues.\<close>

definition consumes :: "('a \<Rightarrow> bool) \<Rightarrow> 'a list \<Rightarrow> 'a processor_state \<Rightarrow> bool" where
  "consumes processor queued s \<longleftrightarrow> processor_reach processor s \<and> sent s = queued"

lemma take_of_prefix: "xs @ ys = map f (take n ps) \<Longrightarrow> n \<le> length ps \<Longrightarrow> xs = map f (take (length xs) ps) \<and> length xs \<le> n"
  by (metis append_eq_conv_conj length_append length_map length_take le_add1 min.absorb2 min.absorb1 take_map take_take)

lemma consumed_prefix:
  assumes "server_trace ms (server_init name port) evs out srv" and "i < length (spawnedSockets srv)"
    and "transports (concat (map wire ps)) (client_events i evs)"
    and "\<forall>p \<in> set ps. payload_ok p \<and> length (bytes p) \<le> ms"
    and "consumes processor (out @ items (incomingQueue srv)) s" and "client = sock_id (spawnedSockets srv ! i)"
  shows "\<exists>k n. k \<le> n \<and> n \<le> length ps
    \<and> filter (\<lambda>p. spawnId p = client) (handled s) = map (received (spawned_raw_payload.fields client)) (take k ps)
    \<and> filter (\<lambda>p. spawnId p = client) (sent s) = map (received (spawned_raw_payload.fields client)) (take n ps)"
proof -
  obtain n where n: "n \<le> length ps"
    "filter (\<lambda>p. spawnId p = client) (sent s) = map (received (spawned_raw_payload.fields client)) (take n ps)"
    using server_prefix_of_client [OF assms(1-4)] assms(5,6) by (auto simp: consumes_def)
  obtain rest where "sent s = handled s @ rest"
    using processor_reach_inv [of processor s] assms(5) by (auto simp: consumes_def processor_inv_def)
  then have "filter (\<lambda>p. spawnId p = client) (handled s) @ filter (\<lambda>p. spawnId p = client) rest =
      map (received (spawned_raw_payload.fields client)) (take n ps)" using n(2) by simp
  from take_of_prefix [OF this n(1)] n show ?thesis by blast
qed

text \<open>C2: Whatever the interleaving of accepts, reads, pushes, notifications and spurious wake-ups, with the bytes of
  every connection in any chunks and any connection failing at any point: the payloads of a client that the
  processor has handled are the first ones the client sent, and those queued so far the first ones too, each
  once, in order, bit for bit and with the id of the client; a payload the connection failed in is never seen.\<close>

theorem network_delivers:
  assumes "server_trace ms (server_init name port) evs out srv" and "i < length (spawnedSockets srv)"
    and "transports (concat (map wire ps)) (client_events i evs)"
    and "\<forall>p \<in> set ps. payload_ok p \<and> length (bytes p) \<le> ms"
    and "consumes processor (out @ items (incomingQueue srv)) s" and "client = sock_id (spawnedSockets srv ! i)"
  shows "\<exists>k n. k \<le> n \<and> n \<le> length ps
    \<and> filter (\<lambda>p. spawnId p = client) (handled s) = map (received (spawned_raw_payload.fields client)) (take k ps)
    \<and> filter (\<lambda>p. spawnId p = client) (sent s) = map (received (spawned_raw_payload.fields client)) (take n ps)"
  by (rule consumed_prefix [OF assms])

text \<open>One client, one heartbeat, in three reads; the consumer is woken and handles it.\<close>

definition a_beat :: raw_payload where
  "a_beat = \<lparr>ptype = HEARTBEAT, bytesSize = 1, bytes = [7]\<rparr>"

definition a_beat_read :: "completion list" where
  "a_beat_read = [(False, type_bytes HEARTBEAT, \<lambda>_. 0), (False, size_bytes 1, \<lambda>_. 0), (False, [7], \<lambda>_. 0)]"

lemma single_read:
  assumes "spawnedSockets srv = [sock]" and "asio_completion (receiver sock) ec data"
    and "complete_read ms ec data clk (receiver sock, incomingQueue srv) = Inr (r, q)"
  shows "server_step ms srv (Received 0 (ec, data, clk)) [] (srv\<lparr>spawnedSockets := [sock\<lparr>receiver := r\<rparr>], incomingQueue := q\<rparr>)"
  using assms by (intro server_step.received) (simp_all add: on_received_def)

lemma a_beat_reads:
  assumes "r0 = receiver (started_socket ''US'' 1)"
  shows "\<exists>r1 r2 r3. complete_read 100 False (type_bytes HEARTBEAT) (\<lambda>_. 0) (r0, new_queue) = Inr (r1, new_queue)
    \<and> complete_read 100 False (size_bytes 1) (\<lambda>_. 0) (r1, new_queue) = Inr (r2, new_queue)
    \<and> complete_read 100 False [7] (\<lambda>_. 0) (r2, new_queue) = Inr (r3, push (received (spawned_raw_payload.fields 1) a_beat) new_queue)
    \<and> asio_completion r0 False (type_bytes HEARTBEAT) \<and> asio_completion r1 False (size_bytes 1) \<and> asio_completion r2 False [7]
    \<and> raw_payload.more (buf r3) = spawned_raw_payload.fields 1"
proof -
  have r0: "pendingRead r0 = TypeRead" "bufContentOffset r0 = 0" "raw_payload.more (buf r0) = spawned_raw_payload.fields 1"
    using started_boundary [of "spawned_raw_payload.fields 1"]
    by (simp_all add: assms started_socket_receiver at_boundary_def)
  obtain r1 where r1: "complete_read 100 False (type_bytes HEARTBEAT) (\<lambda>_. 0) (r0, new_queue) = Inr (r1, new_queue)"
    "pendingRead r1 = SizeRead" "bufContentOffset r1 = 0" "ptype (buf r1) = HEARTBEAT"
    "raw_payload.more (buf r1) = spawned_raw_payload.fields 1"
    using r0 by (simp add: receiver_defs overlay_full bytes_type_type_bytes Let_def)
  obtain r2 where r2: "complete_read 100 False (size_bytes 1) (\<lambda>_. 0) (r1, new_queue) = Inr (r2, new_queue)"
    "pendingRead r2 = BytesRead" "bufContentOffset r2 = 0" "ptype (buf r2) = HEARTBEAT" "bytesSize (buf r2) = 1"
    "length (bytes (buf r2)) = 1" "raw_payload.more (buf r2) = spawned_raw_payload.fields 1"
    using r1 by (simp add: receiver_defs overlay_full Let_def)
  have w: "write_at 0 [7] (bytes (buf r2)) = [7]" using r2(6) by (simp add: write_at_def overlay_full)
  have b: "(buf r2)\<lparr>bytes := [7]\<rparr> = received (spawned_raw_payload.fields 1) a_beat"
    using r2(4,5,7) by (cases "buf r2") (simp add: received_def a_beat_def)
  obtain r3 where r3: "complete_read 100 False [7] (\<lambda>_. 0) (r2, new_queue) =
      Inr (r3, push (received (spawned_raw_payload.fields 1) a_beat) new_queue)" "raw_payload.more (buf r3) = spawned_raw_payload.fields 1"
    using r2(2,3,5) by (simp add: receiver_defs w b Let_def)
  have "requested r2 = 1" using r2 unat_bytesToRead [of r2] by (simp add: requested_def)
  then have "asio_completion r2 False [7]" using r2 by (simp add: asio_completion_def)
  moreover have "asio_completion r0 False (type_bytes HEARTBEAT)" "asio_completion r1 False (size_bytes 1)"
    using r0 r1 by (simp_all add: asio_completion_def requested_def)
  ultimately show ?thesis using r1(1) r2(1) r3 by blast
qed

lemma a_beat_run:
  "\<exists>srv. server_trace 100 (server_init ''US'' 4545) (Accepted False # map (Received 0) a_beat_read) [] srv
     \<and> map sock_id (spawnedSockets srv) = [1] \<and> items (incomingQueue srv) = [received (spawned_raw_payload.fields 1) a_beat]"
proof -
  define s0 where "s0 = server_init ''US'' 4545"
  define sock where "sock = started_socket ''US'' 1"
  obtain r1 r2 r3 where r: "complete_read 100 False (type_bytes HEARTBEAT) (\<lambda>_. 0) (receiver sock, new_queue) = Inr (r1, new_queue)"
    "complete_read 100 False (size_bytes 1) (\<lambda>_. 0) (r1, new_queue) = Inr (r2, new_queue)"
    "complete_read 100 False [7] (\<lambda>_. 0) (r2, new_queue) = Inr (r3, push (received (spawned_raw_payload.fields 1) a_beat) new_queue)"
    "asio_completion (receiver sock) False (type_bytes HEARTBEAT)" "asio_completion r1 False (size_bytes 1)" "asio_completion r2 False [7]"
    "raw_payload.more (buf r3) = spawned_raw_payload.fields 1"
    using a_beat_reads [of "receiver sock"] unfolding sock_def by blast
  define s1 where "s1 = s0\<lparr>spawnCount := 1, spawnedSockets := [sock]\<rparr>"
  have s1: "server_step 100 s0 (Accepted False) [] s1"
    by (rule server_step.accepted) (simp_all add: s0_def s1_def sock_def on_accept_def server_init_def acceptConnections_def
        started_socket_def INT_MAX_def Let_def)
  define s2 where "s2 = s1\<lparr>spawnedSockets := [sock\<lparr>receiver := r1\<rparr>], incomingQueue := new_queue\<rparr>"
  define s3 where "s3 = s2\<lparr>spawnedSockets := [(sock\<lparr>receiver := r1\<rparr>)\<lparr>receiver := r2\<rparr>], incomingQueue := new_queue\<rparr>"
  define q where "q = push (received (spawned_raw_payload.fields 1) a_beat) new_queue"
  define s4 where "s4 = s3\<lparr>spawnedSockets := [((sock\<lparr>receiver := r1\<rparr>)\<lparr>receiver := r2\<rparr>)\<lparr>receiver := r3\<rparr>], incomingQueue := q\<rparr>"
  have iq: "incomingQueue s1 = new_queue" by (simp add: s1_def s0_def server_init_def acceptConnections_def)
  have "server_step 100 s1 (Received 0 (False, type_bytes HEARTBEAT, \<lambda>_. 0)) [] s2"
    unfolding s2_def by (rule single_read) (simp_all add: s1_def r iq [unfolded s1_def])
  moreover have "server_step 100 s2 (Received 0 (False, size_bytes 1, \<lambda>_. 0)) [] s3"
    unfolding s3_def by (rule single_read) (simp_all add: s2_def r)
  moreover have "server_step 100 s3 (Received 0 (False, [7], \<lambda>_. 0)) [] s4"
    unfolding s4_def by (rule single_read) (simp_all add: s3_def r q_def)
  ultimately have "server_trace 100 s0 (Accepted False # map (Received 0) a_beat_read) [] s4"
    unfolding a_beat_read_def list.map by (rule server_trace4 [OF s1])
  moreover have "map sock_id (spawnedSockets s4) = [1]"
    using spawnId_more [of "buf r3" "\<lparr>ptype = HEARTBEAT, bytesSize = 1, bytes = [7], spawnId = 1\<rparr>"] r(7)
    by (simp add: s4_def sock_id_def spawned_raw_payload.defs)
  ultimately show ?thesis unfolding s0_def by (intro exI [of _ s4]) (simp add: s4_def q_def aq.fresh_contents items_push)
qed

lemma client_events_single: "client_events i (Accepted ec # map (Received i) cs) = cs"
proof -
  have "client_events i (map (Received i) cs) = cs"
    by (induction cs) (auto simp: client_events_def List.map_filter_simps split: prod.splits)
  then show ?thesis by (simp add: client_events_def List.map_filter_simps)
qed

lemma a_beat_consumed:
  "\<exists>s. consumes (\<lambda>_. False) [p] s \<and> handled s = [p]"
proof -
  let ?P = "\<lambda>_ :: 'a. False"
  define s1 where "s1 = notify_all (push_locked p (waitToBeFilled processor_init))"
  define s2 where "s2 = processPayloadQueue ?P (processPayloadQueue ?P s1)"
  note ev = s1_def s2_def processor_init_def waitToBeFilled_def push_locked_def notify_all_def processPayloadQueue_def popIntoQueue_eq
    new_queue_def push_def
  have "processor_reach ?P (push_locked p (waitToBeFilled processor_init))" by (intro processor_push_reach processor_waits)
  then have "processor_reach ?P s1" unfolding s1_def by (rule processor_notify_reach) (simp add: ev)
  then have "processor_reach ?P s2" unfolding s2_def by (intro processor_run_reach) (simp_all add: ev)
  moreover have "sent s2 = [p]" "handled s2 = [p]" by (simp_all add: ev)
  ultimately show ?thesis by (auto simp: consumes_def)
qed

theorem network_delivers_witness:
  "\<exists>srv s k n. server_trace 100 (server_init ''US'' 4545) (Accepted False # map (Received 0) a_beat_read) [] srv
     \<and> consumes (\<lambda>_. False) ([] @ items (incomingQueue srv)) s
     \<and> handled s = [received (spawned_raw_payload.fields 1) a_beat] \<and> k \<le> n \<and> n \<le> length [a_beat]
     \<and> filter (\<lambda>p. spawnId p = 1) (handled s) = map (received (spawned_raw_payload.fields 1)) (take k [a_beat])"
proof -
  obtain srv where srv: "server_trace 100 (server_init ''US'' 4545) (Accepted False # map (Received 0) a_beat_read) [] srv"
    "map sock_id (spawnedSockets srv) = [1]" "items (incomingQueue srv) = [received (spawned_raw_payload.fields 1) a_beat]"
    using a_beat_run by (elim exE conjE)
  obtain sock where "spawnedSockets srv = [sock]" "sock_id sock = 1" using srv(2) by (auto simp: map_eq_Cons_conv)
  then have i: "0 < length (spawnedSockets srv)" "1 = sock_id (spawnedSockets srv ! 0)" by simp_all
  have e: "client_events 0 (Accepted False # map (Received 0) a_beat_read) = a_beat_read"
    by (rule client_events_single)
  have t: "transports (concat (map wire [a_beat])) (client_events 0 (Accepted False # map (Received 0) a_beat_read))"
    unfolding e by (simp add: a_beat_read_def a_beat_def wire_def)
  have ok: "\<forall>p \<in> set [a_beat]. payload_ok p \<and> length (bytes p) \<le> 100" by (simp add: a_beat_def payload_ok_def)
  obtain s where s: "consumes (\<lambda>_. False) [received (spawned_raw_payload.fields 1) a_beat] s"
    "handled s = [received (spawned_raw_payload.fields 1) a_beat]" using a_beat_consumed [of "received (spawned_raw_payload.fields 1) a_beat"]
    by (elim exE conjE)
  have c: "consumes (\<lambda>_. False) ([] @ items (incomingQueue srv)) s" using s(1) srv(3) by simp
  obtain k n where "k \<le> n" "n \<le> length [a_beat]"
    "filter (\<lambda>p. spawnId p = 1) (handled s) = map (received (spawned_raw_payload.fields 1)) (take k [a_beat])"
    using network_delivers [OF srv(1) i(1) t ok c i(2)] by (elim exE conjE)
  with srv(1) c s(2) show ?thesis by (intro exI [of _ srv] exI [of _ s] exI [of _ k] exI [of _ n] conjI)
qed

end
