(* ===== verification/ClientServer.thy ===== *)
theory ClientServer
  imports NetClient Network "HOL-Library.Sublist"
begin

text \<open>
  A client of \<open>src/network/ClientSocket\<close> and the server of \<open>src/network/Server\<close> at the two ends of a connection:
  from the messages the client posts to the consumer of the server's queue. A client's sender writes one
  chain of buffers as long as a handler that was posted runs after the payload before it has left the queue;
  what two chains do is \<open>sender_overlap\<close> in \<open>PayloadSender\<close>.
\<close>

section \<open>One chain of writes\<close>

text \<open>The payload that is being written, after the bytes \<open>base\<close> of those before it; without an outstanding
  write a write has failed, and some of its bytes are out.\<close>

definition in_flight :: "unit payload_sender \<Rightarrow> raw_payload \<Rightarrow> byte list \<Rightarrow> bool" where
  "in_flight s p base \<longleftrightarrow>
     writes s = [] \<and> prefix (socketOut s) (base @ wire p)
   \<or> buf s = p \<and> bufContentOffset s = 0 \<and> writes s = [(TypeWrite, type_bytes (ptype p))] \<and> socketOut s = base
   \<or> buf s = p \<and> bufContentOffset s = 0 \<and> writes s = [(SizeWrite, size_bytes (bytesSize p))]
       \<and> socketOut s = base @ type_bytes (ptype p)
   \<or> buf s = p \<and> unat (bufContentOffset s) \<le> length (bytes p)
       \<and> writes s = [(BytesWrite, take 64000 (drop (unat (bufContentOffset s)) (bytes p)))]
       \<and> socketOut s = base @ type_bytes (ptype p) @ size_bytes (bytesSize p) @ take (unat (bufContentOffset s)) (bytes p)"

text \<open>A sender that was given \<open>ps\<close>, one at a time.\<close>

definition serial_sender :: "unit payload_sender \<Rightarrow> raw_payload atomic_queue \<Rightarrow> raw_payload list \<Rightarrow> bool" where
  "serial_sender s q ps \<longleftrightarrow> \<not> isProcessing s \<and> (\<forall>p \<in> set ps. payload_ok p)
     \<and> (items q = [] \<and> writes s = [] \<and> bufContentOffset s = 0 \<and> socketOut s = concat (map wire ps)
        \<or> (\<exists>done p. ps = done @ [p] \<and> items q = [p] \<and> in_flight s p (concat (map wire done))))"

lemma serial_init: "serial_sender (payload_sender_init ()) new_queue []"
  by (simp add: serial_sender_def payload_sender_init_def new_queue_def)

lemma serial_post:
  assumes "serial_sender s q ps" and "items q = []" and "payload_ok p" and "sendPayload p clk (s, q) = Inr (t, q')"
  shows "serial_sender t q' (ps @ [p])"
proof -
  have f: "front (push p q) = Inr p" "items (push p q) = [p]" using assms(2) front_Cons [of "push p q" p "[]"] by simp_all
  have s: "\<not> isProcessing s" "writes s = []" "bufContentOffset s = 0" "socketOut s = concat (map wire ps)" "\<forall>p \<in> set ps. payload_ok p"
    using assms(1,2) by (auto simp: serial_sender_def)
  have t: "buf t = p" "writes t = [(TypeWrite, type_bytes (ptype p))]" "bufContentOffset t = 0" "socketOut t = socketOut s"
    "\<not> isProcessing t" "q' = push p q"
    using assms(4) f(1) s(1-3) by (auto simp: sendPayload_def sendPayloadType_def async_write_def Let_def)
  then have "in_flight t p (concat (map wire ps))" using s(4) by (simp add: in_flight_def)
  with t f(2) s(5) assms(3) show ?thesis by (simp add: serial_sender_def)
qed

lemma in_flight_prefix: "in_flight s p base \<Longrightarrow> prefix (socketOut s) (base @ wire p)"
  by (auto simp: in_flight_def wire_def take_is_prefix)

lemma serial_prefix: "serial_sender s q ps \<Longrightarrow> prefix (socketOut s) (concat (map wire ps))"
  using in_flight_prefix by (auto simp: serial_sender_def)

text \<open>A failed write has put some of its bytes on the socket, and ends the chain.\<close>

lemma in_flight_fails:
  assumes "in_flight s p base" and "writes s = [(k, d)]"
  shows "prefix (socketOut s @ take n d) (base @ wire p)"
proof -
  let ?k = "unat (bufContentOffset s)"
  have content: "prefix (take ?k (bytes p) @ take 64000 (drop ?k (bytes p))) (bytes p)"
    using take_is_prefix [of "?k + 64000" "bytes p"] by (simp only: take_add)
  from assms consider "socketOut s = base" "d = type_bytes (ptype p)"
    | "socketOut s = base @ type_bytes (ptype p)" "d = size_bytes (bytesSize p)"
    | "socketOut s = base @ type_bytes (ptype p) @ size_bytes (bytesSize p) @ take ?k (bytes p)" "d = take 64000 (drop ?k (bytes p))"
    unfolding in_flight_def by (elim disjE conjE) simp_all
  then have "prefix (socketOut s @ d) (base @ wire p)"
    by cases (use content in \<open>simp_all add: wire_def\<close>)
  then show ?thesis
    by (metis append_assoc append_take_drop_id prefixI prefix_order.order_trans)
qed

text \<open>The last write of the content done, and one that is not.\<close>

lemma content_written:
  fixes s :: "unit payload_sender"
  assumes "buf s = p" and "payload_ok p" and "unat (bufContentOffset s) \<le> length (bytes p)"
    and "d = take 64000 (drop (unat (bufContentOffset s)) (bytes p))" and "\<not> isProcessing s" and "items q = [p]"
    and "writes s = []" and "socketOut s = base @ type_bytes (ptype p) @ size_bytes (bytesSize p) @ take (unat (bufContentOffset s)) (bytes p) @ d"
    and "on_bytes_written (word_of_nat (length d)) clk (s, q) = Inr (t, q')"
  shows "\<not> isProcessing t \<and> (items q' = [] \<and> writes t = [] \<and> bufContentOffset t = 0 \<and> socketOut t = base @ wire p
    \<or> items q' = [p] \<and> in_flight t p base)"
proof -
  let ?k = "unat (bufContentOffset s)"
  have size: "unat (bytesSize p) = length (bytes p)" using assms(2) by (simp add: payload_ok_def)
  have d: "length d \<le> length (bytes p) - ?k" by (simp add: assms(4))
  have "length (bytes p) < 2 ^ 64" using size unsigned_less [of "bytesSize p", where ?'a = nat] by simp
  then have off: "unat (bufContentOffset s + word_of_nat (length d)) = ?k + length d"
    using d assms(3) by (simp add: unat_word_ariths unat_of_nat)
  have "take (length d) (drop ?k (bytes p)) = d" by (simp add: assms(4) min_def)
  then have out: "take ?k (bytes p) @ d = take (?k + length d) (bytes p)" by (simp add: take_add)
  show ?thesis
  proof (cases "?k + length d < length (bytes p)")
    case True
    then have lt: "bufContentOffset s + word_of_nat (length d) < bytesSize p"
      using off size by (simp add: word_less_nat_alt)
    have "t = async_write BytesWrite (take 64000 (drop (?k + length d) (bytes p)))
          (onPayloadBytesUploaded (word_of_nat (length d)) (clk 0) (s\<lparr>bufContentOffset := bufContentOffset s + word_of_nat (length d)\<rparr>))
        \<and> q' = q"
      using assms(1,2,9) lt True off
      by (auto simp: on_bytes_written_def Let_def sendPayloadBytes_ok onPayloadBytesUploaded_def)
    then show ?thesis
      using assms(1,5-8) True off out
      by (simp add: in_flight_def async_write_def onPayloadBytesUploaded_def)
  next
    case False
    then have ge: "\<not> bufContentOffset s + word_of_nat (length d) < bytesSize p"
      and all: "take (?k + length d) (bytes p) = bytes p"
      using off size by (simp_all add: word_less_nat_alt)
    have "socketOut s = base @ wire p" using assms(8) out all by (simp add: wire_def)
    then show ?thesis
      using assms(1,5,6,7,9) ge pop_Cons [of q p "[]"]
      by (auto simp: on_bytes_written_def Let_def onPayloadBytesUploaded_def)
  qed
qed

lemma serial_write:
  assumes "serial_sender s q ps" and "complete_write i ec n clk (s, q) = Inr (t, q')"
  shows "serial_sender t q' ps"
proof (cases "length (writes s) \<le> i")
  case True
  with assms show ?thesis by (simp add: complete_write_def)
next
  case False
  then obtain ds p where ps: "ps = ds @ [p]" "items q = [p]" "in_flight s p (concat (map wire ds))"
    and ok: "\<not> isProcessing s" "\<forall>p \<in> set ps. payload_ok p"
    using assms(1) by (auto simp: serial_sender_def)
  let ?base = "concat (map wire ds)"
  have "payload_ok p" using ok(2) ps(1) by simp
  obtain k d where w: "writes s = [(k, d)]" using ps(3) False by (auto simp: in_flight_def)
  with False have i: "i = 0" by simp
  let ?s = "s\<lparr>writes := [], socketOut := socketOut s @ d\<rparr>"
  have "\<not> isProcessing t \<and> (items q' = [] \<and> writes t = [] \<and> bufContentOffset t = 0 \<and> socketOut t = ?base @ wire p
      \<or> items q' = [p] \<and> in_flight t p ?base)"
  proof (cases ec)
    case True
    then have "t = onPayloadSendError (clk 0) (s\<lparr>writes := [], socketOut := socketOut s @ take n d\<rparr>)" "q' = q"
      using assms(2) w i by (auto simp: complete_write_def Let_def)
    then show ?thesis using in_flight_fails [OF ps(3) w] ok(1) ps(2) by (simp add: in_flight_def onPayloadSendError_def)
  next
    case False
    show ?thesis
    proof (cases k)
      case TypeWrite
      then have "t = sendPayloadBytesSize ?s" "q' = q" using assms(2) w i False by (auto simp: complete_write_def Let_def)
      then show ?thesis
        using ps(2,3) w TypeWrite ok(1) by (auto simp: in_flight_def sendPayloadBytesSize_def async_write_def)
    next
      case SizeWrite
      then have s: "buf s = p" "bufContentOffset s = 0" "d = size_bytes (bytesSize p)" "socketOut s = ?base @ type_bytes (ptype p)"
        using ps(3) w by (auto simp: in_flight_def)
      then have "sendPayloadBytes ?s = Inr (async_write BytesWrite (take 64000 (bytes p)) ?s)"
        using \<open>payload_ok p\<close> by (subst sendPayloadBytes_ok) simp_all
      then have "t = async_write BytesWrite (take 64000 (bytes p)) ?s" "q' = q"
        using assms(2) w i False SizeWrite by (auto simp: complete_write_def Let_def)
      then show ?thesis using ps(2) s ok(1) by (simp add: in_flight_def async_write_def)
    next
      case BytesWrite
      then have s: "buf s = p" "unat (bufContentOffset s) \<le> length (bytes p)"
          "d = take 64000 (drop (unat (bufContentOffset s)) (bytes p))"
          "socketOut s = ?base @ type_bytes (ptype p) @ size_bytes (bytesSize p) @ take (unat (bufContentOffset s)) (bytes p)"
        using ps(3) w by (auto simp: in_flight_def)
      have "on_bytes_written (word_of_nat (length d)) clk (?s, q) = Inr (t, q')"
        using assms(2) w i False BytesWrite by (simp add: complete_write_def Let_def)
      then show ?thesis
        using content_written [of ?s p d q ?base clk t q'] s \<open>payload_ok p\<close> ok(1) ps(2) by simp
    qed
  qed
  then show ?thesis using ps(1) ok(2) by (auto simp: serial_sender_def)
qed

section \<open>The client\<close>

text \<open>A run of the client, with the payloads its sender was given so far. A posted handler only runs when the
  payload before has left the queue; nothing is assumed of the order of all other steps, nor of the success
  of a write.\<close>

inductive client_trace :: "(handshake \<Rightarrow> byte list) \<Rightarrow> (heartbeat \<Rightarrow> byte list) \<Rightarrow> client_socket \<Rightarrow> raw_payload list \<Rightarrow> bool"
  for serHs serHb where
  start: "client_trace serHs serHb client_init []"
| post: "client_trace serHs serHb c ps \<Longrightarrow> i < length (posted c) \<Longrightarrow> items (cOutgoing c) = [] \<Longrightarrow>
    run_posted i clk c = Inr c' \<Longrightarrow> client_trace serHs serHb c' (ps @ [posted c ! i])"
| written: "client_trace serHs serHb c ps \<Longrightarrow> on_write i ec n clk c = Inr c' \<Longrightarrow> client_trace serHs serHb c' ps"
| other: "client_trace serHs serHb c ps \<Longrightarrow> client_step serHs serHb c c' \<Longrightarrow> cSender c' = cSender c \<Longrightarrow>
    cOutgoing c' = cOutgoing c \<Longrightarrow> client_trace serHs serHb c' ps"

definition client_payload :: "(handshake \<Rightarrow> byte list) \<Rightarrow> (heartbeat \<Rightarrow> byte list) \<Rightarrow> raw_payload \<Rightarrow> bool" where
  "client_payload serHs serHb p \<longleftrightarrow> (\<exists>m. p = serialize_handshake serHs m) \<or> (\<exists>m. p = serialize_heartbeat serHb m)"

lemma posted_payloads:
  "client_step serHs serHb c c' \<Longrightarrow> \<forall>p \<in> set (posted c). client_payload serHs serHb p \<Longrightarrow>
     \<forall>p \<in> set (posted c'). client_payload serHs serHb p"
proof (induction rule: client_step.induct)
  case (post i c clk c')
  have "set (posted c') \<subseteq> set (posted c)"
    using post(2) set_take_subset [of i "posted c"] set_drop_subset [of "Suc i" "posted c"]
    by (auto simp: run_posted_def Let_def split: sum.splits)
  with post(3) show ?case by blast
qed (auto simp: on_connect_def heartbeating_def initiateHandshake_def on_heartbeat_def sendHeartbeat_def asyncSendPayload_def
    on_write_def client_payload_def Let_def split: sum.splits)

lemma client_payload_ok: "encodings_fit serHs serHb \<Longrightarrow> client_payload serHs serHb p \<Longrightarrow> payload_ok p"
  using handshake_payload_ok heartbeat_payload_ok by (auto simp: client_payload_def)

lemma client_trace_serial:
  assumes "client_trace serHs serHb c ps" and "encodings_fit serHs serHb"
  shows "serial_sender (cSender c) (cOutgoing c) ps \<and> (\<forall>p \<in> set (posted c) \<union> set ps. client_payload serHs serHb p)"
  using assms(1)
proof (induction rule: client_trace.induct)
  case start
  then show ?case by (simp add: client_init_def serial_init)
next
  case (post c ps i clk c')
  then have p: "client_payload serHs serHb (posted c ! i)" by simp
  obtain s q where sq: "sendPayload (posted c ! i) clk (cSender c, cOutgoing c) = Inr (s, q)"
    "c' = c\<lparr>posted := take i (posted c) @ drop (Suc i) (posted c), cSender := s, cOutgoing := q\<rparr>"
    using post.hyps(4) by (auto simp: run_posted_def Let_def split: sum.splits)
  from serial_post [OF conjunct1 [OF post.IH] post.hyps(3) client_payload_ok [OF assms(2) p] sq(1)] post.IH p
  show ?case by (auto simp: sq(2) dest: in_set_takeD in_set_dropD)
next
  case (written c ps i ec n clk c')
  then obtain s q where sq: "complete_write i ec n clk (cSender c, cOutgoing c) = Inr (s, q)"
    "c' = c\<lparr>cSender := s, cOutgoing := q\<rparr>"
    by (auto simp: on_write_def split: sum.splits)
  with serial_write [OF conjunct1 [OF written.IH] sq(1)] written.IH show ?case by simp
next
  case (other c ps c')
  then show ?case using posted_payloads [OF other.hyps(2)] by auto
qed

text \<open>A stream of which a prefix is transported is transported as far.\<close>

lemma transports_prefix: "transports out cs \<Longrightarrow> prefix out stream \<Longrightarrow> transports stream cs"
proof (induction cs arbitrary: out stream)
  case (Cons c cs)
  obtain ec data clk where c: "c = (ec, data, clk)" by (metis prod_cases3)
  obtain rest where r: "out = data @ rest" "ec \<or> transports rest cs" using Cons.prems(1) by (auto simp: c)
  obtain more where m: "stream = data @ rest @ more" using Cons.prems(2) r(1) by (auto simp: prefix_def)
  have "transports (rest @ more) cs" if "transports rest cs" using Cons.IH [OF that] by simp
  with r(2) m show ?case by (auto simp: c)
qed simp


text \<open>A client connects, its timer fires, and the heartbeat is written in three writes.\<close>

lemma a_beat_sent: "\<exists>c. client_trace (\<lambda>_. []) (\<lambda>_. [7]) c [a_beat] \<and> socketOut (cSender c) = wire a_beat"
proof -
  let ?clk = "\<lambda>_ :: nat. 0 :: int"
  define c1 where "c1 = on_connect False 5 client_init"
  define c2 where "c2 = on_heartbeat (\<lambda>_. [7]) 0 0 5 c1"
  note start = client_init_def payload_sender_init_def payload_receiver_init_def raw_payload_init_def new_queue_def
  note ev = c2_def c1_def on_connect_def heartbeating_def on_heartbeat_def sendHeartbeat_def asyncSendPayload_def
    startReceiving_def receivePayloadType_def start Let_def
  have "client_step (\<lambda>_. []) (\<lambda>_. [7]) client_init c1"
    unfolding c1_def by (rule client_step.connected) (simp add: start)
  then have t1: "client_trace (\<lambda>_. []) (\<lambda>_. [7]) c1 []"
    by (rule client_trace.other [OF client_trace.start]) (simp_all add: ev)
  have "client_step (\<lambda>_. []) (\<lambda>_. [7]) c1 c2" unfolding c2_def by (rule client_step.heartbeat) (simp add: ev)
  then have t2: "client_trace (\<lambda>_. []) (\<lambda>_. [7]) c2 []"
    by (rule client_trace.other [OF t1]) (simp_all add: ev)
  have p2: "posted c2 = [a_beat]" by (simp add: ev serialize_heartbeat_def marshaller_serialize_def a_beat_def)
  have q2: "items (cOutgoing c2) = []" "writes (cSender c2) = []" "bufContentOffset (cSender c2) = 0" "socketOut (cSender c2) = []"
    "\<not> isProcessing (cSender c2)"
    by (simp_all add: ev)
  have f: "front (push a_beat (cOutgoing c2)) = Inr a_beat" using q2(1) front_Cons [of "push a_beat (cOutgoing c2)" a_beat "[]"] by simp
  obtain c3 where c3: "run_posted 0 ?clk c2 = Inr c3" "buf (cSender c3) = a_beat" "bufContentOffset (cSender c3) = 0"
    "writes (cSender c3) = [(TypeWrite, type_bytes HEARTBEAT)]" "socketOut (cSender c3) = []" "items (cOutgoing c3) = [a_beat]"
    using f q2 p2 by (simp add: run_posted_def sendPayload_def sendPayloadType_def async_write_def a_beat_def Let_def)
  have t3: "client_trace (\<lambda>_. []) (\<lambda>_. [7]) c3 [a_beat]"
    using client_trace.post [OF t2, of 0 ?clk c3] p2 q2(1) c3(1) by simp
  obtain c4 where c4: "on_write 0 False 0 ?clk c3 = Inr c4" "buf (cSender c4) = a_beat" "bufContentOffset (cSender c4) = 0"
    "writes (cSender c4) = [(SizeWrite, size_bytes 1)]" "socketOut (cSender c4) = type_bytes HEARTBEAT" "items (cOutgoing c4) = [a_beat]"
    using c3 by (simp add: on_write_def sender_defs a_beat_def Let_def)
  have t4: "client_trace (\<lambda>_. []) (\<lambda>_. [7]) c4 [a_beat]" by (rule client_trace.written [OF t3 c4(1)])
  obtain c5 where c5: "on_write 0 False 0 ?clk c4 = Inr c5" "buf (cSender c5) = a_beat" "bufContentOffset (cSender c5) = 0"
    "writes (cSender c5) = [(BytesWrite, [7])]" "socketOut (cSender c5) = type_bytes HEARTBEAT @ size_bytes 1" "items (cOutgoing c5) = [a_beat]"
    using c4 by (simp add: on_write_def sender_defs sendPayloadBytes_def MAXIMUM_BYTES_AS_NETWORK_BUFFER_def a_beat_def Let_def)
  have t5: "client_trace (\<lambda>_. []) (\<lambda>_. [7]) c5 [a_beat]" by (rule client_trace.written [OF t4 c5(1)])
  obtain c6 where c6: "on_write 0 False 0 ?clk c5 = Inr c6" "socketOut (cSender c6) = type_bytes HEARTBEAT @ size_bytes 1 @ [7]"
    using c5 pop_Cons [OF c5(6)] by (simp add: on_write_def sender_defs a_beat_def Let_def)
  have "client_trace (\<lambda>_. []) (\<lambda>_. [7]) c6 [a_beat]" by (rule client_trace.written [OF t5 c6(1)])
  with c6(2) show ?thesis by (intro exI [of _ c6]) (simp add: wire_def a_beat_def)
qed


section \<open>A client that does not follow the protocol\<close>

text \<open>C9: Whatever the server has been through, a client that connects and sends four bytes of any type and a size larger
  than a string can have ends it: both reads are answered as they should, the second one's \<open>resize\<close> throws, and
  nothing on the network thread catches it.\<close>

theorem twelve_bytes_end_server:
  assumes "spawnCount srv \<noteq> int INT_MAX" and "length t = 4" and "length b = 8" and "ms < unat (bytes_size b)"
  shows "\<exists>srv1 srv2. on_accept False srv = Inr srv1
    \<and> asio_completion (receiver (spawnedSockets srv1 ! length (spawnedSockets srv))) False t
    \<and> on_received ms (length (spawnedSockets srv)) False t clk srv1 = Inr srv2
    \<and> asio_completion (receiver (spawnedSockets srv2 ! length (spawnedSockets srv))) False b
    \<and> on_received ms (length (spawnedSockets srv)) False b clk' srv2 = Inl (ReceiverThrew LengthError)"
proof -
  let ?n = "length (spawnedSockets srv)"
  obtain srv1 sock where a: "on_accept False srv = Inr srv1" "spawnedSockets srv1 = spawnedSockets srv @ [sock]"
    "pendingRead (receiver sock) = TypeRead"
    using assms(1)
    by (simp add: on_accept_def acceptConnections_def spawned_socket_start_def spawned_socket_init_def spawned_payload_receiver_def
        payload_receiver_init_def startReceiving_def receivePayloadType_def Let_def)
  have c1: "asio_completion (receiver (spawnedSockets srv1 ! ?n)) False t"
    using a(2,3) assms(2) by (simp add: asio_completion_def requested_def)
  obtain r where r: "on_received ms ?n False t clk srv1 = Inr (srv1\<lparr>spawnedSockets := (spawnedSockets srv1)[?n := sock\<lparr>receiver := r\<rparr>]\<rparr>)"
    "pendingRead r = SizeRead"
    using a(2,3) by (simp add: on_received_def receiver_defs Let_def)
  let ?srv2 = "srv1\<lparr>spawnedSockets := (spawnedSockets srv1)[?n := sock\<lparr>receiver := r\<rparr>]\<rparr>"
  have s: "spawnedSockets ?srv2 ! ?n = sock\<lparr>receiver := r\<rparr>" using a(2) by simp
  have c2: "asio_completion (receiver (spawnedSockets ?srv2 ! ?n)) False b"
    using r(2) assms(3) by (simp only: s) (simp add: asio_completion_def requested_def)
  have "on_received ms ?n False b clk' ?srv2 = Inl (ReceiverThrew LengthError)"
    unfolding on_received_def s using r(2) assms(3,4) by (simp add: receiver_defs overlay_full Let_def)
  with a(1) c1 r(1) c2 show ?thesis by blast
qed

theorem twelve_bytes_end_server_witness:
  "\<exists>srv1 srv2. on_accept False (server_init ''US'' 4545) = Inr srv1
    \<and> on_received (2 ^ 63) 0 False [0, 0, 0, 0] (\<lambda>_. 0) srv1 = Inr srv2
    \<and> on_received (2 ^ 63) 0 False (size_bytes 0xFFFFFFFFFFFFFFFF) (\<lambda>_. 0) srv2 = Inl (ReceiverThrew LengthError)"
proof -
  have big: "2 ^ 63 < unat (bytes_size (size_bytes 0xFFFFFFFFFFFFFFFF))" by simp
  let ?srv = "server_init ''US'' 4545"
  have none: "length (spawnedSockets ?srv) = 0" and count: "spawnCount ?srv \<noteq> int INT_MAX"
    by (simp_all add: server_init_def acceptConnections_def INT_MAX_def)
  have len: "length [0, 0, 0, 0 :: byte] = 4" "length (size_bytes 0xFFFFFFFFFFFFFFFF) = 8" by simp_all
  show ?thesis using twelve_bytes_end_server [OF count len big, of "\<lambda>_. 0" "\<lambda>_. 0"] unfolding none by blast
qed

end
