(* ===== verification/StdText.thy ===== *)
theory StdText
  imports US_Prelude "HOL-Library.Sublist" "HOL-Library.List_Lexorder" "HOL-Library.Char_ord"
begin

text \<open>
  The parts of the C++ library that the text-handling code uses: substring search, the regular
  expressions of literals and lazy \<open>.*?\<close> as ECMAScript matches them (backtracking, first match
  wins), formatted input from an \<open>istream\<close>, and \<open>std::map\<close> as its ordered sequence of entries.
\<close>

section \<open>Substring search\<close>

fun contains_str :: "string \<Rightarrow> string \<Rightarrow> bool" where
  "contains_str d [] = (d = [])"
| "contains_str d (c # s) = (prefix d (c # s) \<or> contains_str d s)"

lemma contains_str_iff: "contains_str d s = sublist d s"
proof (induction s)
  case Nil
  show ?case by simp
next
  case (Cons c s)
  then show ?case by (auto simp: sublist_Cons_right)
qed

lemma contains_str_chars: "contains_str d s \<Longrightarrow> set d \<subseteq> set s"
  by (auto simp: contains_str_iff dest: set_mono_sublist)

lemma contains_str_append: "contains_str d (x @ d @ y)"
  by (simp add: contains_str_iff)

text \<open>What cannot start a match can be skipped.\<close>

lemma contains_str_skip: "c \<notin> set x \<Longrightarrow> contains_str (c # d) (x @ s) = contains_str (c # d) s"
  by (induction x) auto

text \<open>A buffer that holds a terminator, and is a prefix of the text up to its first occurrence.\<close>

lemma prefix_of_first:
  assumes "prefix buf (a @ r)" and "contains_str d buf" and "\<not> contains_str d (butlast a)" and "a \<noteq> []"
  shows "prefix a buf"
proof (rule ccontr)
  assume "\<not> prefix a buf"
  then have "strict_prefix buf a"
    using assms(1) prefix_same_cases [of buf "a @ r" a] by (auto simp: strict_prefix_def)
  then obtain z zs where "a = buf @ z # zs" by (rule strict_prefixE')
  then have "butlast a = buf @ butlast (z # zs)" by (simp add: butlast_append)
  with assms(2,3) show False by (auto simp: contains_str_iff intro: sublist_order.order.trans sublist_append_rightI)
qed

section \<open>Lazy regular expressions\<close>

text \<open>
  \<open>Lit w\<close> is a literal, \<open>Any\<close> is \<open>.*?\<close>, \<open>GroupAny\<close> the captured \<open>(.*?)\<close>. A lazy star first tries
  to match nothing and extends by one character when the rest fails; \<open>.\<close> excludes line terminators.
\<close>

datatype regex_item = Lit string | Any | GroupAny

definition dot :: "char \<Rightarrow> bool" where
  "dot c \<longleftrightarrow> c \<noteq> CHR 0x0A \<and> c \<noteq> CHR 0x0D"

text \<open>The captures of a match at the start of the text, and the text after it.\<close>

fun regex_match :: "regex_item list \<Rightarrow> string \<Rightarrow> (string list \<times> string) option" where
  "regex_match [] s = Some ([], s)"
| "regex_match (Lit w # r) s = (if prefix w s then regex_match r (drop (length w) s) else None)"
| "regex_match (Any # r) [] = regex_match r []"
| "regex_match (Any # r) (c # s) =
     (case regex_match r (c # s) of
        Some m \<Rightarrow> Some m
      | None \<Rightarrow> if dot c then regex_match (Any # r) s else None)"
| "regex_match (GroupAny # r) [] =
     (case regex_match r [] of Some (cs, t) \<Rightarrow> Some ([] # cs, t) | None \<Rightarrow> None)"
| "regex_match (GroupAny # r) (c # s) =
     (case regex_match r (c # s) of
        Some (cs, t) \<Rightarrow> Some ([] # cs, t)
      | None \<Rightarrow>
          if dot c
          then (case regex_match (GroupAny # r) s of
                  Some (g # cs, t) \<Rightarrow> Some ((c # g) # cs, t)
                | _ \<Rightarrow> None)
          else None)"

text \<open>\<open>std::regex_search\<close>: the first position with a match.\<close>

fun regex_search :: "regex_item list \<Rightarrow> string \<Rightarrow> (string list \<times> string) option" where
  "regex_search r [] = regex_match r []"
| "regex_search r (c # s) =
     (case regex_match r (c # s) of Some m \<Rightarrow> Some m | None \<Rightarrow> regex_search r s)"

text \<open>Patterns without an empty literal in front consume something.\<close>

lemma regex_match_suffix: "regex_match r s = Some (cs, t) \<Longrightarrow> suffix t s"
proof (induction r s arbitrary: cs t rule: regex_match.induct)
  case (2 w r s)
  then show ?case by (auto split: if_splits dest: suffix_order.trans [OF _ suffix_drop])
next
  case (4 r c s)
  then show ?case by (auto split: option.splits if_splits simp: suffix_Cons)
next
  case (6 r c s)
  then show ?case by (auto split: option.splits if_splits list.splits simp: suffix_Cons)
qed (auto split: option.splits)

lemma regex_match_Lit_shorter:
  "regex_match (Lit (c # w) # r) s = Some (cs, t) \<Longrightarrow> length t < length s"
  by (auto split: if_splits dest!: regex_match_suffix suffix_length_le prefix_length_le)

lemma regex_search_Lit_shorter:
  "regex_search (Lit (c # w) # r) s = Some (cs, t) \<Longrightarrow> length t < length s"
proof (induction s)
  case Nil
  then show ?case by simp
next
  case (Cons d s)
  then show ?case
    using regex_match_Lit_shorter [of c w r "d # s"] by (fastforce split: option.splits)
qed

text \<open>
  A lazy star in front of a literal finds the first occurrence of the literal, if the pattern
  matches there: what precedes holds no earlier occurrence and no line terminator.
\<close>

definition first_before :: "string \<Rightarrow> string \<Rightarrow> bool" where
  "first_before w x \<longleftrightarrow> (\<forall>c \<in> set x. dot c) \<and> \<not> contains_str w (butlast (x @ w))"

lemma first_before_Cons:
  assumes "first_before w (c # x)" and "w \<noteq> []"
  shows "dot c" and "first_before w x" and "\<not> prefix w (c # x @ w @ y)"
proof -
  have b: "butlast ((c # x) @ w) = c # butlast (x @ w)" using assms(2) by simp
  show "dot c" "first_before w x"
    using assms b by (auto simp: first_before_def)
  show "\<not> prefix w (c # x @ w @ y)"
  proof
    assume "prefix w (c # x @ w @ y)"
    moreover have "prefix (c # butlast (x @ w)) (c # x @ w @ y)"
    proof -
      have "x @ w = butlast (x @ w) @ [last (x @ w)]"
        using assms(2) by (intro append_butlast_last_id [symmetric]) simp
      then have "x @ w @ y = butlast (x @ w) @ last (x @ w) # y" by (metis append.assoc append_Cons append_Nil)
      then show ?thesis by (metis Cons_prefix_Cons prefixI)
    qed
    moreover have "length w \<le> length (c # butlast (x @ w))" using assms(2) by simp
    ultimately have "prefix w (c # butlast (x @ w))" by (rule prefix_length_prefix)
    then have "contains_str w (butlast ((c # x) @ w))"
      unfolding b by simp
    with assms(1) show False by (simp add: first_before_def)
  qed
qed

lemma regex_match_Any_first:
  assumes "first_before w x" and "w \<noteq> []" and "regex_match r y = Some m"
  shows "regex_match (Any # Lit w # r) (x @ w @ y) = Some m"
  using assms(1)
proof (induction x)
  case Nil
  show ?case using assms(2,3) by (cases w) (simp_all split: option.split)
next
  case (Cons c x)
  from first_before_Cons [OF this(2) assms(2)] Cons.IH show ?case by simp
qed

lemma regex_match_Group_first:
  assumes "first_before w x" and "w \<noteq> []" and "regex_match r y = Some (cs, t)"
  shows "regex_match (GroupAny # Lit w # r) (x @ w @ y) = Some (x # cs, t)"
  using assms(1)
proof (induction x)
  case Nil
  show ?case using assms(2,3) by (cases w) (simp_all split: option.split)
next
  case (Cons c x)
  from first_before_Cons [OF this(2) assms(2)] Cons.IH show ?case by simp
qed

text \<open>A literal that needs a character the text does not have before a line terminator.\<close>

lemma regex_search_skip:
  assumes "\<not> contains_str w (butlast (x @ w))" and "w \<noteq> []" and "regex_match (Lit w # r) (w @ y) = Some m"
  shows "regex_search (Lit w # r) (x @ w @ y) = Some m"
  using assms(1)
proof (induction x)
  case Nil
  show ?case using assms(2,3) by (cases w) (simp_all split: option.split)
next
  case (Cons c x)
  have b: "butlast ((c # x) @ w) = c # butlast (x @ w)" using assms(2) by simp
  have fb: "\<not> prefix w (c # x @ w @ y)"
  proof
    assume "prefix w (c # x @ w @ y)"
    then have "prefix w ((c # butlast (x @ w)) @ last (x @ w) # y)"
      using assms(2) by (metis append.assoc append_Cons append_Nil append_butlast_last_id append_is_Nil_conv)
    then have "prefix w (c # butlast (x @ w))"
      using assms(2) by (auto intro: prefix_length_prefix)
    with Cons.prems b show False by simp
  qed
  have "regex_search (Lit w # r) (x @ w @ y) = Some m"
    using Cons.IH Cons.prems b by simp
  with fb show ?case by simp
qed

lemma regex_search_none:
  assumes "\<not> contains_str w s" and "w \<noteq> []"
  shows "regex_search (Lit w # r) s = None"
  using assms by (induction s) auto

section \<open>Formatted input\<close>

text \<open>
  An input stream is the characters buffered and whether it is still good: at the end of the
  buffer, or after a failed extraction, every later extraction fails.
\<close>

record istream =
  sbuf :: string
  good :: bool

definition is_space :: "char \<Rightarrow> bool" where
  "is_space c \<longleftrightarrow> c \<in> {CHR '' '', CHR 0x09, CHR 0x0A, CHR 0x0B, CHR 0x0C, CHR 0x0D}"

definition is_digit :: "char \<Rightarrow> bool" where
  "is_digit c \<longleftrightarrow> CHR ''0'' \<le> c \<and> c \<le> CHR ''9''"

text \<open>\<open>stream >> word\<close>: \<open>None\<close> when it fails.\<close>

definition read_word :: "istream \<Rightarrow> string option \<times> istream" where
  "read_word st =
     (let s = dropWhile is_space (sbuf st); w = takeWhile (\<lambda>c. \<not> is_space c) s;
          rest = dropWhile (\<lambda>c. \<not> is_space c) s
      in if \<not> good st then (None, st)
         else if s = [] then (None, \<lparr>sbuf = [], good = False\<rparr>)
         else (Some w, \<lparr>sbuf = rest, good = (rest \<noteq> [])\<rparr>))"

text \<open>\<open>stream >> unsigned\<close>: a sign is accepted, out of range or no digits fails the stream.\<close>

definition skip_sign :: "string \<Rightarrow> string" where
  "skip_sign s = (case s of c # s' \<Rightarrow> if c = CHR ''+'' \<or> c = CHR ''-'' then s' else s | [] \<Rightarrow> [])"

definition read_unsigned :: "istream \<Rightarrow> nat option \<times> istream" where
  "read_unsigned st =
     (let s = skip_sign (dropWhile is_space (sbuf st)); ds = takeWhile is_digit s; rest = dropWhile is_digit s
      in if \<not> good st then (None, st)
         else if ds = [] \<or> 2 ^ 32 \<le> dec_value ds then (None, \<lparr>sbuf = rest, good = False\<rparr>)
         else (Some (dec_value ds), \<lparr>sbuf = rest, good = (rest \<noteq> [])\<rparr>))"

text \<open>\<open>std::getline\<close>.\<close>

definition read_line :: "istream \<Rightarrow> string option \<times> istream" where
  "read_line st =
     (let l = takeWhile (\<lambda>c. c \<noteq> CHR 0x0A) (sbuf st); rest = dropWhile (\<lambda>c. c \<noteq> CHR 0x0A) (sbuf st)
      in if \<not> good st then (None, st)
         else if sbuf st = [] then (None, \<lparr>sbuf = [], good = False\<rparr>)
         else if rest = [] then (Some l, \<lparr>sbuf = [], good = False\<rparr>)
         else (Some l, \<lparr>sbuf = tl rest, good = True\<rparr>))"

lemma read_line_eq:
  "CHR 0x0A \<notin> set l \<Longrightarrow> read_line \<lparr>sbuf = l @ CHR 0x0A # s, good = True\<rparr> = (Some l, \<lparr>sbuf = s, good = True\<rparr>)"
proof -
  assume "CHR 0x0A \<notin> set l"
  then have "c \<noteq> CHR 0x0A" if "c \<in> set l" for c using that by blast
  then have "takeWhile (\<lambda>c. c \<noteq> CHR 0x0A) (l @ CHR 0x0A # s) = l"
    "dropWhile (\<lambda>c. c \<noteq> CHR 0x0A) (l @ CHR 0x0A # s) = CHR 0x0A # s"
    by (simp_all add: takeWhile_append2 dropWhile_append2)
  then show ?thesis by (simp add: read_line_def)
qed

lemma read_line_sel [simp]: "read_line \<lparr>sbuf = s, good = False\<rparr> = (None, \<lparr>sbuf = s, good = False\<rparr>)"
  by (simp add: read_line_def)

end
