(* ===== verification/StdMap.thy ===== *)
theory StdMap
  imports US_Prelude
begin

text \<open>
  \<open>std::map\<close> as the sequence of its entries in key order: iteration is the sequence, \<open>begin()\<close> its
  head. The operations the code uses, and their contract as a locale.
\<close>

type_synonym ('k, 'v) std_map = "('k \<times> 'v) list"

fun insert_or_assign :: "'k::linorder \<Rightarrow> 'v \<Rightarrow> ('k, 'v) std_map \<Rightarrow> ('k, 'v) std_map" where
  "insert_or_assign k v [] = [(k, v)]"
| "insert_or_assign k v ((k', v') # m) =
     (if k < k' then (k, v) # (k', v') # m
      else if k = k' then (k, v) # m
      else (k', v') # insert_or_assign k v m)"

definition map_erase :: "'k \<Rightarrow> ('k, 'v) std_map \<Rightarrow> ('k, 'v) std_map" where
  "map_erase k m = filter (\<lambda>(k', _). k' \<noteq> k) m"

definition map_find :: "('k, 'v) std_map \<Rightarrow> 'k \<Rightarrow> 'v option" where
  "map_find m k = map_of m k"

definition map_ok :: "('k::linorder, 'v) std_map \<Rightarrow> bool" where
  "map_ok m \<longleftrightarrow> sorted_wrt (<) (map fst m)"

locale ordered_map =
  fixes none :: 'm
    and put :: "'k \<Rightarrow> 'v \<Rightarrow> 'm \<Rightarrow> 'm"
    and remove :: "'k \<Rightarrow> 'm \<Rightarrow> 'm"
    and lookup :: "'m \<Rightarrow> 'k \<Rightarrow> 'v option"
    and entries :: "'m \<Rightarrow> ('k \<times> 'v) list"
    and ok :: "'m \<Rightarrow> bool"
  assumes none_ok: "ok none"
    and none_lookup: "lookup none k = None"
    and put_ok: "ok m \<Longrightarrow> ok (put k v m)"
    and put_lookup: "ok m \<Longrightarrow> lookup (put k v m) = (lookup m)(k \<mapsto> v)"
    and remove_ok: "ok m \<Longrightarrow> ok (remove k m)"
    and remove_lookup: "ok m \<Longrightarrow> lookup (remove k m) = (lookup m)(k := None)"
    and entries_lookup: "ok m \<Longrightarrow> map_of (entries m) = lookup m"
    and entries_distinct: "ok m \<Longrightarrow> distinct (map fst (entries m))"
begin

lemma put_all_ok: "ok m \<Longrightarrow> ok (fold (\<lambda>(k, v). put k v) kvs m)"
  by (induction kvs arbitrary: m) (auto simp: put_ok)

lemma put_all_lookup: "ok m \<Longrightarrow> lookup (fold (\<lambda>(k, v). put k v) kvs m) = lookup m ++ map_of (rev kvs)"
proof (induction kvs arbitrary: m)
  case Nil
  then show ?case by simp
next
  case (Cons kv kvs)
  obtain k v where kv: "kv = (k, v)" by (cases kv)
  have "lookup (fold (\<lambda>(k, v). put k v) (kv # kvs) m) = lookup (put k v m) ++ map_of (rev kvs)"
    using Cons.IH [OF put_ok [OF Cons.prems]] by (simp add: kv)
  also have "\<dots> = lookup m ++ map_of (rev (kv # kvs))"
    by (simp add: kv put_lookup [OF Cons.prems] map_add_def fun_eq_iff map_of_append split: option.split)
  finally show ?case .
qed

lemma entries_mem: "ok m \<Longrightarrow> ((k, v) \<in> set (entries m)) = (lookup m k = Some v)"
  using entries_distinct entries_lookup by (metis map_of_eq_Some_iff)

lemma entries_empty: "ok m \<Longrightarrow> (entries m = []) = (\<forall>k. lookup m k = None)"
  by (metis entries_lookup map_of_eq_empty_iff)

end

lemma map_ok_distinct: "map_ok m \<Longrightarrow> distinct (map fst m)"
  unfolding map_ok_def using strict_sorted_iff by blast

lemma insert_or_assign_keys: "set (map fst (insert_or_assign k v m)) = insert k (set (map fst m))"
  by (induction k v m rule: insert_or_assign.induct) auto

lemma insert_or_assign_ok: "map_ok m \<Longrightarrow> map_ok (insert_or_assign k v m)"
proof (induction k v m rule: insert_or_assign.induct)
  case (1 k v)
  show ?case by (simp add: map_ok_def)
next
  case (2 k v k' v' m)
  then show ?case
    using insert_or_assign_keys [of k v m] by (fastforce simp: map_ok_def)
qed

lemma insert_or_assign_find: "map_ok m \<Longrightarrow> map_find (insert_or_assign k v m) = (map_find m)(k \<mapsto> v)"
  by (induction k v m rule: insert_or_assign.induct) (auto simp: map_find_def map_ok_def fun_eq_iff)

lemma map_erase_find: "map_find (map_erase k m) = (map_find m)(k := None)"
  by (induction m) (auto simp: map_find_def map_erase_def fun_eq_iff)

lemma map_erase_ok: "map_ok m \<Longrightarrow> map_ok (map_erase k m)"
  by (induction m) (auto simp: map_ok_def map_erase_def)

lemma map_of_find: "map_of m = map_find m"
  by (simp add: map_find_def fun_eq_iff)

lemma map_find_Nil: "map_find [] k = None"
  by (simp add: map_find_def)

lemma map_ok_Nil: "map_ok []"
  by (simp add: map_ok_def)

interpretation sm: ordered_map "[]" insert_or_assign map_erase map_find "\<lambda>m. m" map_ok
  by unfold_locales
     (simp_all add: map_ok_Nil map_find_Nil insert_or_assign_ok insert_or_assign_find map_erase_ok
        map_erase_find map_of_find map_ok_distinct)

end
