(* ===== verification/Machines.thy ===== *)
theory Machines
  imports US_Prelude
begin

text \<open>
  Runs of a component over a list of inputs. The locale \<open>machine\<close> is the contract of a component whose
  operations keep an invariant; \<open>event_loop\<close> that of a loop that may be left by an exception or by a handler
  that does not return. A component states its invariant once, as an interpretation, and has it for every run.
\<close>

locale machine =
  fixes exec :: "'i \<Rightarrow> 's \<Rightarrow> 's" and accepts :: "'i \<Rightarrow> bool" and inv :: "'s \<Rightarrow> bool"
  assumes step: "inv s \<Longrightarrow> accepts i \<Longrightarrow> inv (exec i s)"
begin

lemma run: "inv s \<Longrightarrow> list_all accepts is \<Longrightarrow> inv (fold exec is s)"
  by (induction "is" arbitrary: s) (simp_all add: step)

text \<open>What every reachable state has, a prefix of the run has too.\<close>

lemma run_prefix: "inv s \<Longrightarrow> list_all accepts (is @ js) \<Longrightarrow> inv (fold exec is s) \<and> inv (fold exec js (fold exec is s))"
  using run by simp

end

text \<open>\<open>None\<close> is a step that does not return, \<open>Inl\<close> an exception, which ends the loop.\<close>

fun run_loop :: "('i \<Rightarrow> 's \<Rightarrow> ('e + 's) option) \<Rightarrow> 'i list \<Rightarrow> 's \<Rightarrow> ('e + 's) option" where
  "run_loop step [] s = Some (Inr s)"
| "run_loop step (i # is) s = (case step i s of
     None \<Rightarrow> None
   | Some (Inl e) \<Rightarrow> Some (Inl e)
   | Some (Inr s') \<Rightarrow> run_loop step is s')"

locale event_loop =
  fixes step :: "'i \<Rightarrow> 's \<Rightarrow> ('e + 's) option" and accepts :: "'i \<Rightarrow> bool" and inv :: "'s \<Rightarrow> bool" and throws :: "'e \<Rightarrow> bool"
  assumes returns: "inv s \<Longrightarrow> accepts i \<Longrightarrow> step i s \<noteq> None"
    and exception: "inv s \<Longrightarrow> accepts i \<Longrightarrow> step i s = Some (Inl e) \<Longrightarrow> throws e"
    and keeps: "inv s \<Longrightarrow> accepts i \<Longrightarrow> step i s = Some (Inr s') \<Longrightarrow> inv s'"
begin

lemma run:
  "inv s \<Longrightarrow> list_all accepts is \<Longrightarrow>
     (\<exists>e. run_loop step is s = Some (Inl e) \<and> throws e) \<or> (\<exists>s'. run_loop step is s = Some (Inr s') \<and> inv s')"
proof (induction "is" arbitrary: s)
  case (Cons i "is")
  then obtain r where r: "step i s = Some r" using returns by fastforce
  show ?case
  proof (cases r)
    case (Inl e)
    then show ?thesis using Cons.prems exception r by auto
  next
    case (Inr s')
    then show ?thesis using Cons.prems Cons.IH [of s'] keeps r by auto
  qed
qed simp

text \<open>Without exceptions the loop only ends with its inputs.\<close>

lemma run_on: "inv s \<Longrightarrow> list_all accepts is \<Longrightarrow> (\<And>e. \<not> throws e) \<Longrightarrow> \<exists>s'. run_loop step is s = Some (Inr s') \<and> inv s'"
  using run by blast

end

end
