(* ===== verification/UpdateCheck.thy ===== *)
theory UpdateCheck
  imports StdText StdMap Machines
begin

text \<open>
  \<open>src/core/UpdateChecker.hpp\<close>: component versions are read from two XML manifests by a regular
  expression and compared as strings; and \<open>src/app/utility/UpdateChecker.hpp\<close>: the polling of the
  asynchronous check by the user interface. The local manifest (\<open>None\<close>: no such file) and the
  outcome of the download are arguments.
\<close>

section \<open>Reading a manifest\<close>

definition erase_newlines :: "string \<Rightarrow> string" where
  "erase_newlines manifestContent = filter (\<lambda>c. c \<noteq> CHR 0x0A) manifestContent"

definition findVersionExp :: "regex_item list" where
  "findVersionExp =
     [Lit ''<Name>'', GroupAny, Lit ''</Name>'', Any, Lit ''<Version>'', GroupAny, Lit ''</Version>'']"

text \<open>The loop over the groups of a match, past the first one (the whole match).\<close>

fun groups_loop :: "string \<Rightarrow> string list \<Rightarrow> (string, string) std_map \<Rightarrow> (string, string) std_map" where
  "groups_loop key [] out = out"
| "groups_loop key (grp # gs) out =
     (if key = [] then groups_loop grp gs out else insert_or_assign key grp out)"

function search_loop :: "string \<Rightarrow> (string, string) std_map \<Rightarrow> (string, string) std_map" where
  "search_loop s out =
     (case regex_search findVersionExp s of
        None \<Rightarrow> out
      | Some (cs, rest) \<Rightarrow> search_loop rest (groups_loop [] cs out))"
  by pat_completeness auto
termination
proof (relation "measure (\<lambda>(s, out). length s)", goal_cases)
  case 1
  show ?case by simp
next
  case (2 s out m cs rest)
  then show ?case
    using regex_search_Lit_shorter [of "CHR ''<''" "''Name>''"] by (cases m) (auto simp: findVersionExp_def)
qed

declare search_loop.simps [simp del]

definition extractVersionsFromManifest :: "string \<Rightarrow> (string, string) std_map" where
  "extractVersionsFromManifest manifestContent = search_loop (erase_newlines manifestContent) []"

section \<open>Comparing two manifests\<close>

definition isRemoteVersionNewerThanLocal :: "string \<Rightarrow> string \<Rightarrow> bool" where
  "isRemoteVersionNewerThanLocal localVersion remoteVersion \<longleftrightarrow> localVersion < remoteVersion"

fun components_loop :: "(string, string) std_map \<Rightarrow> (string, string) std_map \<Rightarrow> bool" where
  "components_loop [] remoteVersions = (remoteVersions \<noteq> [])"
| "components_loop ((component, localVersion) # others) remoteVersions =
     (case map_find remoteVersions component of
        None \<Rightarrow> True
      | Some remoteVersion \<Rightarrow>
          if isRemoteVersionNewerThanLocal localVersion remoteVersion then True
          else components_loop others (map_erase component remoteVersions))"

text \<open>\<open>'e\<close>: what the download may throw. \<open>None\<close> for the local manifest: the file does not exist.\<close>

definition getLocalManifestContent :: "string option \<Rightarrow> string" where
  "getLocalManifestContent file = (case file of None \<Rightarrow> [] | Some content \<Rightarrow> content)"

definition isNewerVersionAvailable :: "string option \<Rightarrow> 'e + string \<Rightarrow> 'e + bool" where
  "isNewerVersionAvailable file download =
     (let localRaw = getLocalManifestContent file
      in if localRaw = [] then Inr False
         else
           let localComponents = extractVersionsFromManifest localRaw
           in if localComponents = [] then Inr False
              else case download of
                     Inl e \<Rightarrow> Inl e
                   | Inr remoteRaw \<Rightarrow>
                       if remoteRaw = [] then Inr False
                       else
                         let remoteVersions = extractVersionsFromManifest remoteRaw
                         in if remoteVersions = [] then Inr False
                            else Inr (components_loop localComponents remoteVersions))"

section \<open>What the manifest reader returns\<close>

lemma groups_loop_ok: "map_ok out \<Longrightarrow> map_ok (groups_loop key gs out)"
  by (induction key gs out rule: groups_loop.induct) (auto simp: insert_or_assign_ok)

lemma search_loop_ok: "map_ok out \<Longrightarrow> map_ok (search_loop s out)"
proof (induction s out rule: search_loop.induct)
  case (1 s out)
  then show ?case
    by (subst search_loop.simps) (auto simp: groups_loop_ok split: option.split)
qed

lemma extract_ok: "map_ok (extractVersionsFromManifest s)"
  unfolding extractVersionsFromManifest_def by (intro search_loop_ok sm.none_ok)

lemma extract_Nil: "extractVersionsFromManifest [] = []"
  unfolding extractVersionsFromManifest_def
  by (subst search_loop.simps) (simp add: erase_newlines_def findVersionExp_def)

text \<open>A manifest entry: what precedes it, its name, what stands between, its version.\<close>

type_synonym entry = "string \<times> string \<times> string \<times> string"

definition entry_text :: "entry \<Rightarrow> string" where
  "entry_text = (\<lambda>(pre, name, gap, version).
     pre @ ''<Name>'' @ name @ ''</Name>'' @ gap @ ''<Version>'' @ version @ ''</Version>'')"

definition entry_ok :: "entry \<Rightarrow> bool" where
  "entry_ok = (\<lambda>(pre, name, gap, version).
     \<not> contains_str ''<Name>'' (butlast (pre @ ''<Name>'')) \<and> name \<noteq> []
     \<and> first_before ''</Name>'' name \<and> first_before ''<Version>'' gap \<and> first_before ''</Version>'' version)"

fun entry_put :: "entry \<Rightarrow> (string, string) std_map \<Rightarrow> (string, string) std_map" where
  "entry_put (pre, name, gap, version) m = insert_or_assign name version m"

lemma regex_search_entry:
  assumes "entry_ok (pre, name, gap, version)"
  shows "regex_search findVersionExp (entry_text (pre, name, gap, version) @ s) = Some ([name, version], s)"
proof -
  have "regex_match [GroupAny, Lit ''</Version>''] (version @ ''</Version>'' @ s) = Some ([version], s)"
    by (rule regex_match_Group_first) (use assms in \<open>auto simp: entry_ok_def\<close>)
  then have "regex_match [Lit ''<Version>'', GroupAny, Lit ''</Version>'']
      (''<Version>'' @ version @ ''</Version>'' @ s) = Some ([version], s)"
    by simp
  then have "regex_match [Any, Lit ''<Version>'', GroupAny, Lit ''</Version>'']
      (gap @ ''<Version>'' @ version @ ''</Version>'' @ s) = Some ([version], s)"
    by (intro regex_match_Any_first) (use assms in \<open>auto simp: entry_ok_def\<close>)
  then have "regex_match [GroupAny, Lit ''</Name>'', Any, Lit ''<Version>'', GroupAny, Lit ''</Version>'']
      (name @ ''</Name>'' @ gap @ ''<Version>'' @ version @ ''</Version>'' @ s) = Some ([name, version], s)"
    by (intro regex_match_Group_first) (use assms in \<open>auto simp: entry_ok_def\<close>)
  then have "regex_match findVersionExp
      (''<Name>'' @ name @ ''</Name>'' @ gap @ ''<Version>'' @ version @ ''</Version>'' @ s) = Some ([name, version], s)"
    by (simp add: findVersionExp_def)
  then have "regex_search findVersionExp
      (pre @ ''<Name>'' @ (name @ ''</Name>'' @ gap @ ''<Version>'' @ version @ ''</Version>'' @ s)) = Some ([name, version], s)"
    unfolding findVersionExp_def
    by (intro regex_search_skip) (use assms in \<open>auto simp: entry_ok_def\<close>)
  then show ?thesis by (simp add: entry_text_def)
qed

lemma search_loop_entries:
  assumes "\<forall>e \<in> set es. entry_ok e" and "\<not> contains_str ''<Name>'' tail"
  shows "search_loop (concat (map entry_text es) @ tail) out = fold entry_put es out"
  using assms(1)
proof (induction es arbitrary: out)
  case Nil
  have "regex_search findVersionExp tail = None"
    unfolding findVersionExp_def using assms(2) by (intro regex_search_none) auto
  then show ?case by (subst search_loop.simps) simp
next
  case (Cons e es)
  obtain pre name gap version where e: "e = (pre, name, gap, version)" by (cases e)
  from Cons.prems have "entry_ok (pre, name, gap, version)" and "name \<noteq> []"
    by (auto simp: e entry_ok_def)
  then show ?case
    using Cons regex_search_entry [of pre name gap version "concat (map entry_text es) @ tail"]
    by (subst search_loop.simps) (simp add: e)
qed

lemma entry_put_eq: "entry_put e m = (\<lambda>(k, v). insert_or_assign k v) ((\<lambda>(pre, name, gap, version). (name, version)) e) m"
  by (cases e) simp

lemma fold_entry_put:
  "fold entry_put es m = fold (\<lambda>(k, v). insert_or_assign k v) (map (\<lambda>(pre, name, gap, version). (name, version)) es) m"
  by (induction es arbitrary: m) (simp_all add: entry_put_eq split_beta)

lemma map_find_empty: "map_find [] = Map.empty"
  by (simp add: map_find_Nil fun_eq_iff)

lemma manifest_entries:
  assumes "erase_newlines s = concat (map entry_text es) @ tail"
    and "\<forall>e \<in> set es. entry_ok e" and "\<not> contains_str ''<Name>'' tail"
  shows "map_find (extractVersionsFromManifest s)
      = map_of (rev (map (\<lambda>(pre, name, gap, version). (name, version)) es))"
proof -
  have "extractVersionsFromManifest s = fold (\<lambda>(k, v). insert_or_assign k v)
      (map (\<lambda>(pre, name, gap, version). (name, version)) es) []"
    unfolding extractVersionsFromManifest_def assms(1) search_loop_entries [OF assms(2,3)] fold_entry_put ..
  then show ?thesis
    using sm.put_all_lookup [OF sm.none_ok] by (simp add: map_find_empty)
qed

text \<open>C17: Round trip. A manifest that, stripped of newlines, consists of well-formed entries (arbitrary text,
  a non-empty \<open><Name>\<close>, other elements, a \<open><Version>\<close>) and a rest without \<open><Name>\<close> is read back
  exactly: the map sends every name to the version of its last entry, and nothing else.\<close>

theorem manifest_roundtrip:
  assumes "erase_newlines s = concat (map entry_text es) @ tail"
    and "\<forall>e \<in> set es. entry_ok e" and "\<not> contains_str ''<Name>'' tail"
  shows "map_ok (extractVersionsFromManifest s)
    \<and> map_find (extractVersionsFromManifest s)
        = map_of (rev (map (\<lambda>(pre, name, gap, version). (name, version)) es))"
  using manifest_entries [OF assms] extract_ok by simp

definition sample_manifest :: string where
  "sample_manifest = ''<Packages>'' @ [CHR 0x0A] @ ''<Name>app</Name>'' @ [CHR 0x0A] @ ''<Title>a</Title>'' @ [CHR 0x0A]
     @ ''<Version>0.5.9</Version>'' @ [CHR 0x0A] @ ''</Packages>''"

theorem manifest_roundtrip_witness:
  "map_find (extractVersionsFromManifest sample_manifest) = [''app'' \<mapsto> ''0.5.9'']"
  using manifest_roundtrip [of sample_manifest "[(''<Packages>'', ''app'', ''<Title>a</Title>'', ''0.5.9'')]" "''</Packages>''"]
  by (simp add: sample_manifest_def erase_newlines_def entry_text_def entry_ok_def first_before_def dot_def)

section \<open>Line terminators\<close>

definition literals_dot :: "regex_item list \<Rightarrow> bool" where
  "literals_dot r \<longleftrightarrow> (\<forall>w. Lit w \<in> set r \<longrightarrow> (\<forall>c \<in> set w. dot c))"

lemma literals_dot_Cons [simp]:
  "literals_dot (Lit w # r) \<longleftrightarrow> (\<forall>c \<in> set w. dot c) \<and> literals_dot r"
  "literals_dot (Any # r) \<longleftrightarrow> literals_dot r"
  "literals_dot (GroupAny # r) \<longleftrightarrow> literals_dot r"
  "literals_dot []"
  by (auto simp: literals_dot_def)

text \<open>What a match consumes has no line terminator and holds every literal of the pattern.\<close>

lemma regex_match_dots:
  "regex_match r s = Some (cs, t) \<Longrightarrow> literals_dot r \<Longrightarrow>
     \<exists>m. s = m @ t \<and> (\<forall>c \<in> set m. dot c) \<and> (\<forall>w. Lit w \<in> set r \<longrightarrow> sublist w m)"
proof (induction r s arbitrary: cs t rule: regex_match.induct)
  case (2 w r s)
  then obtain m where "drop (length w) s = m @ t" "\<forall>c \<in> set m. dot c" "\<forall>w. Lit w \<in> set r \<longrightarrow> sublist w m"
    and p: "prefix w s"
    by (auto split: if_splits)
  moreover have "s = w @ drop (length w) s" using p by (auto simp: prefix_def)
  ultimately show ?case using 2(3)
    by (intro exI [of _ "w @ m"]) (auto intro: sublist_appendI sublist_order.order.trans)
next
  case (4 r c s)
  show ?case
  proof (cases "regex_match r (c # s)")
    case None
    with 4 obtain m where "s = m @ t" "\<forall>d \<in> set m. dot d" "dot c" "\<forall>w. Lit w \<in> set r \<longrightarrow> sublist w m"
      by (auto split: if_splits)
    then show ?thesis by (intro exI [of _ "c # m"]) (auto simp: sublist_Cons_right)
  qed (use 4 in auto)
next
  case (6 r c s)
  show ?case
  proof (cases "regex_match r (c # s)")
    case None
    with 6 obtain m where "s = m @ t" "\<forall>d \<in> set m. dot d" "dot c" "\<forall>w. Lit w \<in> set r \<longrightarrow> sublist w m"
      by (auto split: if_splits option.splits list.splits)
    then show ?thesis by (intro exI [of _ "c # m"]) (auto simp: sublist_Cons_right)
  next
    case (Some a)
    with 6 show ?thesis by (cases a) auto
  qed
qed (auto split: option.splits)

lemma regex_search_match:
  "regex_search r s = Some (cs, t) \<Longrightarrow> \<exists>x s'. s = x @ s' \<and> regex_match r s' = Some (cs, t)"
proof (induction s)
  case Nil
  then show ?case by simp
next
  case (Cons c s)
  show ?case
  proof (cases "regex_match r (c # s)")
    case None
    with Cons obtain x s' where "s = x @ s'" "regex_match r s' = Some (cs, t)" by auto
    then show ?thesis by (intro exI [of _ "c # x"] exI [of _ s']) auto
  next
    case (Some a)
    with Cons.prems show ?thesis by (intro exI [of _ "[]"] exI [of _ "c # s"]) auto
  qed
qed

text \<open>The pieces of a text between its line terminators.\<close>

fun segments :: "string \<Rightarrow> string list" where
  "segments [] = [[]]"
| "segments (c # s) =
     (case segments s of
        [] \<Rightarrow> []
      | g # gs \<Rightarrow> if dot c then (c # g) # gs else [] # g # gs)"

lemma segments_nonempty [simp]: "segments s \<noteq> []"
  by (induction s) (auto split: list.splits)

lemma prefix_segment: "prefix m s \<Longrightarrow> \<forall>c \<in> set m. dot c \<Longrightarrow> prefix m (hd (segments s))"
proof (induction s arbitrary: m)
  case (Cons c s)
  obtain g gs where "segments s = g # gs" by (cases "segments s") auto
  with Cons show ?case by (cases m) auto
qed simp

lemma sublist_segment: "sublist m s \<Longrightarrow> \<forall>c \<in> set m. dot c \<Longrightarrow> \<exists>g \<in> set (segments s). sublist m g"
proof (induction s)
  case (Cons c s)
  from Cons.prems(1) consider "prefix m (c # s)" | "sublist m s" by (auto simp: sublist_Cons_right)
  then show ?case
  proof cases
    case 1
    with Cons.prems prefix_segment have "prefix m (hd (segments (c # s)))" by blast
    then show ?thesis by (metis hd_in_set prefix_imp_sublist segments_nonempty)
  next
    case 2
    with Cons obtain g where g: "g \<in> set (segments s)" "sublist m g" by blast
    then show ?thesis
      by (cases "segments s") (auto simp: sublist_Cons_right)
  qed
qed simp

lemma findVersionExp_segment:
  assumes "regex_search findVersionExp s = Some (cs, t)"
  shows "\<exists>g \<in> set (segments s). contains_str ''<Name>'' g \<and> contains_str ''</Version>'' g"
proof -
  obtain x s' where s': "s = x @ s'" "regex_match findVersionExp s' = Some (cs, t)"
    using regex_search_match [OF assms] by blast
  have "literals_dot findVersionExp" by (simp add: findVersionExp_def dot_def)
  from regex_match_dots [OF s'(2) this] obtain m where
    m: "s' = m @ t" "\<forall>c \<in> set m. dot c" "sublist ''<Name>'' m" "sublist ''</Version>'' m"
    by (auto simp: findVersionExp_def)
  have "sublist m s" using s'(1) m(1) by simp
  then obtain g where "g \<in> set (segments s)" "sublist m g" using sublist_segment m(2) by blast
  with m(3,4) show ?thesis
    unfolding contains_str_iff by (blast intro: sublist_order.order.trans)
qed

text \<open>Only newlines are removed before the search, and \<open>.\<close> does not match a carriage return: a
  manifest in which no piece between carriage returns holds both a \<open><Name>\<close> and a \<open></Version>\<close> (CR LF
  line ends, one element per line) reads as empty, and the check then answers that there is no
  update, whatever the server would have said.\<close>

theorem manifest_carriage_returns:
  assumes "\<forall>g \<in> set (segments (erase_newlines s)).
      \<not> (contains_str ''<Name>'' g \<and> contains_str ''</Version>'' g)"
  shows "extractVersionsFromManifest s = [] \<and> isNewerVersionAvailable (Some s) download = Inr False"
proof -
  have "regex_search findVersionExp (erase_newlines s) = None"
    using findVersionExp_segment [of "erase_newlines s"] assms
    by (cases "regex_search findVersionExp (erase_newlines s)") auto
  then have "extractVersionsFromManifest s = []"
    unfolding extractVersionsFromManifest_def by (subst search_loop.simps) simp
  then show ?thesis by (simp add: isNewerVersionAvailable_def getLocalManifestContent_def Let_def)
qed

theorem manifest_carriage_returns_witness:
  "let crlf = [CHR 0x0D, CHR 0x0A];
       s = ''<Packages>'' @ crlf @ ''<Name>app</Name>'' @ crlf @ ''<Version>0.5.9</Version>'' @ crlf @ ''</Packages>''
   in isNewerVersionAvailable (Some s) (Inr sample_manifest :: unit + string) = Inr False"
  unfolding Let_def
  by (rule manifest_carriage_returns [THEN conjunct2]) (simp add: erase_newlines_def dot_def)

section \<open>What the check answers\<close>

lemma components_loop_spec:
  assumes "map_ok l" and "map_ok r"
  shows "components_loop l r \<longleftrightarrow>
     dom (map_find l) \<noteq> dom (map_find r)
     \<or> (\<exists>c v w. map_find l c = Some v \<and> map_find r c = Some w \<and> v < w)"
  using assms
proof (induction l arbitrary: r)
  case Nil
  have "(r \<noteq> []) = (dom (map_find r) \<noteq> {})"
    using sm.entries_empty [OF Nil(2)] by (simp add: fun_eq_iff)
  then show ?case by (simp only: components_loop.simps map_find_empty dom_empty) auto
next
  case (Cons e l)
  obtain c v where e: "e = (c, v)" by (cases e)
  have l: "map_ok l" using Cons.prems(1) by (simp add: map_ok_def)
  have find: "map_find (e # l) = (map_find l)(c \<mapsto> v)" by (simp add: map_find_def fun_eq_iff e)
  have fresh: "c \<notin> dom (map_find l)"
    using map_ok_distinct [OF Cons.prems(1)] by (simp add: map_of_find [symmetric] e dom_map_of_conv_image_fst)
  show ?case
  proof (cases "map_find r c")
    case None
    then have "dom (map_find (e # l)) \<noteq> dom (map_find r)" by (auto simp: find)
    with None show ?thesis by (simp add: e)
  next
    case (Some w)
    have IH: "components_loop l (map_erase c r) \<longleftrightarrow>
       dom (map_find l) \<noteq> dom (map_find r) - {c}
       \<or> (\<exists>c' v' w'. map_find l c' = Some v' \<and> ((map_find r)(c := None)) c' = Some w' \<and> v' < w')"
      using Cons.IH [OF l sm.remove_ok [OF Cons.prems(2)], of c]
      by (simp only: sm.remove_lookup [OF Cons.prems(2)] dom_fun_upd simp_thms if_True)
    have "dom (map_find (e # l)) = dom (map_find r) \<longleftrightarrow> dom (map_find l) = dom (map_find r) - {c}"
      using fresh Some by (auto simp: find)
    moreover have "(\<exists>c' v' w'. map_find (e # l) c' = Some v' \<and> map_find r c' = Some w' \<and> v' < w')
        \<longleftrightarrow> v < w \<or> (\<exists>c' v' w'. map_find l c' = Some v' \<and> ((map_find r)(c := None)) c' = Some w' \<and> v' < w')"
      using fresh Some by (auto simp: find domIff)
    ultimately show ?thesis
      using IH Some by (simp add: e isRemoteVersionNewerThanLocal_def)
  qed
qed


section \<open>Versions compared as strings\<close>

definition version3 :: "nat \<Rightarrow> nat \<Rightarrow> nat \<Rightarrow> string" where
  "version3 a b c = to_string a @ ''.'' @ to_string b @ ''.'' @ to_string c"

lemma digit_char_less: "a < 10 \<Longrightarrow> b < 10 \<Longrightarrow> (digit_char a < digit_char b) = (a < b)"
  by (simp add: less_char_def digit_char_def)

lemma digit_char_eq: "a < 10 \<Longrightarrow> b < 10 \<Longrightarrow> (digit_char a = digit_char b) = (a = b)"
  by (metis digit_char_less neq_iff)

lemma to_string_digit: "a < 10 \<Longrightarrow> to_string a = [digit_char a]"
  by (subst to_string.simps) simp

text \<open>For three-part versions with one-digit parts the string comparison is the numeric one.\<close>

theorem version_compare_digits:
  assumes "a < 10" "b < 10" "c < 10" "a' < 10" "b' < 10" "c' < 10"
  shows "isRemoteVersionNewerThanLocal (version3 a b c) (version3 a' b' c')
    \<longleftrightarrow> a < a' \<or> a = a' \<and> (b < b' \<or> b = b' \<and> c < c')"
  using assms
  by (simp add: isRemoteVersionNewerThanLocal_def version3_def to_string_digit digit_char_less digit_char_eq)

theorem version_compare_digits_witness:
  "isRemoteVersionNewerThanLocal (version3 0 5 9) (version3 0 6 0)"
  using version_compare_digits [of 0 5 9 0 6 0] by simp

lemma less_append_left: "(xs @ ys < xs @ zs) = (ys < zs)" for xs ys zs :: string
  by (induction xs) simp_all

text \<open>With a two-digit part it is not: release \<open>a.b.10\<close> never counts as newer than \<open>a.b.9\<close>, while
  going back from \<open>a.b.10\<close> to \<open>a.b.9\<close> does. And the unit test, which passes the remote version first,
  states results that the function does not give.\<close>

theorem version_compare_two_digits:
  "\<not> isRemoteVersionNewerThanLocal (version3 a b 9) (version3 a b 10)
   \<and> isRemoteVersionNewerThanLocal (version3 a b 10) (version3 a b 9)
   \<and> \<not> isRemoteVersionNewerThanLocal ''0.5.1'' ''0.5.0''
   \<and> isRemoteVersionNewerThanLocal ''0.0.7'' ''0.5.0''"
proof -
  have "to_string 10 = [digit_char 1, digit_char 0]" "to_string 9 = [digit_char 9]"
    by (subst to_string.simps, simp add: to_string_digit)+
  then show ?thesis
    by (simp add: isRemoteVersionNewerThanLocal_def version3_def less_append_left digit_char_less digit_char_eq)
qed

section \<open>Polling the asynchronous check\<close>

text \<open>
  \<open>std::async\<close> without a policy may run the check on a thread or defer it until \<open>get\<close>; a deferred
  future is never \<open>ready\<close>. \<open>launches\<close> counts the updater processes started.
\<close>

datatype 'e check_future = NoFuture | Running | Deferred | Ready "'e + bool"

record 'e update_poller =
  future :: "'e check_future"
  resolved :: bool
  launches :: nat

definition poller_init :: "'e update_poller" where
  "poller_init = \<lparr>future = NoFuture, resolved = False, launches = 0\<rparr>"

definition poller_start :: "bool \<Rightarrow> 'e update_poller \<Rightarrow> 'e update_poller" where
  "poller_start deferred p = p\<lparr>future := (if deferred then Deferred else Running)\<rparr>"

definition check_done :: "'e + bool \<Rightarrow> 'e update_poller \<Rightarrow> 'e update_poller" where
  "check_done r p = (if future p = Running then p\<lparr>future := Ready r\<rparr> else p)"

text \<open>Whether the updater could be started: its executable has to exist.\<close>

definition tryToLaunchUpdater :: "bool \<Rightarrow> 'e update_poller \<Rightarrow> bool \<times> 'e update_poller" where
  "tryToLaunchUpdater exists p =
     (if \<not> exists then (False, p) else (True, p\<lparr>launches := Suc (launches p)\<rparr>))"

text \<open>The exception \<open>get\<close> throws, if any, and the state it leaves.\<close>

definition poll :: "bool \<Rightarrow> 'e update_poller \<Rightarrow> 'e option \<times> 'e update_poller" where
  "poll exists p =
     (if resolved p then (None, p)
      else case future p of
             NoFuture \<Rightarrow> (None, p)
           | Running \<Rightarrow> (None, p)
           | Deferred \<Rightarrow> (None, p)
           | Ready r \<Rightarrow>
               let p = p\<lparr>future := NoFuture\<rparr>
               in case r of
                    Inl e \<Rightarrow> (Some e, p)
                  | Inr newer \<Rightarrow>
                      let p = (if newer then snd (tryToLaunchUpdater exists p) else p)
                      in (None, p\<lparr>resolved := True\<rparr>))"

datatype 'e poll_event = Start bool | Finish "'e + bool" | Poll bool

fun poll_exec :: "'e poll_event \<Rightarrow> 'e update_poller \<Rightarrow> 'e update_poller" where
  "poll_exec (Start deferred) p = poller_start deferred p"
| "poll_exec (Finish r) p = check_done r p"
| "poll_exec (Poll exists) p = snd (poll exists p)"

lemma poll_exec_launches:
  "launches p \<le> of_bool (resolved p) \<Longrightarrow> launches (poll_exec ev p) \<le> of_bool (resolved (poll_exec ev p))"
  by (cases ev; cases "resolved p") (auto simp: poller_start_def check_done_def poll_def tryToLaunchUpdater_def Let_def
      split: check_future.splits sum.splits)

interpretation polling: machine poll_exec "\<lambda>_. True" "\<lambda>p. launches p \<le> of_bool (resolved p)"
  by unfold_locales (rule poll_exec_launches)

text \<open>However the interface starts and polls and whenever the check finishes: the updater is launched
  at most once, and only by a poll that settles the check.\<close>

theorem updater_launched_once:
  "launches (fold poll_exec evs poller_init) \<le> of_bool (resolved (fold poll_exec evs poller_init))"
  by (rule polling.run) (simp_all add: poller_init_def list.pred_True)

lemma poll_idle_run: "future p \<in> {NoFuture, Deferred} \<Longrightarrow> fold poll_exec (map Poll es) p = p"
  by (induction es) (auto simp: poll_def)

text \<open>One check, any number of polls after it is done: an update launches the updater if there is one and
  settles the check, no update settles it, an exception is thrown by the first poll and leaves the check
  unsettled for good, and a deferred check never settles.\<close>

theorem poll_outcomes:
  "(let p = check_done (r :: 'e + bool) (poller_start False poller_init); q = fold poll_exec (map Poll es) (snd (poll exists p))
    in case r of
         Inr newer \<Rightarrow> fst (poll exists p) = None \<and> resolved q \<and> launches q = of_bool (newer \<and> exists)
       | Inl e \<Rightarrow> fst (poll exists p) = Some e \<and> \<not> resolved q \<and> launches q = 0 \<and> future q = NoFuture)
   \<and> fold poll_exec (map Poll es) (poller_start True poller_init) = (poller_start True poller_init :: 'e update_poller)"
proof -
  have idle: "fold poll_exec (map Poll es) \<lparr>future = f, resolved = b, launches = n\<rparr>
      = (\<lparr>future = f, resolved = b, launches = n\<rparr> :: 'e update_poller)" if "f \<in> {NoFuture, Deferred}" for f b n
    by (rule poll_idle_run) (use that in simp)
  have f1: "fold poll_exec (map Poll es) (poller_start True poller_init) = (poller_start True poller_init :: 'e update_poller)"
    by (simp add: poller_start_def poller_init_def idle)
  have f2: "snd (poll exists (check_done (Inr newer) (poller_start False poller_init)))
      = (\<lparr>future = NoFuture, resolved = True, launches = of_bool (newer \<and> exists)\<rparr> :: 'e update_poller)" for newer
    by (simp add: check_done_def poller_start_def poller_init_def poll_def tryToLaunchUpdater_def Let_def)
  have f3: "snd (poll exists (check_done (Inl e) (poller_start False poller_init)))
      = (\<lparr>future = NoFuture, resolved = False, launches = 0\<rparr> :: 'e update_poller)" for e
    by (simp add: check_done_def poller_start_def poller_init_def poll_def Let_def)
  have f4: "fst (poll exists (check_done (Inr newer) (poller_start False poller_init :: 'e update_poller))) = None" for newer
    by (simp add: check_done_def poller_start_def poller_init_def poll_def Let_def)
  have f5: "fst (poll exists (check_done (Inl e) (poller_start False poller_init :: 'e update_poller))) = Some e" for e
    by (simp add: check_done_def poller_start_def poller_init_def poll_def Let_def)
  show ?thesis
  proof (cases r)
    case (Inl e)
    show ?thesis using f3 [of e] f5 [of e] by (simp add: Inl Let_def f1 idle)
  next
    case (Inr newer)
    show ?thesis using f2 [of newer] f4 [of newer] by (simp add: Inr Let_def f1 idle)
  qed
qed

end
