(* ===== verification/HttpDownload.thy ===== *)
theory HttpDownload
  imports StdText
begin

text \<open>
  \<open>src/network/helpers/HTTPDownloader.cpp\<close>: a blocking HTTP/1.0 GET. The socket is the outcome of the
  connection attempts and the chunks in which the response arrives before the end of the stream
  (closed or failed: the code does not tell them apart).
\<close>

definition CRLF :: string where "CRLF = [CHR 0x0D, CHR 0x0A]"

datatype http_error =
    NotConnected
  | UnexpectedEof
  | NotAFile

text \<open>The request.\<close>

definition http_request :: "string \<Rightarrow> string \<Rightarrow> string" where
  "http_request serverName getCommand =
     ''GET '' @ getCommand @ '' HTTP/1.0'' @ CRLF @
     ''Host: '' @ serverName @ CRLF @
     ''Accept: */*'' @ CRLF @
     ''Connection: close'' @ CRLF @ CRLF"

text \<open>The endpoints are tried in order, \<open>True\<close> for one that accepts: is the socket connected at the end?\<close>

fun connect_loop :: "bool list \<Rightarrow> bool" where
  "connect_loop [] = False"
| "connect_loop (accepts # endpoints) = (if accepts then True else connect_loop endpoints)"

text \<open>\<open>asio::read_until\<close>: take chunks until the buffer holds the delimiter; \<open>None\<close>: end of stream before it.\<close>

fun read_until :: "string \<Rightarrow> string \<Rightarrow> string list \<Rightarrow> (string \<times> string list) option" where
  "read_until d buf [] = (if contains_str d buf then Some (buf, []) else None)"
| "read_until d buf (c # cs) =
     (if contains_str d buf then Some (buf, c # cs) else read_until d (buf @ c) cs)"

text \<open>The header loop: whether some header holds \<open>Content-Length\<close>, and the stream after it.\<close>

function header_loop :: "bool \<Rightarrow> istream \<Rightarrow> bool \<times> istream" where
  "header_loop hasContentLengthHeader st =
     (case read_line st of
        (None, st') \<Rightarrow> (hasContentLengthHeader, st')
      | (Some headerTmp, st') \<Rightarrow>
          if headerTmp = [CHR 0x0D] then (hasContentLengthHeader, st')
          else header_loop
                 (if \<not> hasContentLengthHeader then contains_str ''Content-Length'' headerTmp else True) st')"
  by pat_completeness auto
termination
proof (relation "measure (\<lambda>(h, st). length (sbuf st))", goal_cases)
  case 1
  show ?case by simp
next
  case (2 h st p st' l)
  have "length (tl (dropWhile P s)) < length s" if "s \<noteq> []" for P and s :: string
    using length_dropWhile_le [of P s] length_greater_0_conv [of s] that unfolding length_tl by linarith
  with 2 show ?case by (auto simp: read_line_def Let_def split: if_splits)
qed

declare header_loop.simps [simp del]

definition DownloadHTTPFile :: "bool list \<Rightarrow> string list \<Rightarrow> http_error + string" where
  "DownloadHTTPFile endpoints chunks =
     (if \<not> connect_loop endpoints then Inl NotConnected
      else case read_until CRLF [] chunks of
        None \<Rightarrow> Inl UnexpectedEof
      | Some (response, chunks) \<Rightarrow>
          let st = \<lparr>sbuf = response, good = True\<rparr>;
              (http_version, st) = read_word st;
              (status_code, st) = read_unsigned st;
              (status_message, st) = read_line st
          in case read_until (CRLF @ CRLF) (sbuf st) chunks of
               None \<Rightarrow> Inl UnexpectedEof
             | Some (response, chunks) \<Rightarrow>
                 let st = st\<lparr>sbuf := response\<rparr>;
                     (hasContentLengthHeader, st) = header_loop False st
                 in if \<not> hasContentLengthHeader then Inl NotAFile
                    else Inr (sbuf st @ concat chunks))"

section \<open>Reading up to a delimiter\<close>

lemma read_until_found:
  assumes "contains_str d (buf @ concat cs)"
  shows "\<exists>buf' cs'. read_until d buf cs = Some (buf', cs') \<and> buf' @ concat cs' = buf @ concat cs \<and> contains_str d buf'"
  using assms by (induction d buf cs rule: read_until.induct) auto

text \<open>Whatever the chunks: the buffer holds the text up to the first delimiter, and something of the rest.\<close>

lemma read_until_first:
  assumes "buf @ concat cs = a @ r" and "contains_str d a" and "\<not> contains_str d (butlast a)" and "a \<noteq> []"
  shows "\<exists>x cs'. read_until d buf cs = Some (a @ x, cs') \<and> x @ concat cs' = r"
proof -
  have "sublist a (a @ r)" by simp
  with assms(1,2) have "contains_str d (buf @ concat cs)"
    unfolding contains_str_iff by (metis sublist_order.order.trans)
  then obtain buf' cs' where b: "read_until d buf cs = Some (buf', cs')" "buf' @ concat cs' = a @ r" "contains_str d buf'"
    using read_until_found assms(1) by metis
  have "prefix buf' (a @ r)" using b(2) by (metis prefixI)
  from prefix_of_first [OF this b(3) assms(3,4)] obtain x where "buf' = a @ x" by (auto simp: prefix_def)
  with b show ?thesis by auto
qed

section \<open>The response a server sends\<close>

definition status_line :: "string \<Rightarrow> nat \<Rightarrow> string \<Rightarrow> string" where
  "status_line version code message = version @ '' '' @ to_string code @ '' '' @ message"

definition status_ok :: "string \<Rightarrow> nat \<Rightarrow> string \<Rightarrow> bool" where
  "status_ok version code message \<longleftrightarrow> version \<noteq> [] \<and> (\<forall>c \<in> set version. \<not> is_space c) \<and> code < 2 ^ 32
     \<and> CHR 0x0A \<notin> set message"

definition header_ok :: "string \<Rightarrow> bool" where
  "header_ok h \<longleftrightarrow> h \<noteq> [] \<and> CHR 0x0D \<notin> set h \<and> CHR 0x0A \<notin> set h"

definition headers_text :: "string list \<Rightarrow> string" where
  "headers_text hs = concat (map (\<lambda>h. h @ CRLF) hs) @ CRLF"

lemma headers_text_simps [simp]:
  "headers_text [] = CRLF"
  "headers_text (h # hs) = h @ CRLF @ headers_text hs"
  by (simp_all add: headers_text_def)

lemma header_loop_headers:
  assumes "\<forall>h \<in> set hs. header_ok h"
  shows "header_loop b \<lparr>sbuf = headers_text hs @ s, good = True\<rparr>
       = (b \<or> (\<exists>h \<in> set hs. contains_str ''Content-Length'' (h @ [CHR 0x0D])), \<lparr>sbuf = s, good = True\<rparr>)"
  using assms
proof (induction hs arbitrary: b)
  case Nil
  show ?case
    using read_line_eq [of "[CHR 0x0D]" s] by (subst header_loop.simps) (simp add: CRLF_def)
next
  case (Cons h hs)
  have nl: "CHR 0x0A \<notin> set (h @ [CHR 0x0D])" and ne: "h @ [CHR 0x0D] \<noteq> [CHR 0x0D]"
    using Cons.prems by (auto simp: header_ok_def)
  have "read_line \<lparr>sbuf = headers_text (h # hs) @ s, good = True\<rparr>
      = (Some (h @ [CHR 0x0D]), \<lparr>sbuf = headers_text hs @ s, good = True\<rparr>)"
    using read_line_eq [OF nl, of "headers_text hs @ s"] by (simp add: CRLF_def)
  then show ?case
    using Cons.IH Cons.prems ne by (subst header_loop.simps) auto
qed

lemma no_blank_line_before_end:
  assumes "\<forall>h \<in> set hs. header_ok h" and "hs \<noteq> []"
  shows "\<not> contains_str (CRLF @ CRLF) (butlast (headers_text hs))"
proof -
  have b: "butlast (headers_text hs) = concat (map (\<lambda>h. h @ CRLF) hs) @ [CHR 0x0D]"
    by (simp add: headers_text_def CRLF_def butlast_append)
  have "\<not> contains_str (CRLF @ CRLF) (concat (map (\<lambda>h. h @ CRLF) hs) @ [CHR 0x0D])
      \<and> \<not> contains_str (CRLF @ CRLF) (CRLF @ concat (map (\<lambda>h. h @ CRLF) hs) @ [CHR 0x0D])
      \<or> hs = []"
    if "\<forall>h \<in> set hs. header_ok h" for hs
    using that
  proof (induction hs)
    case (Cons h hs)
    have skip: "contains_str (CRLF @ CRLF) (h @ t) = contains_str (CRLF @ CRLF) t" for t
      using Cons.prems contains_str_skip [of "CHR 0x0D" h _ t] by (simp add: CRLF_def header_ok_def)
    obtain c h' where h: "h = c # h'" "c \<noteq> CHR 0x0D" using Cons.prems by (cases h) (auto simp: header_ok_def)
    have empty: "\<not> contains_str (CRLF @ CRLF) (CRLF @ [CHR 0x0D])" by (simp add: CRLF_def)
    have rest: "\<not> contains_str (CRLF @ CRLF) (CRLF @ concat (map (\<lambda>h. h @ CRLF) hs) @ [CHR 0x0D])"
      using Cons empty by (cases "hs = []") auto
    have "\<not> contains_str (CRLF @ CRLF) (CRLF @ h @ t)" if "\<not> contains_str (CRLF @ CRLF) (h @ t)" for t
      using that h by (simp add: CRLF_def)
    with rest skip show ?case by simp
  qed simp
  with assms b show ?thesis by auto
qed

lemma first_line_end: "CHR 0x0A \<notin> set l \<Longrightarrow> \<not> contains_str CRLF (butlast (l @ CRLF))"
  using contains_str_chars [of CRLF "butlast (l @ CRLF)"] by (auto simp: CRLF_def butlast_append)

lemma is_digit_to_string: "c \<in> set (to_string n) \<Longrightarrow> is_digit c \<and> \<not> is_space c \<and> c \<noteq> CHR ''+'' \<and> c \<noteq> CHR ''-''"
proof -
  assume "c \<in> set (to_string n)"
  then obtain d where d: "d < 10" "c = digit_char d" using to_string_digits by blast
  have "list_all (\<lambda>d. is_digit (digit_char d) \<and> \<not> is_space (digit_char d) \<and> digit_char d \<noteq> CHR ''+''
      \<and> digit_char d \<noteq> CHR ''-'') [0..<10]"
    by code_simp
  with d show ?thesis by (simp add: list_all_iff)
qed

lemma read_word_eq:
  assumes "w \<noteq> []" and "\<forall>c \<in> set w. \<not> is_space c" and "is_space d"
  shows "read_word \<lparr>sbuf = w @ d # s, good = True\<rparr> = (Some w, \<lparr>sbuf = d # s, good = True\<rparr>)"
proof -
  have "dropWhile is_space (w @ d # s) = w @ d # s" using assms(1,2) by (cases w) auto
  moreover have "takeWhile (\<lambda>c. \<not> is_space c) (w @ d # s) = w" "dropWhile (\<lambda>c. \<not> is_space c) (w @ d # s) = d # s"
    using assms(2,3) by (simp_all add: takeWhile_append2 dropWhile_append2)
  ultimately show ?thesis using assms(1) by (simp add: read_word_def)
qed

lemma read_unsigned_eq:
  assumes "n < 2 ^ 32" and "\<not> is_digit d"
  shows "read_unsigned \<lparr>sbuf = CHR '' '' # to_string n @ d # s, good = True\<rparr> = (Some n, \<lparr>sbuf = d # s, good = True\<rparr>)"
proof -
  obtain c cs where c: "to_string n = c # cs" using to_string_nonempty [of n] by (cases "to_string n") auto
  have dig: "\<forall>c \<in> set (to_string n). is_digit c" using is_digit_to_string by blast
  have "is_space CHR '' ''" by (simp add: is_space_def)
  then have "skip_sign (dropWhile is_space (CHR '' '' # to_string n @ d # s)) = to_string n @ d # s"
    using is_digit_to_string [of c n] c by (simp add: skip_sign_def)
  moreover have "takeWhile is_digit (to_string n @ d # s) = to_string n" "dropWhile is_digit (to_string n @ d # s) = d # s"
    using dig assms(2) by (simp_all add: takeWhile_append2 dropWhile_append2)
  ultimately show ?thesis
    using assms(1) to_string_nonempty [of n] by (simp add: read_unsigned_def dec_value_to_string)
qed

text \<open>The shared core: what the function does with any well-formed response, however it is cut.\<close>

lemma download_response:
  assumes "True \<in> set endpoints" and "status_ok version code message"
    and "\<forall>h \<in> set hs. header_ok h" and "hs \<noteq> []"
    and "concat chunks = status_line version code message @ CRLF @ headers_text hs @ body"
  shows "DownloadHTTPFile endpoints chunks =
    (if \<exists>h \<in> set hs. contains_str ''Content-Length'' (h @ [CHR 0x0D]) then Inr body else Inl NotAFile)"
proof -
  let ?line = "status_line version code message"
  have conn: "connect_loop endpoints" using assms(1) by (induction endpoints) auto
  have dig: "CHR 0x0A \<notin> set (to_string code)"
    using is_digit_to_string [of "CHR 0x0A" code] by (auto simp: is_space_def)
  have "CHR 0x0A \<notin> set version" using assms(2) by (auto simp: status_ok_def is_space_def)
  with dig have nl: "CHR 0x0A \<notin> set ?line" using assms(2) by (simp add: status_line_def status_ok_def)
  have "contains_str CRLF (?line @ CRLF)" using contains_str_append [of CRLF ?line "[]"] by simp
  then obtain x cs where r1: "read_until CRLF [] chunks = Some ((?line @ CRLF) @ x, cs)" "x @ concat cs = headers_text hs @ body"
    using read_until_first [of "[]" chunks "?line @ CRLF" "headers_text hs @ body" CRLF] assms(5) first_line_end [OF nl]
    by (auto simp: CRLF_def)
  have w: "read_word \<lparr>sbuf = ?line @ CRLF @ x, good = True\<rparr>
      = (Some version, \<lparr>sbuf = CHR '' '' # to_string code @ CHR '' '' # message @ CRLF @ x, good = True\<rparr>)"
    using read_word_eq [of version "CHR '' ''" "to_string code @ CHR '' '' # message @ CRLF @ x"] assms(2)
    by (simp add: status_line_def status_ok_def is_space_def)
  have u: "read_unsigned \<lparr>sbuf = CHR '' '' # to_string code @ CHR '' '' # message @ CRLF @ x, good = True\<rparr>
      = (Some code, \<lparr>sbuf = CHR '' '' # message @ CRLF @ x, good = True\<rparr>)"
    using read_unsigned_eq [of code "CHR '' ''" "message @ CRLF @ x"] assms(2) by (simp add: status_ok_def is_digit_def)
  have "CHR 0x0A \<notin> set (CHR '' '' # message @ [CHR 0x0D])" using assms(2) by (simp add: status_ok_def)
  from read_line_eq [OF this, of x]
  have l: "read_line \<lparr>sbuf = CHR '' '' # message @ CRLF @ x, good = True\<rparr>
      = (Some (CHR '' '' # message @ [CHR 0x0D]), \<lparr>sbuf = x, good = True\<rparr>)"
    by (simp add: CRLF_def)
  obtain z zs where hs: "hs = zs @ [z]" using assms(4) by (cases hs rule: rev_cases) auto
  have "headers_text hs = (concat (map (\<lambda>h. h @ CRLF) zs) @ z) @ (CRLF @ CRLF) @ []" by (simp add: hs headers_text_def)
  then have "contains_str (CRLF @ CRLF) (headers_text hs)" by (metis contains_str_append)
  then obtain y cs' where r2: "read_until (CRLF @ CRLF) x cs = Some (headers_text hs @ y, cs')" "y @ concat cs' = body"
    using read_until_first [of x cs "headers_text hs" body "CRLF @ CRLF"] r1(2)
      no_blank_line_before_end [OF assms(3,4)]
    by (auto simp: headers_text_def CRLF_def)
  show ?thesis
    using header_loop_headers [OF assms(3), of False y] r2(2)
    by (simp add: DownloadHTTPFile_def conn r1(1) w u l r2(1) Let_def)
qed

lemma content_length_header:
  assumes "''Content-Length: '' @ to_string n \<in> set hs"
  shows "\<exists>h \<in> set hs. contains_str ''Content-Length'' (h @ [CHR 0x0D])"
  using assms contains_str_append [of "''Content-Length''" "[]" "'': '' @ to_string n @ [CHR 0x0D]"]
  by (intro bexI [of _ "''Content-Length: '' @ to_string n"]) simp_all



text \<open>A response none of whose headers spells \<open>Content-Length\<close> in exactly this way (for instance
  \<open>content-length\<close>, or a chunked answer) is refused as not being a file.\<close>

theorem download_needs_content_length:
  assumes "True \<in> set endpoints" and "status_ok version code message"
    and "\<forall>h \<in> set hs. header_ok h \<and> \<not> contains_str ''Content-Length'' h" and "hs \<noteq> []"
    and "concat chunks = status_line version code message @ CRLF @ headers_text hs @ body"
  shows "DownloadHTTPFile endpoints chunks = Inl NotAFile"
proof -
  have "\<not> contains_str ''Content-Length'' (h @ [CHR 0x0D])" if "h \<in> set hs" for h
  proof
    assume "contains_str ''Content-Length'' (h @ [CHR 0x0D])"
    then have "sublist (''Content-Length'') h \<or> CHR 0x0D \<in> set ''Content-Length''"
      by (auto simp: contains_str_iff sublist_append suffix_def prefix_Cons append_eq_Cons_conv Cons_eq_append_conv
          dest: sublist_length_le)
    with assms(3) that show False by (simp add: contains_str_iff)
  qed
  with download_response [OF assms(1,2) _ assms(4,5)] assms(3) show ?thesis by auto
qed

theorem download_needs_content_length_witness:
  "DownloadHTTPFile [True] [''HTTP/1.1 200 OK'' @ CRLF @ ''content-length: 4'' @ CRLF @ CRLF, ''data''] = Inl NotAFile"
proof -
  have d: "to_string 200 = ''200''" by code_simp
  show ?thesis
    by (rule download_needs_content_length [where version = "''HTTP/1.1''" and code = 200 and message = "''OK''"
          and hs = "[''content-length: 4'']" and body = "''data''"])
       (simp_all add: d status_ok_def status_line_def header_ok_def CRLF_def is_space_def)
qed

end
