(* ===== verification/FileContext.thy ===== *)
theory FileContext
  imports US_Prelude "HOL-Library.Sublist"
begin

text \<open>
  \<open>src/base/Context.hpp\<close>: the directory in which an instance of the application keeps its files, and
  the class through which other parts use it. The file system is a map from paths (lists of plain
  components, no \<open>..\<close>) to directories and files.
\<close>

section \<open>The file system\<close>

type_synonym path = "string list"

datatype node = Directory | RegularFile "byte list"

type_synonym file_system = "path \<rightharpoonup> node"

definition fs_exists :: "file_system \<Rightarrow> path \<Rightarrow> bool" where
  "fs_exists fs p \<longleftrightarrow> fs p \<noteq> None"

definition is_directory :: "file_system \<Rightarrow> path \<Rightarrow> bool" where
  "is_directory fs p \<longleftrightarrow> fs p = Some Directory"

text \<open>\<open>fs::create_directories\<close>: every missing prefix becomes a directory; a file in the way throws.\<close>

fun create_below :: "path \<Rightarrow> path \<Rightarrow> file_system \<Rightarrow> file_system option" where
  "create_below p [] fs = Some fs"
| "create_below p (c # cs) fs =
     (case fs (p @ [c]) of
        None \<Rightarrow> create_below (p @ [c]) cs (fs(p @ [c] \<mapsto> Directory))
      | Some Directory \<Rightarrow> create_below (p @ [c]) cs fs
      | Some (RegularFile _) \<Rightarrow> None)"

definition create_directories :: "path \<Rightarrow> file_system \<Rightarrow> file_system option" where
  "create_directories p fs = create_below [] p fs"

definition remove_all :: "path \<Rightarrow> file_system \<Rightarrow> file_system" where
  "remove_all p fs = (\<lambda>q. if prefix p q then None else fs q)"

text \<open>
  An \<open>ofstream\<close> on a path: opens, and truncates, when the parent is a directory and the path is not
  one; otherwise the stream is bad and what is written to it is dropped without an error.
\<close>

definition write_file :: "path \<Rightarrow> byte list \<Rightarrow> file_system \<Rightarrow> file_system" where
  "write_file p bs fs =
     (if p \<noteq> [] \<and> is_directory fs (butlast p) \<and> \<not> is_directory fs p then fs(p \<mapsto> RegularFile bs) else fs)"

text \<open>An \<open>ifstream\<close> on a path: the file's bytes, none when it cannot be opened.\<close>

definition read_file :: "file_system \<Rightarrow> path \<Rightarrow> byte list" where
  "read_file fs p = (case fs p of Some (RegularFile bs) \<Rightarrow> bs | _ \<Rightarrow> [])"

text \<open>\<open>path::string\<close> of an absolute path other than the root.\<close>

definition path_string :: "path \<Rightarrow> string" where
  "path_string p = concat (map (\<lambda>c. CHR ''/'' # c) p)"

text \<open>Whatever exists has directories above it.\<close>

definition fs_ok :: "file_system \<Rightarrow> bool" where
  "fs_ok fs \<longleftrightarrow> fs [] = Some Directory \<and> (\<forall>p q. fs q \<noteq> None \<and> strict_prefix p q \<longrightarrow> fs p = Some Directory)"

lemma fs_ok_parent: "fs_ok fs \<Longrightarrow> fs q \<noteq> None \<Longrightarrow> strict_prefix p q \<Longrightarrow> fs p = Some Directory"
  by (auto simp: fs_ok_def)

lemma strict_prefix_snoc: "strict_prefix p (q @ [c]) \<longleftrightarrow> prefix p q"
  by (auto simp: strict_prefix_def prefix_snoc)

lemma fs_ok_add:
  assumes "fs_ok fs" and "fs p = Some Directory" and "fs (p @ [c]) \<noteq> Some Directory"
  shows "fs_ok (fs(p @ [c] \<mapsto> n))"
proof -
  have up: "fs q = Some Directory" if "prefix q p" for q
    using that assms(1,2) fs_ok_parent [of fs p q] by (cases "q = p") (auto simp: strict_prefix_def)
  have key: "(fs(p @ [c] \<mapsto> n)) q = Some Directory"
    if "(fs(p @ [c] \<mapsto> n)) r \<noteq> None" and "strict_prefix q r" for q r
  proof (cases "r = p @ [c]")
    case True
    then have "prefix q p" using that(2) by (simp add: strict_prefix_snoc)
    then show ?thesis using up by (auto simp: prefix_def)
  next
    case False
    then have "fs r \<noteq> None" using that(1) by simp
    then have "fs q = Some Directory" by (rule fs_ok_parent [OF assms(1) _ that(2)])
    with assms(3) show ?thesis by auto
  qed
  have "(fs(p @ [c] \<mapsto> n)) [] = Some Directory" using assms(1) by (simp add: fs_ok_def)
  with key show ?thesis unfolding fs_ok_def by blast
qed

lemma create_below_ok:
  assumes "create_below p cs fs = Some fs'" and "fs_ok fs" and "fs p = Some Directory"
  shows "fs_ok fs' \<and> fs' (p @ cs) = Some Directory \<and> (\<forall>q. fs q \<noteq> None \<longrightarrow> fs' q = fs q)
    \<and> (\<forall>q. fs' q \<noteq> fs q \<longrightarrow> prefix q (p @ cs))"
  using assms
proof (induction p cs fs arbitrary: fs' rule: create_below.induct)
  case (1 p fs)
  then show ?case by simp
next
  case (2 p c cs fs)
  show ?case
  proof (cases "fs (p @ [c])")
    case None
    let ?fs = "fs(p @ [c] \<mapsto> Directory)"
    have ok: "fs_ok ?fs" using fs_ok_add [OF 2(4,5)] None by simp
    have cb: "create_below (p @ [c]) cs ?fs = Some fs'" using 2(3) None by simp
    have "?fs (p @ [c]) = Some Directory" by simp
    from 2(1) [OF None cb ok this]
    have IH: "fs_ok fs' \<and> fs' ((p @ [c]) @ cs) = Some Directory \<and> (\<forall>q. ?fs q \<noteq> None \<longrightarrow> fs' q = ?fs q)
      \<and> (\<forall>q. fs' q \<noteq> ?fs q \<longrightarrow> prefix q ((p @ [c]) @ cs))" .
    have old: "?fs q = fs q" if "fs q \<noteq> None" for q using that None by auto
    have "prefix q (p @ c # cs)" if "fs' q \<noteq> fs q" for q
      using IH that by (cases "q = p @ [c]") auto
    with IH old show ?thesis by (metis append.assoc append_Cons append_Nil)
  next
    case (Some n)
    then have n: "n = Directory" using 2(3) by (cases n) auto
    have "create_below (p @ [c]) cs fs = Some fs'" using 2(3) Some n by simp
    from 2(2) [OF Some n this 2(4)] Some n show ?thesis by simp
  qed
qed

lemma create_directories_ok:
  assumes "create_directories p fs = Some fs'" and "fs_ok fs"
  shows "fs_ok fs'" and "is_directory fs' p" and "\<And>q. fs q \<noteq> None \<Longrightarrow> fs' q = fs q"
    and "\<And>q. fs' q \<noteq> fs q \<Longrightarrow> prefix q p"
  using create_below_ok [of "[]" p fs fs'] assms
  by (auto simp: create_directories_def fs_ok_def is_directory_def)

lemma create_below_existing:
  "(\<And>q. prefix q cs \<Longrightarrow> fs (p @ q) = Some Directory) \<Longrightarrow> create_below p cs fs = Some fs"
proof (induction p cs fs rule: create_below.induct)
  case (2 p c cs fs)
  have "fs (p @ [c]) = Some Directory" using 2(3) [of "[c]"] by simp
  moreover have "\<And>q. prefix q cs \<Longrightarrow> fs ((p @ [c]) @ q) = Some Directory"
    using 2(3) [of "c # _"] by simp
  ultimately show ?case using 2(2) [of Directory] by simp
qed simp

lemma create_directories_existing:
  assumes "fs_ok fs" and "is_directory fs p"
  shows "create_directories p fs = Some fs"
  unfolding create_directories_def
proof (rule create_below_existing)
  fix q assume "prefix q p"
  then show "fs ([] @ q) = Some Directory"
    using assms fs_ok_parent [of fs p q] by (cases "q = p") (auto simp: is_directory_def strict_prefix_def)
qed

lemma remove_all_ok: "fs_ok fs \<Longrightarrow> p \<noteq> [] \<Longrightarrow> fs_ok (remove_all p fs)"
  unfolding fs_ok_def remove_all_def by (metis prefix_order.trans prefix_Nil strict_prefix_def)

lemma write_file_ok: "fs_ok fs \<Longrightarrow> fs_ok (write_file p bs fs)"
  using fs_ok_add [of fs "butlast p" "last p" "RegularFile bs"]
  by (auto simp: write_file_def is_directory_def)

lemma write_file_other: "q \<noteq> p \<Longrightarrow> write_file p bs fs q = fs q"
  by (simp add: write_file_def)

lemma write_file_same: "p \<noteq> [] \<Longrightarrow> is_directory fs (butlast p) \<Longrightarrow> \<not> is_directory fs p \<Longrightarrow>
    write_file p bs fs p = Some (RegularFile bs)"
  by (simp add: write_file_def)

section \<open>Contexts\<close>

datatype predefined_environment = ENV_UNKNOWN | ENV_DEFAULT | ENV_RANDOM | ENV_CUSTOM

record app_context =
  env :: predefined_environment
  pathToContext :: path

datatype context_error = StdException | FilesystemError

definition directoryExists :: "path \<Rightarrow> file_system \<Rightarrow> bool" where
  "directoryExists p fs \<longleftrightarrow> fs_exists fs p \<and> is_directory fs p"

definition context_new :: "predefined_environment \<Rightarrow> path \<Rightarrow> file_system \<Rightarrow> context_error + app_context" where
  "context_new e p fs =
     (if \<not> directoryExists p fs then Inl StdException else Inr \<lparr>env = e, pathToContext = p\<rparr>)"

definition context_destroy :: "app_context \<Rightarrow> file_system \<Rightarrow> file_system" where
  "context_destroy c fs = (if env c = ENV_RANDOM then remove_all (pathToContext c) fs else fs)"

definition APP_NAME :: string where "APP_NAME = ''UnderStory''"

text \<open>The Linux branch.\<close>

definition getDefaultContextPath :: "file_system \<Rightarrow> context_error + path \<times> file_system" where
  "getDefaultContextPath fs =
     (let p = [''usr'', ''share'', APP_NAME]
      in case create_directories p fs of None \<Rightarrow> Inl FilesystemError | Some fs \<Rightarrow> Inr (p, fs))"

definition getCustomContextPath :: "string \<Rightarrow> file_system \<Rightarrow> context_error + path \<times> file_system" where
  "getCustomContextPath customContextName fs =
     (case getDefaultContextPath fs of
        Inl e \<Rightarrow> Inl e
      | Inr (p, fs) \<Rightarrow>
          let p = p @ [''_CC'', customContextName]
          in case create_directories p fs of None \<Rightarrow> Inl FilesystemError | Some fs \<Rightarrow> Inr (p, fs))"

text \<open>
  The loop over random draws (\<open>None\<close>: the draws given are used up). The distribution is asked for
  the range from 1 to \<open>UINT_MAX\<close> converted to \<open>int\<close>, that is to -1; a draw is any number.
\<close>

fun getTemporaryPath :: "path \<Rightarrow> nat list \<Rightarrow> file_system \<Rightarrow> (context_error + path \<times> file_system) option" where
  "getTemporaryPath tmp_dir_path [] fs = None"
| "getTemporaryPath tmp_dir_path (d # draws) fs =
     (let randomPath = tmp_dir_path @ [to_string d]
      in case create_directories randomPath fs of
           None \<Rightarrow> Some (Inl FilesystemError)
         | Some fs \<Rightarrow>
             if \<not> directoryExists randomPath fs then getTemporaryPath tmp_dir_path draws fs
             else Some (Inr (randomPath, fs)))"

definition bind_context :: "predefined_environment \<Rightarrow> context_error + path \<times> file_system \<Rightarrow>
    context_error + app_context \<times> file_system" where
  "bind_context e r =
     (case r of Inl x \<Rightarrow> Inl x
      | Inr (p, fs) \<Rightarrow> (case context_new e p fs of Inl x \<Rightarrow> Inl x | Inr c \<Rightarrow> Inr (c, fs)))"

definition context_normal :: "file_system \<Rightarrow> context_error + app_context \<times> file_system" where
  "context_normal fs = bind_context ENV_DEFAULT (getDefaultContextPath fs)"

definition context_random :: "path \<Rightarrow> nat list \<Rightarrow> file_system \<Rightarrow> (context_error + app_context \<times> file_system) option" where
  "context_random tmp draws fs = map_option (bind_context ENV_RANDOM) (getTemporaryPath tmp draws fs)"

definition context_custom :: "string \<Rightarrow> file_system \<Rightarrow> context_error + app_context \<times> file_system" where
  "context_custom customContextName fs = bind_context ENV_CUSTOM (getCustomContextPath customContextName fs)"

text \<open>
  \<open>ContextImplementation\<close>: the constructor copies the context and creates the subfolders; the copy is
  destroyed like any other context.
\<close>

fun create_subfolders :: "path \<Rightarrow> string list \<Rightarrow> file_system \<Rightarrow> context_error + file_system" where
  "create_subfolders p [] fs = Inr fs"
| "create_subfolders p (subfolder # others) fs =
     (let concat = p @ [subfolder]
      in case create_directories concat fs of
           None \<Rightarrow> Inl FilesystemError
         | Some fs \<Rightarrow> if \<not> fs_exists fs concat then Inl StdException else create_subfolders p others fs)"

definition context_implementation :: "app_context \<Rightarrow> string list \<Rightarrow> file_system \<Rightarrow> context_error + app_context \<times> file_system" where
  "context_implementation c linkedSubfolders fs =
     (case create_subfolders (pathToContext c) linkedSubfolders fs of
        Inl e \<Rightarrow> Inl e | Inr fs \<Rightarrow> Inr (c, fs))"

section \<open>Where contexts live\<close>

lemma bind_context_Inr:
  "bind_context e r = Inr (c, fs) \<Longrightarrow> r = Inr (pathToContext c, fs) \<and> env c = e \<and> is_directory fs (pathToContext c)"
  by (auto simp: bind_context_def context_new_def directoryExists_def split: sum.splits if_splits)

lemma default_path:
  "getDefaultContextPath fs = Inr (p, fs') \<Longrightarrow>
     p = [''usr'', ''share'', APP_NAME] \<and> create_directories p fs = Some fs'"
  by (auto simp: getDefaultContextPath_def Let_def split: option.splits)

lemma custom_path:
  "getCustomContextPath n fs = Inr (p, fs') \<Longrightarrow> \<exists>fs1. p = [''usr'', ''share'', APP_NAME, ''_CC'', n]
     \<and> create_directories [''usr'', ''share'', APP_NAME] fs = Some fs1 \<and> create_directories p fs1 = Some fs'"
  by (auto simp: getCustomContextPath_def Let_def split: option.splits sum.splits dest!: default_path)

lemma temporary_path:
  assumes "getTemporaryPath tmp (d # ds) fs = Some (Inr (p, fs'))" and "fs_ok fs"
  shows "p = tmp @ [to_string d] \<and> create_directories p fs = Some fs'"
proof (cases "create_directories (tmp @ [to_string d]) fs")
  case None
  with assms(1) show ?thesis by simp
next
  case (Some fs1)
  have "directoryExists (tmp @ [to_string d]) fs1"
    using create_directories_ok(2) [OF Some assms(2)]
    by (simp add: directoryExists_def fs_exists_def is_directory_def)
  with assms(1) Some show ?thesis by simp
qed

text \<open>What creating a context leaves alone: nothing that existed changes, new nodes are above its path.\<close>

definition only_adds :: "path \<Rightarrow> file_system \<Rightarrow> file_system \<Rightarrow> bool" where
  "only_adds p fs fs' \<longleftrightarrow> (\<forall>q. fs q \<noteq> None \<longrightarrow> fs' q = fs q) \<and> (\<forall>q. fs' q \<noteq> fs q \<longrightarrow> prefix q p)"

lemma create_only_adds: "create_directories p fs = Some fs' \<Longrightarrow> fs_ok fs \<Longrightarrow> fs_ok fs' \<and> only_adds p fs fs'"
  unfolding only_adds_def by (intro conjI allI impI) (erule (1) create_directories_ok(1,3,4); assumption?)+

lemma only_adds_trans: "only_adds p fs fs1 \<Longrightarrow> only_adds q fs1 fs2 \<Longrightarrow> prefix p q \<Longrightarrow> only_adds q fs fs2"
  unfolding only_adds_def by (intro conjI allI impI) (metis, metis prefix_order.trans)

text \<open>The application's own context, a custom one and a random one each live in the directory that their
  name says; creating one yields a well-formed file system in which that directory exists, nothing that
  existed has changed, and everything new lies on the way to it.\<close>

theorem context_places:
  assumes "fs_ok fs"
  shows "(context_normal fs = Inr (c, fs') \<longrightarrow> pathToContext c = [''usr'', ''share'', APP_NAME] \<and> env c = ENV_DEFAULT
        \<and> fs_ok fs' \<and> is_directory fs' (pathToContext c) \<and> only_adds (pathToContext c) fs fs')
    \<and> (context_custom n fs = Inr (c, fs') \<longrightarrow> pathToContext c = [''usr'', ''share'', APP_NAME, ''_CC'', n]
        \<and> env c = ENV_CUSTOM
        \<and> fs_ok fs' \<and> is_directory fs' (pathToContext c) \<and> only_adds (pathToContext c) fs fs')
    \<and> (context_random tmp (d # ds) fs = Some (Inr (c, fs')) \<longrightarrow> pathToContext c = tmp @ [to_string d]
        \<and> env c = ENV_RANDOM
        \<and> fs_ok fs' \<and> is_directory fs' (pathToContext c) \<and> only_adds (pathToContext c) fs fs')"
proof (rule conjI [OF impI conjI [OF impI impI]], goal_cases)
  case 1
  then have "getDefaultContextPath fs = Inr (pathToContext c, fs')" "env c = ENV_DEFAULT" "is_directory fs' (pathToContext c)"
    using bind_context_Inr by (auto simp: context_normal_def)
  with default_path [OF this(1)] create_only_adds assms show ?case by blast
next
  case 2
  then have p: "getCustomContextPath n fs = Inr (pathToContext c, fs')" "env c = ENV_CUSTOM" "is_directory fs' (pathToContext c)"
    using bind_context_Inr by (auto simp: context_custom_def)
  from custom_path [OF p(1)] obtain fs1 where fs1: "pathToContext c = [''usr'', ''share'', APP_NAME, ''_CC'', n]"
    "create_directories [''usr'', ''share'', APP_NAME] fs = Some fs1" "create_directories (pathToContext c) fs1 = Some fs'"
    by blast
  have "prefix [''usr'', ''share'', APP_NAME] (pathToContext c)" by (simp add: fs1(1))
  with fs1 p create_only_adds [OF fs1(2) assms] create_only_adds [OF fs1(3)] show ?case
    using only_adds_trans by blast
next
  case 3
  then have p: "getTemporaryPath tmp (d # ds) fs = Some (Inr (pathToContext c, fs'))" "env c = ENV_RANDOM"
    "is_directory fs' (pathToContext c)"
    using bind_context_Inr by (auto simp: context_random_def)
  with temporary_path [OF p(1) assms] create_only_adds assms show ?case by blast
qed

definition empty_disk :: file_system where
  "empty_disk = [[] \<mapsto> Directory]"

lemma empty_disk_ok: "fs_ok empty_disk"
  by (auto simp: fs_ok_def empty_disk_def split: if_splits)

theorem context_places_witness:
  "\<exists>c fs'. context_random [''tmp''] [7] empty_disk = Some (Inr (c, fs'))
     \<and> pathToContext c = [''tmp'', to_string 7] \<and> is_directory fs' (pathToContext c)"
proof -
  define fs' where "fs' = empty_disk([''tmp''] \<mapsto> Directory, [''tmp'', to_string 7] \<mapsto> Directory)"
  define c where "c = \<lparr>env = ENV_RANDOM, pathToContext = [''tmp'', to_string 7]\<rparr>"
  have "context_random [''tmp''] [7] empty_disk = Some (Inr (c, fs'))"
    by (simp add: context_random_def bind_context_def context_new_def directoryExists_def fs_exists_def
        is_directory_def create_directories_def empty_disk_def fs'_def c_def Let_def)
  with context_places [OF empty_disk_ok, of c fs' "[]" "[''tmp'']" 7 "[]"] show ?thesis by auto
qed

text \<open>Random contexts need not be distinct, and any copy's destructor removes the directory: when the
  drawn directory exists already, \<open>random()\<close> adopts it with all its content; and destroying one copy of a
  random context leaves no file, so no directory, to the others.\<close>

theorem random_context_shared:
  assumes "fs_ok fs" and "is_directory fs (tmp @ [to_string d])"
  shows "\<exists>c. context_random tmp (d # ds) fs = Some (Inr (c, fs))
    \<and> (\<forall>q. prefix (pathToContext c) q \<longrightarrow> context_destroy c fs q = None)
    \<and> \<not> directoryExists (pathToContext c) (context_destroy c fs)"
proof -
  define c where "c = \<lparr>env = ENV_RANDOM, pathToContext = tmp @ [to_string d]\<rparr>"
  have e: "directoryExists (tmp @ [to_string d]) fs"
    using assms(2) by (simp add: directoryExists_def fs_exists_def is_directory_def)
  then have "context_random tmp (d # ds) fs = Some (Inr (c, fs))"
    by (simp add: context_random_def bind_context_def context_new_def Let_def c_def
        create_directories_existing [OF assms])
  moreover have "context_destroy c fs q = None" if "prefix (pathToContext c) q" for q
    using that by (simp add: context_destroy_def c_def remove_all_def)
  moreover from this have "\<not> directoryExists (pathToContext c) (context_destroy c fs)"
    by (simp add: directoryExists_def fs_exists_def)
  ultimately show ?thesis by blast
qed

theorem random_context_shared_witness:
  "\<exists>c. context_random [] [7] (empty_disk([to_string 7] \<mapsto> Directory))
      = Some (Inr (c, empty_disk([to_string 7] \<mapsto> Directory)))
    \<and> \<not> directoryExists (pathToContext c) (context_destroy c (empty_disk([to_string 7] \<mapsto> Directory)))"
proof -
  have "fs_ok (empty_disk([to_string 7] \<mapsto> Directory))"
    using fs_ok_add [OF empty_disk_ok, of "[]" "to_string 7" Directory] by (simp add: empty_disk_def)
  moreover have "is_directory (empty_disk([to_string 7] \<mapsto> Directory)) ([] @ [to_string 7])"
    by (simp add: is_directory_def)
  ultimately show ?thesis using random_context_shared by blast
qed

lemma create_subfolders_ok:
  assumes "create_subfolders p subs fs = Inr fs'" and "fs_ok fs"
  shows "fs_ok fs' \<and> (\<forall>sub \<in> set subs. is_directory fs' (p @ [sub])) \<and> (\<forall>q. fs q \<noteq> None \<longrightarrow> fs' q = fs q)"
  using assms
proof (induction p subs fs arbitrary: fs' rule: create_subfolders.induct)
  case (1 p fs)
  then show ?case by simp
next
  case (2 p sub others fs)
  then obtain fs1 where fs1: "create_directories (p @ [sub]) fs = Some fs1" "create_subfolders p others fs1 = Inr fs'"
    "fs_exists fs1 (p @ [sub])"
    by (auto simp: Let_def split: option.splits if_splits)
  note c = create_directories_ok [OF fs1(1) 2(3)]
  have "fs_ok fs' \<and> (\<forall>sub \<in> set others. is_directory fs' (p @ [sub])) \<and> (\<forall>q. fs1 q \<noteq> None \<longrightarrow> fs' q = fs1 q)"
    using 2(1) [OF refl fs1(1) _ fs1(2) c(1)] fs1(3) by simp
  with c fs1(3) show ?case by (auto simp: is_directory_def)
qed

end
