(* ===== verification/Assets.thy ===== *)
theory Assets
  imports FileContext Fnv1a
begin

text \<open>
  \<open>src/core/FileIntegrator.hpp\<close> and \<open>AssetIntegrator.hpp\<close>: a file becomes an asset message named by the
  hash of its content; an asset context stores assets in its directory and finds them again. The
  protobuf parser and JSON printer and the image decoder are the parameters \<open>parse\<close>, \<open>to_json\<close>
  and \<open>stbi_load\<close>.
\<close>

section \<open>Messages and file names\<close>

record file_descriptor =
  descr_name :: string
  file_extension :: string
  fnv1a_hash :: u64

record file_message =
  file_description :: file_descriptor
  content :: "byte list"
  content_length :: "32 word"

record asset =
  asset_file :: file_message
  width :: "32 word"
  height :: "32 word"
  tags :: "string list"
  tool_tags :: "string list"

definition default_asset :: asset where
  "default_asset =
     \<lparr>asset_file = \<lparr>file_description = \<lparr>descr_name = [], file_extension = [], fnv1a_hash = 0\<rparr>,
        content = [], content_length = 0\<rparr>,
      width = 0, height = 0, tags = [], tool_tags = []\<rparr>"

text \<open>\<open>fs::path::stem\<close> and \<open>extension\<close> of a file name: split at the last dot, unless it comes first.\<close>

definition last_dot :: "string \<Rightarrow> nat" where
  "last_dot s = length s - Suc (length (takeWhile (\<lambda>c. c \<noteq> CHR ''.'') (rev s)))"

definition path_stem :: "string \<Rightarrow> string" where
  "path_stem s = (if CHR ''.'' \<notin> set s \<or> last_dot s = 0 \<or> s = ''..'' then s else take (last_dot s) s)"

definition path_extension :: "string \<Rightarrow> string" where
  "path_extension s = (if CHR ''.'' \<notin> set s \<or> last_dot s = 0 \<or> s = ''..'' then [] else drop (last_dot s) s)"

datatype asset_error = NoSuchFile | HashUndefined | NotPrintable | ContextFailed context_error

definition createFile :: "path \<Rightarrow> file_system \<Rightarrow> asset_error + file_message" where
  "createFile filePath fs =
     (if \<not> fs_exists fs filePath then Inl NoSuchFile
      else
        let fileContent = read_file fs filePath
        in case hash_64_fnv1a fileContent (word_of_nat (length fileContent)) of
             None \<Rightarrow> Inl HashUndefined
           | Some hash \<Rightarrow>
               let description = \<lparr>descr_name = path_stem (last filePath),
                     file_extension = path_extension (last filePath), fnv1a_hash = hash\<rparr>
               in Inr \<lparr>file_description = description, content = fileContent,
                       content_length = word_of_nat (length fileContent)\<rparr>)"

text \<open>When \<open>stbi_load\<close> fails it leaves \<open>x\<close> and \<open>y\<close> as they were: uninitialised, the argument \<open>junk\<close>.\<close>

definition createAsset :: "(byte list \<Rightarrow> (32 word \<times> 32 word) option) \<Rightarrow> 32 word \<times> 32 word \<Rightarrow> path \<Rightarrow> file_system \<Rightarrow>
    asset_error + asset" where
  "createAsset stbi_load junk filePath fs =
     (case createFile filePath fs of
        Inl e \<Rightarrow> Inl e
      | Inr file \<Rightarrow>
          let (x, y) = (case stbi_load (read_file fs filePath) of Some xy \<Rightarrow> xy | None \<Rightarrow> junk)
          in Inr (default_asset\<lparr>asset_file := file, width := x, height := y\<rparr>))"

section \<open>Asset contexts\<close>

type_synonym asset_database = "u64 \<rightharpoonup> asset"

record asset_context =
  inContext :: app_context
  database :: asset_database

definition resourcesFolder :: string where "resourcesFolder = ''resources''"
definition resourcesDbFile :: string where "resourcesDbFile = ''resources.json''"

definition asset_hash :: "asset \<Rightarrow> u64" where
  "asset_hash a = fnv1a_hash (file_description (asset_file a))"

definition assetFilePath :: "asset_context \<Rightarrow> asset \<Rightarrow> path" where
  "assetFilePath ac a =
     (let fileDescr = file_description (asset_file a);
          filename = to_string (unat (fnv1a_hash fileDescr)) @ file_extension fileDescr
      in pathToContext (inContext ac) @ [resourcesFolder, filename])"

definition asset_context_new :: "(byte list \<Rightarrow> asset_database) \<Rightarrow> app_context \<Rightarrow> file_system \<Rightarrow>
    asset_error + asset_context \<times> file_system" where
  "asset_context_new parse c fs =
     (case context_implementation c [resourcesFolder] fs of
        Inl e \<Rightarrow> Inl (ContextFailed e)
      | Inr (c, fs) \<Rightarrow>
          Inr (\<lparr>inContext = c, database = parse (read_file fs (pathToContext c @ [resourcesDbFile]))\<rparr>, fs))"

text \<open>\<open>stream >> string\<close>: the first word of the bytes.\<close>

definition space_byte :: "byte \<Rightarrow> bool" where
  "space_byte b \<longleftrightarrow> b = 32 \<or> (9 \<le> b \<and> b \<le> 13)"

definition first_word :: "byte list \<Rightarrow> byte list" where
  "first_word bs = takeWhile (\<lambda>b. \<not> space_byte b) (dropWhile space_byte bs)"

definition fetchAsset :: "u64 \<Rightarrow> asset_context \<Rightarrow> file_system \<Rightarrow> asset" where
  "fetchAsset fileId ac fs =
     (case database ac fileId of
        None \<Rightarrow> default_asset
      | Some asset \<Rightarrow>
          let assetFilePath = assetFilePath ac asset
          in if \<not> fs_exists fs assetFilePath then default_asset
             else
               let assetFileBytes = first_word (read_file fs assetFilePath)
               in asset\<lparr>asset_file := (asset_file asset)\<lparr>content := assetFileBytes\<rparr>\<rparr>)"

definition saveState :: "(asset_database \<Rightarrow> byte list option) \<Rightarrow> asset_context \<Rightarrow> file_system \<Rightarrow>
    asset_error option \<times> file_system" where
  "saveState to_json ac fs =
     (case to_json (database ac) of
        None \<Rightarrow> (Some NotPrintable, fs)
      | Some json \<Rightarrow> (None, write_file (pathToContext (inContext ac) @ [resourcesDbFile]) json fs))"

text \<open>The exception thrown, if any, with the state it leaves.\<close>

definition integrateAsset :: "(asset_database \<Rightarrow> byte list option) \<Rightarrow> asset \<Rightarrow> asset_context \<Rightarrow> file_system \<Rightarrow>
    asset_error option \<times> asset_context \<times> file_system" where
  "integrateAsset to_json asset ac fs =
     (let dest = assetFilePath ac asset;
          fs = write_file dest (content (asset_file asset)) fs;
          asset = asset\<lparr>asset_file := (asset_file asset)\<lparr>content := []\<rparr>\<rparr>;
          hash = asset_hash asset;
          ac = ac\<lparr>database := (if hash \<in> dom (database ac) then database ac else (database ac)(hash \<mapsto> asset))\<rparr>;
          (e, fs) = saveState to_json ac fs
      in (e, ac, fs))"

section \<open>Paths\<close>

text \<open>What \<open>fs::path::extension\<close> returns: empty, or from a dot on.\<close>

definition ext_ok :: "asset \<Rightarrow> bool" where
  "ext_ok a \<longleftrightarrow> (case file_extension (file_description (asset_file a)) of [] \<Rightarrow> True | c # _ \<Rightarrow> c = CHR ''.'')"

lemma last_dot_split:
  assumes "CHR ''.'' \<in> set s"
  shows "\<exists>x y. s = x @ CHR ''.'' # y \<and> CHR ''.'' \<notin> set y \<and> last_dot s = length x"
proof -
  obtain x y where s: "s = x @ CHR ''.'' # y" "CHR ''.'' \<notin> set y"
    using split_list_last [OF assms] by blast
  then have "takeWhile (\<lambda>c. c \<noteq> CHR ''.'') (rev s) = rev y"
    by (simp, subst takeWhile_append2) auto
  with s show ?thesis by (auto simp: last_dot_def)
qed

lemma stem_extension: "path_stem s @ path_extension s = s"
  by (simp add: path_stem_def path_extension_def)

lemma extension_dot: "path_extension s = [] \<or> (\<exists>y. path_extension s = CHR ''.'' # y \<and> CHR ''.'' \<notin> set y)"
  using last_dot_split [of s] by (auto simp: path_extension_def)

lemma digits_no_dot: "CHR ''.'' \<notin> set (to_string n)"
proof
  assume "CHR ''.'' \<in> set (to_string n)"
  then obtain d where "d < 10" "CHR ''.'' = digit_char d" using to_string_digits by blast
  moreover have "list_all (\<lambda>d. digit_char d \<noteq> CHR ''.'') [0..<10]" by code_simp
  ultimately show False by (auto simp: list_all_iff)
qed

lemma asset_name_inject:
  assumes "to_string m @ e = to_string n @ e'"
    and "case e of [] \<Rightarrow> True | c # _ \<Rightarrow> c = CHR ''.''" and "case e' of [] \<Rightarrow> True | c # _ \<Rightarrow> c = CHR ''.''"
  shows "m = n"
proof -
  have tw: "takeWhile (\<lambda>c. c \<noteq> CHR ''.'') (to_string k @ x) = to_string k"
    if "case x of [] \<Rightarrow> True | c # _ \<Rightarrow> c = CHR ''.''" for k x
  proof -
    have "takeWhile (\<lambda>c. c \<noteq> CHR ''.'') x = []" using that by (cases x) auto
    moreover have "\<forall>c \<in> set (to_string k). c \<noteq> CHR ''.''" using digits_no_dot by metis
    ultimately show ?thesis by (simp add: takeWhile_append2)
  qed
  have "to_string m = to_string n" using tw [OF assms(2), of m] tw [OF assms(3), of n] assms(1) by simp
  then show ?thesis by (simp add: to_string_inject)
qed

lemma asset_paths_differ:
  assumes "ext_ok a" and "ext_ok b" and "asset_hash a \<noteq> asset_hash b"
  shows "assetFilePath ac a \<noteq> assetFilePath ac b"
proof
  assume "assetFilePath ac a = assetFilePath ac b"
  then have "to_string (unat (asset_hash a)) @ file_extension (file_description (asset_file a))
      = to_string (unat (asset_hash b)) @ file_extension (file_description (asset_file b))"
    by (simp add: assetFilePath_def asset_hash_def Let_def)
  then have "unat (asset_hash a) = unat (asset_hash b)"
    using asset_name_inject assms(1,2) unfolding ext_ok_def by blast
  with assms(3) show False by (metis word_unat_eq_iff)
qed

lemma asset_path_not_db: "assetFilePath ac a \<noteq> pathToContext (inContext ac) @ [resourcesDbFile]"
  by (simp add: assetFilePath_def Let_def)

lemma butlast_assetFilePath [simp]: "butlast (assetFilePath ac a) = pathToContext (inContext ac) @ [resourcesFolder]"
  by (simp add: assetFilePath_def Let_def butlast_append)

lemma assetFilePath_more [simp]:
  "assetFilePath (ac\<lparr>database := d\<rparr>) a = assetFilePath ac a"
  "assetFilePath ac (a\<lparr>asset_file := (asset_file a)\<lparr>content := bs\<rparr>\<rparr>) = assetFilePath ac a"
  "asset_hash (a\<lparr>asset_file := (asset_file a)\<lparr>content := bs\<rparr>\<rparr>) = asset_hash a"
  "assetFilePath ac a \<noteq> []"
  by (simp_all add: assetFilePath_def asset_hash_def Let_def)

text \<open>The state after an integration: the file, the database, the saved database.\<close>

lemma integrateAsset_eq:
  "integrateAsset to_json a ac fs =
     (let ac' = ac\<lparr>database := (if asset_hash a \<in> dom (database ac) then database ac
             else (database ac)(asset_hash a \<mapsto> a\<lparr>asset_file := (asset_file a)\<lparr>content := []\<rparr>\<rparr>))\<rparr>;
          fs1 = write_file (assetFilePath ac a) (content (asset_file a)) fs
      in case to_json (database ac') of
           None \<Rightarrow> (Some NotPrintable, ac', fs1)
         | Some json \<Rightarrow> (None, ac', write_file (pathToContext (inContext ac) @ [resourcesDbFile]) json fs1))"
  by (simp add: integrateAsset_def saveState_def Let_def split: option.split)

lemma integrateAsset_database:
  "database (fst (snd (integrateAsset to_json a ac fs))) =
     (if asset_hash a \<in> dom (database ac) then database ac
      else (database ac)(asset_hash a \<mapsto> a\<lparr>asset_file := (asset_file a)\<lparr>content := []\<rparr>\<rparr>))"
  by (simp add: integrateAsset_eq Let_def split: option.split)

text \<open>Every path but the two it writes is left as it was.\<close>

lemma integrateAsset_frame:
  assumes "integrateAsset to_json a ac fs = (e, ac', fs')"
    and "q \<noteq> assetFilePath ac a" and "q \<noteq> pathToContext (inContext ac) @ [resourcesDbFile]"
  shows "fs' q = fs q"
  using assms by (auto simp: integrateAsset_eq Let_def write_file_other split: option.splits)

lemma integrateAsset_file:
  assumes "integrateAsset to_json a ac fs = (e, ac', fs')"
  shows "fs' (assetFilePath ac a) = write_file (assetFilePath ac a) (content (asset_file a)) fs (assetFilePath ac a)"
  using assms asset_path_not_db [of ac a]
  by (auto simp: integrateAsset_eq Let_def write_file_other split: option.splits)

section \<open>What asset contexts promise\<close>

text \<open>The directory for assets exists and the asset's own path is not a directory.\<close>

definition can_store :: "asset_context \<Rightarrow> file_system \<Rightarrow> asset \<Rightarrow> bool" where
  "can_store ac fs a \<longleftrightarrow> is_directory fs (pathToContext (inContext ac) @ [resourcesFolder])
     \<and> \<not> is_directory fs (assetFilePath ac a)"

text \<open>What is fetched depends on the database entry and on the bytes at its path only.\<close>

lemma fetchAsset_cong:
  assumes "database ac i = database ac' i" and "inContext ac = inContext ac'"
    and "\<And>a. database ac i = Some a \<Longrightarrow> fs (assetFilePath ac a) = fs' (assetFilePath ac a)"
  shows "fetchAsset i ac fs = fetchAsset i ac' fs'"
proof (cases "database ac i")
  case None
  with assms(1) show ?thesis by (simp add: fetchAsset_def)
next
  case (Some a)
  have "assetFilePath ac' a = assetFilePath ac a" using assms(2) by (simp add: assetFilePath_def)
  moreover have "database ac' i = Some a" using Some assms(1) by simp
  ultimately show ?thesis
    using assms(3) [OF Some] Some by (simp add: fetchAsset_def fs_exists_def read_file_def Let_def)
qed

lemma fetch_integrated:
  assumes "integrateAsset to_json a ac fs = (e, ac', fs')" and "can_store ac fs a"
    and "asset_hash a \<notin> dom (database ac)"
  shows "fetchAsset (asset_hash a) ac' fs'
       = a\<lparr>asset_file := (asset_file a)\<lparr>content := first_word (content (asset_file a))\<rparr>\<rparr>"
proof -
  let ?a = "a\<lparr>asset_file := (asset_file a)\<lparr>content := []\<rparr>\<rparr>"
  have ac': "ac' = ac\<lparr>database := (database ac)(asset_hash a \<mapsto> ?a)\<rparr>"
    using assms(1,3) by (auto simp: integrateAsset_eq Let_def split: option.splits)
  have stored: "fs' (assetFilePath ac a) = Some (RegularFile (content (asset_file a)))"
    using integrateAsset_file [OF assms(1)] assms(2) by (simp add: write_file_same can_store_def)
  have "assetFilePath ac' ?a = assetFilePath ac a" by (simp add: ac')
  with stored show ?thesis
    by (simp add: fetchAsset_def ac' fs_exists_def read_file_def Let_def)
qed

text \<open>C20: An asset integrated into a context that does not know its hash is found again, with all its
  fields, except that of its content only the first whitespace-delimited word comes back: the file is
  written whole but read with \<open>>>\<close>. An asset whose content has no whitespace comes back as it was.\<close>

theorem asset_roundtrip:
  assumes "integrateAsset to_json a ac fs = (e, ac', fs')" and "can_store ac fs a"
    and "asset_hash a \<notin> dom (database ac)"
  shows "fetchAsset (asset_hash a) ac' fs'
       = a\<lparr>asset_file := (asset_file a)\<lparr>content := first_word (content (asset_file a))\<rparr>\<rparr>
     \<and> ((\<forall>b \<in> set (content (asset_file a)). \<not> space_byte b) \<longrightarrow> fetchAsset (asset_hash a) ac' fs' = a)"
proof -
  have "first_word bs = bs" if "\<forall>b \<in> set bs. \<not> space_byte b" for bs
    using that by (cases bs) (auto simp: first_word_def takeWhile_eq_all_conv)
  then show ?thesis using fetch_integrated [OF assms] by simp
qed

text \<open>The start of every PNG file, up to its first space byte.\<close>

definition PNG_SIGNATURE :: "byte list" where
  "PNG_SIGNATURE = [0x89, 0x50, 0x4E, 0x47, 0x0D, 0x0A, 0x1A, 0x0A]"

definition sample_png :: asset where
  "sample_png = default_asset\<lparr>asset_file := \<lparr>file_description = \<lparr>descr_name = ''test'', file_extension = ''.png'',
      fnv1a_hash = 9008380550126030887\<rparr>, content = PNG_SIGNATURE @ [1, 2, 3], content_length = 11\<rparr>\<rparr>"

definition sample_context :: asset_context where
  "sample_context = \<lparr>inContext = \<lparr>env = ENV_DEFAULT, pathToContext = [''ctx'']\<rparr>, database = Map.empty\<rparr>"

definition sample_disk :: file_system where
  "sample_disk = empty_disk([''ctx''] \<mapsto> Directory, [''ctx'', resourcesFolder] \<mapsto> Directory)"

lemma sample_can_store: "file_extension (file_description (asset_file a)) = ''.png'' \<Longrightarrow> can_store sample_context sample_disk a"
  by (auto simp: can_store_def sample_context_def sample_disk_def is_directory_def assetFilePath_def empty_disk_def Let_def)

lemma sample_png_facts:
  "can_store sample_context sample_disk sample_png" "asset_hash sample_png \<notin> dom (database sample_context)"
  "asset_hash sample_png = 9008380550126030887" "content (asset_file sample_png) = PNG_SIGNATURE @ [1, 2, 3]"
  "content_length (asset_file sample_png) = 11"
proof -
  show "can_store sample_context sample_disk sample_png" by (rule sample_can_store) (simp add: sample_png_def)
qed (simp_all add: sample_png_def sample_context_def asset_hash_def)

theorem asset_roundtrip_witness:
  "\<exists>e ac' fs'. integrateAsset (\<lambda>_. Some []) sample_png sample_context sample_disk = (e, ac', fs')
     \<and> content (asset_file (fetchAsset 9008380550126030887 ac' fs')) = first_word (PNG_SIGNATURE @ [1, 2, 3])"
proof -
  obtain e ac' fs' where i: "integrateAsset (\<lambda>_. Some []) sample_png sample_context sample_disk = (e, ac', fs')"
    by (metis prod_cases3)
  with sample_png_facts asset_roundtrip [OF i] show ?thesis by auto
qed

text \<open>Every PNG image loses its content on the way: what is fetched is the first four bytes of its
  signature, while the message still states the full content length.\<close>

theorem png_truncated:
  assumes "integrateAsset to_json a ac fs = (e, ac', fs')" and "can_store ac fs a"
    and "asset_hash a \<notin> dom (database ac)" and "content (asset_file a) = PNG_SIGNATURE @ rest"
  shows "content (asset_file (fetchAsset (asset_hash a) ac' fs')) = [0x89, 0x50, 0x4E, 0x47]
    \<and> content_length (asset_file (fetchAsset (asset_hash a) ac' fs')) = content_length (asset_file a)"
  using fetch_integrated [OF assms(1-3)] assms(4)
  by (simp add: PNG_SIGNATURE_def first_word_def space_byte_def)

theorem png_truncated_witness:
  "\<exists>e ac' fs'. integrateAsset (\<lambda>_. Some []) sample_png sample_context sample_disk = (e, ac', fs')
     \<and> content (asset_file (fetchAsset 9008380550126030887 ac' fs')) = [0x89, 0x50, 0x4E, 0x47]
     \<and> content_length (asset_file (fetchAsset 9008380550126030887 ac' fs')) = 11"
proof -
  obtain e ac' fs' where i: "integrateAsset (\<lambda>_. Some []) sample_png sample_context sample_disk = (e, ac', fs')"
    by (metis prod_cases3)
  with sample_png_facts png_truncated [OF i] show ?thesis by metis
qed

text \<open>Assets of different hashes do not disturb each other, and integrating one touches nothing outside
  its context: only its own file and the database file change.\<close>

theorem assets_independent:
  assumes "integrateAsset to_json b ac fs = (e, ac', fs')"
    and "ext_ok a" and "ext_ok b" and "i \<noteq> asset_hash b"
    and "\<forall>a. database ac i = Some a \<longrightarrow> asset_hash a = i \<and> ext_ok a"
  shows "fetchAsset i ac' fs' = fetchAsset i ac fs
    \<and> (\<forall>q. \<not> prefix (pathToContext (inContext ac)) q \<longrightarrow> fs' q = fs q)"
proof -
  have ac': "database ac' i = database ac i" "inContext ac' = inContext ac"
    using assms(1,4) by (auto simp: integrateAsset_eq Let_def split: option.splits)
  have "fs' (assetFilePath ac' a) = fs (assetFilePath ac' a)" if "database ac' i = Some a" for a
  proof -
    have "asset_hash a \<noteq> asset_hash b" "ext_ok a" using assms(4,5) that ac'(1) by auto
    then have "assetFilePath ac a \<noteq> assetFilePath ac b" using asset_paths_differ assms(3) by blast
    moreover have "assetFilePath ac' a = assetFilePath ac a" using ac'(2) by (simp add: assetFilePath_def)
    ultimately show ?thesis using integrateAsset_frame [OF assms(1)] asset_path_not_db by metis
  qed
  then have "fetchAsset i ac' fs' = fetchAsset i ac fs" using ac' by (intro fetchAsset_cong) auto
  moreover have "fs' q = fs q" if "\<not> prefix (pathToContext (inContext ac)) q" for q
    using that by (intro integrateAsset_frame [OF assms(1)]) (auto simp: assetFilePath_def Let_def)
  ultimately show ?thesis by blast
qed

theorem assets_independent_witness:
  "\<exists>e ac' fs'. integrateAsset (\<lambda>_. Some []) sample_png sample_context sample_disk = (e, ac', fs')
     \<and> fetchAsset 5 ac' fs' = default_asset \<and> fs' [] = Some Directory"
proof -
  obtain e ac' fs' where i: "integrateAsset (\<lambda>_. Some []) sample_png sample_context sample_disk = (e, ac', fs')"
    by (metis prod_cases3)
  have "ext_ok sample_png" "(5 :: u64) \<noteq> asset_hash sample_png"
    "\<forall>a. database sample_context 5 = Some a \<longrightarrow> asset_hash a = 5 \<and> ext_ok a"
    "fetchAsset 5 sample_context sample_disk = default_asset" "sample_disk [] = Some Directory"
    "\<not> prefix (pathToContext (inContext sample_context)) []"
    by (simp_all add: ext_ok_def sample_png_def asset_hash_def sample_context_def fetchAsset_def sample_disk_def empty_disk_def)
  with assets_independent [OF i, of sample_png 5] i show ?thesis by metis
qed

text \<open>The database does not survive a restart through its own format: a new asset context on the same
  directory parses, as binary protobuf, the JSON text that the last integration saved.\<close>

theorem asset_restart:
  assumes "integrateAsset to_json a ac fs = (None, ac', fs')" and "fs_ok fs"
    and "is_directory fs (pathToContext (inContext ac) @ [resourcesFolder])"
    and "\<not> is_directory fs (pathToContext (inContext ac) @ [resourcesDbFile])"
  shows "\<exists>json. to_json (database ac') = Some json
    \<and> asset_context_new parse (inContext ac) fs' = Inr (\<lparr>inContext = inContext ac, database = parse json\<rparr>, fs')"
proof -
  let ?p = "pathToContext (inContext ac)"
  obtain json where j: "to_json (database ac') = Some json"
    "fs' = write_file (?p @ [resourcesDbFile]) json (write_file (assetFilePath ac a) (content (asset_file a)) fs)"
    using assms(1) by (auto simp: integrateAsset_eq Let_def split: option.splits)
  have ne: "?p @ [resourcesFolder] \<noteq> ?p @ [resourcesDbFile]" "assetFilePath ac a \<noteq> ?p @ [resourcesFolder]"
    by (simp_all add: resourcesFolder_def resourcesDbFile_def assetFilePath_def Let_def)
  have ok: "fs_ok fs'" by (simp add: j(2) write_file_ok assms(2))
  have dir: "is_directory fs' (?p @ [resourcesFolder])"
    using assms(3) ne by (simp add: j(2) is_directory_def write_file_other)
  have "fs ?p = Some Directory"
    using fs_ok_parent [OF assms(2), of "?p @ [resourcesFolder]" ?p] assms(3) by (simp add: is_directory_def strict_prefix_def)
  moreover have "assetFilePath ac a \<noteq> ?p" "assetFilePath ac a \<noteq> ?p @ [resourcesDbFile]"
    by (simp_all add: assetFilePath_def Let_def)
  ultimately have "fs' (?p @ [resourcesDbFile]) = Some (RegularFile json)"
    using assms(4) by (auto simp: j(2) is_directory_def write_file_other intro!: write_file_same)
  then have "read_file fs' (?p @ [resourcesDbFile]) = json" by (simp add: read_file_def)
  moreover have "context_implementation (inContext ac) [resourcesFolder] fs' = Inr (inContext ac, fs')"
    using create_directories_existing [OF ok dir] dir
    by (simp add: context_implementation_def fs_exists_def is_directory_def Let_def)
  ultimately show ?thesis using j(1) by (simp add: asset_context_new_def)
qed

theorem asset_restart_witness:
  "\<exists>ac' fs'. integrateAsset (\<lambda>_. Some [123, 125]) sample_png sample_context sample_disk = (None, ac', fs')
     \<and> asset_context_new (\<lambda>bs. if bs = [123, 125] then Map.empty else database ac') (inContext sample_context) fs'
       = Inr (\<lparr>inContext = inContext sample_context, database = Map.empty\<rparr>, fs')"
proof -
  obtain e ac' fs' where i: "integrateAsset (\<lambda>_. Some [123, 125]) sample_png sample_context sample_disk = (e, ac', fs')"
    by (metis prod_cases3)
  then have e: "e = None" by (simp add: integrateAsset_eq Let_def)
  have "fs_ok sample_disk"
    using fs_ok_add [OF empty_disk_ok, of "[]" "''ctx''" Directory]
      fs_ok_add [of "empty_disk([''ctx''] \<mapsto> Directory)" "[''ctx'']" resourcesFolder Directory]
    by (simp add: sample_disk_def empty_disk_def)
  moreover have "is_directory sample_disk (pathToContext (inContext sample_context) @ [resourcesFolder])"
    "\<not> is_directory sample_disk (pathToContext (inContext sample_context) @ [resourcesDbFile])"
    by (simp_all add: sample_disk_def sample_context_def is_directory_def resourcesFolder_def resourcesDbFile_def empty_disk_def)
  ultimately show ?thesis
    using asset_restart [OF i [unfolded e], of "\<lambda>bs. if bs = [123, 125] then Map.empty else database ac'"] i e
    by auto
qed

text \<open>An asset context copies the context it is given: once any copy of a random context is destroyed, no
  asset can be fetched any more, whatever the database says, and integrating one writes nothing and
  reports nothing.\<close>

theorem assets_lost_with_context:
  assumes "env (inContext ac) = ENV_RANDOM" and "fs' = context_destroy (inContext ac) fs"
    and "to_json (database (fst (snd (integrateAsset to_json a ac fs')))) = Some json"
  shows "fetchAsset i ac fs' = default_asset \<and> fst (integrateAsset to_json a ac fs') = None
    \<and> snd (snd (integrateAsset to_json a ac fs')) = fs'"
proof -
  let ?p = "pathToContext (inContext ac)"
  have gone: "fs' q = None" if "prefix ?p q" for q
    using assms(1,2) that by (simp add: context_destroy_def remove_all_def)
  have "prefix ?p (assetFilePath ac x)" for x by (simp add: assetFilePath_def Let_def)
  then have "\<not> fs_exists fs' (assetFilePath ac x)" for x using gone by (simp add: fs_exists_def)
  then have "fetchAsset i ac fs' = default_asset" by (simp add: fetchAsset_def Let_def split: option.split)
  moreover have w: "write_file (assetFilePath ac a) bs fs' = fs'" "write_file (?p @ [resourcesDbFile]) bs fs' = fs'" for bs
    using gone by (simp_all add: write_file_def is_directory_def)
  ultimately show ?thesis
    using assms(3) [unfolded integrateAsset_database] by (simp add: integrateAsset_eq Let_def w)
qed

theorem assets_lost_with_context_witness:
  "let ac = sample_context\<lparr>inContext := \<lparr>env = ENV_RANDOM, pathToContext = [''ctx'']\<rparr>\<rparr>;
       fs' = context_destroy (inContext ac) sample_disk
   in snd (snd (integrateAsset (\<lambda>_. Some []) sample_png ac fs')) = fs' \<and> fs' \<noteq> sample_disk"
proof -
  define ac where "ac = sample_context\<lparr>inContext := \<lparr>env = ENV_RANDOM, pathToContext = [''ctx'']\<rparr>\<rparr>"
  have "context_destroy (inContext ac) sample_disk [''ctx''] \<noteq> sample_disk [''ctx'']"
    by (simp add: ac_def context_destroy_def remove_all_def sample_disk_def)
  then have "context_destroy (inContext ac) sample_disk \<noteq> sample_disk" by auto
  then show ?thesis
    using assets_lost_with_context [of ac "context_destroy (inContext ac) sample_disk" sample_disk "\<lambda>_. Some []" sample_png "[]"]
    by (simp add: ac_def [symmetric] Let_def) (simp add: ac_def)
qed

text \<open>A file becomes an asset exactly when it exists and its length is at most \<open>INT_MAX\<close>: the message
  carries its bytes, their count, the split of its name at the last dot, and the published 64 bit FNV-1a
  hash of its bytes.\<close>

theorem create_asset_spec:
  assumes "fs p = Some (RegularFile bs)" and "length bs \<le> INT_MAX"
  shows "\<exists>a. createAsset stbi_load junk p fs = Inr a
    \<and> content (asset_file a) = bs \<and> sint (content_length (asset_file a)) = int (length bs)
    \<and> asset_hash a = fnv1a_64 0xcbf29ce484222325 bs
    \<and> descr_name (file_description (asset_file a)) @ file_extension (file_description (asset_file a)) = last p
    \<and> ext_ok a"
proof -
  have "ext_ok a" if "file_extension (file_description (asset_file a)) = path_extension (last p)" for a
    using extension_dot [of "last p"] that by (auto simp: ext_ok_def)
  moreover have "sint (word_of_nat (length bs) :: 32 word) = int (length bs)"
    using assms(2) by (simp add: INT_MAX_def signed_of_nat signed_take_bit_int_eq_self)
  ultimately show ?thesis
    using assms hash_64_eq_fold [OF assms(2)]
    by (auto simp: createAsset_def createFile_def fs_exists_def read_file_def Let_def split_beta asset_hash_def
        stem_extension)
qed

theorem create_asset_spec_witness:
  "\<exists>a. createAsset (\<lambda>_. None) (0, 0) [''dir'', ''test.png''] [[''dir'', ''test.png''] \<mapsto> RegularFile [0x61]] = Inr a
     \<and> asset_hash a = 0xaf63dc4c8601ec8c"
proof -
  have "fnv1a_64 0xcbf29ce484222325 [0x61] = 0xaf63dc4c8601ec8c" by simp
  then show ?thesis
    using create_asset_spec [of "[[''dir'', ''test.png''] \<mapsto> RegularFile [0x61]]" "[''dir'', ''test.png'']" "[0x61]"
        "\<lambda>_. None" "(0, 0)"]
    by (auto simp: INT_MAX_def)
qed

end
