(* ===== verification/Float32.thy ===== *)
theory Float32
  imports Complex_Main US_Prelude
begin

text \<open>
  The C++ \<open>float\<close> of the code's platforms: IEEE 754 binary32 with round to nearest, ties to even. A
  finite non-zero number is the rational it denotes; the zeros carry their sign. Every operation is
  the exact rational one followed by rounding, as the standard defines it.
\<close>

section \<open>Rounding to an integer, ties to even\<close>

definition round_even :: "rat \<Rightarrow> int" where
  "round_even q =
     (let f = \<lfloor>q\<rfloor>; d = q - of_int f
      in if d < 1 / 2 then f else if 1 / 2 < d then f + 1 else if even f then f else f + 1)"

lemma round_even_of_int [simp]: "round_even (of_int n) = n"
  by (simp add: round_even_def)

lemma round_even_floor: "\<lfloor>q\<rfloor> \<le> round_even q \<and> round_even q \<le> \<lfloor>q\<rfloor> + 1"
  by (simp add: round_even_def Let_def)

lemma round_even_mono:
  assumes "p \<le> q"
  shows "round_even p \<le> round_even q"
proof (cases "\<lfloor>p\<rfloor> = \<lfloor>q\<rfloor>")
  case True
  then have "p - of_int \<lfloor>p\<rfloor> \<le> q - of_int \<lfloor>q\<rfloor>" using assms by simp
  with True show ?thesis by (auto simp: round_even_def Let_def)
next
  case False
  with floor_mono [OF assms] have "\<lfloor>p\<rfloor> + 1 \<le> \<lfloor>q\<rfloor>" by simp
  with round_even_floor [of p] round_even_floor [of q] show ?thesis by linarith
qed

lemma round_even_le: "p \<le> of_int n \<Longrightarrow> round_even p \<le> n"
  using round_even_mono [of p "of_int n"] by simp

lemma round_even_ge: "of_int n \<le> p \<Longrightarrow> n \<le> round_even p"
  using round_even_mono [of "of_int n" p] by simp

section \<open>The binade of a positive rational\<close>

function log2_int :: "int \<Rightarrow> nat" where
  "log2_int n = (if n < 2 then 0 else Suc (log2_int (n div 2)))"
  by pat_completeness auto
termination
  by (relation "measure nat") auto

declare log2_int.simps [simp del]

lemma log2_int_bounds: "0 < n \<Longrightarrow> 2 ^ log2_int n \<le> n \<and> n < 2 ^ Suc (log2_int n)"
proof (induction n rule: log2_int.induct)
  case (1 n)
  show ?case
  proof (cases "n < 2")
    case True
    with 1 show ?thesis by (subst (1 2) log2_int.simps) simp
  next
    case False
    with 1 have "2 ^ log2_int (n div 2) \<le> n div 2 \<and> n div 2 < 2 ^ Suc (log2_int (n div 2))" by simp
    with False show ?thesis by (subst (1 2) log2_int.simps) auto
  qed
qed

definition exponent :: "rat \<Rightarrow> int" where
  "exponent q =
     (let (a, b) = quotient_of q; e = int (log2_int a) - int (log2_int b)
      in if 2 powi e \<le> q then e else e - 1)"

lemma log2_rat:
  assumes "0 < a"
  shows "(2 :: rat) ^ log2_int a \<le> of_int a \<and> of_int a < (2 :: rat) ^ Suc (log2_int a)"
proof -
  have "(of_int (2 ^ log2_int a) :: rat) \<le> of_int a" "(of_int a :: rat) < of_int (2 ^ Suc (log2_int a))"
    using log2_int_bounds [OF assms] by (simp_all only: of_int_le_iff of_int_less_iff)
  then show ?thesis by simp
qed

lemma exponent_bounds:
  assumes "0 < q"
  shows "2 powi exponent q \<le> q \<and> q < 2 powi (exponent q + 1)"
proof -
  obtain a b where ab: "quotient_of q = (a, b)" by (cases "quotient_of q")
  have b: "0 < b" using quotient_of_denom_pos [OF ab] .
  have q: "q = of_int a / of_int b" using quotient_of_div [OF ab] .
  have a: "0 < a" using assms b by (simp add: q zero_less_divide_iff)
  let ?k = "log2_int a" and ?l = "log2_int b"
  note ra = log2_rat [OF a, THEN conjunct1] log2_rat [OF a, THEN conjunct2]
  note rb = log2_rat [OF b, THEN conjunct1] log2_rat [OF b, THEN conjunct2]
  have pb: "(0 :: rat) < of_int b" using b by simp
  define e where "e = int ?k - int ?l"
  have p2: "(2 :: rat) powi e = 2 ^ ?k / 2 ^ ?l" by (simp add: e_def power_int_diff)
  have up: "q < 2 powi (e + 1)"
  proof -
    have "of_int a * 2 ^ ?l < 2 ^ Suc ?k * (of_int b :: rat)"
      by (rule mult_less_le_imp_less) (use ra rb a in auto)
    then show ?thesis using pb by (simp add: q power_int_add p2 field_simps)
  qed
  have low: "2 powi (e - 1) < q"
  proof -
    have "2 ^ ?k * (of_int b :: rat) < of_int a * 2 ^ Suc ?l"
      by (rule mult_le_less_imp_less) (use ra rb pb in auto)
    then show ?thesis using pb by (simp add: q power_int_diff p2 field_simps)
  qed
  show ?thesis
  proof (cases "2 powi e \<le> q")
    case True
    then have "exponent q = e" by (simp add: exponent_def ab e_def)
    with True up show ?thesis by simp
  next
    case False
    then have "exponent q = e - 1" by (simp add: exponent_def ab e_def)
    with False low show ?thesis by simp
  qed
qed

lemma powi_mono: "m \<le> n \<Longrightarrow> (2 :: rat) powi m \<le> 2 powi n"
  by (rule power_int_increasing) auto

lemma exponent_unique:
  assumes "2 powi e \<le> q" and "q < 2 powi (e + 1)"
  shows "exponent q = e"
proof -
  have "0 < q" using assms(1) zero_less_power_int [of "2 :: rat" e] by linarith
  note b = exponent_bounds [OF this]
  have "\<not> exponent q + 1 \<le> e" using b assms(1) powi_mono [of "exponent q + 1" e] by linarith
  moreover have "\<not> e + 1 \<le> exponent q" using b assms(2) powi_mono [of "e + 1" "exponent q"] by linarith
  ultimately show ?thesis by simp
qed

lemma exponent_mono:
  assumes "0 < p" and "p \<le> q"
  shows "exponent p \<le> exponent q"
proof (rule ccontr)
  assume "\<not> ?thesis"
  then have "2 powi (exponent q + 1) \<le> (2 :: rat) powi exponent p" by (intro powi_mono) simp
  with exponent_bounds [of p] exponent_bounds [of q] assms show False by linarith
qed

section \<open>Rounding to 24 bits\<close>

text \<open>The unit in the last place at a magnitude, constant below the smallest normal number.\<close>

definition binade :: "rat \<Rightarrow> int" where
  "binade q = max (exponent q) (- 126)"

definition ulp :: "rat \<Rightarrow> rat" where
  "ulp q = 2 powi (binade q - 23)"

definition round_mag :: "rat \<Rightarrow> rat" where
  "round_mag q = of_int (round_even (q / ulp q)) * ulp q"

lemma ulp_pos [simp]: "0 < ulp q"
  by (simp add: ulp_def)

lemma binade_mono: "0 < p \<Longrightarrow> p \<le> q \<Longrightarrow> binade p \<le> binade q"
  using exponent_mono [of p q] by (auto simp: binade_def)

lemma below_binade: "0 < q \<Longrightarrow> q < 2 powi (binade q + 1)"
proof -
  assume "0 < q"
  then have "q < 2 powi (exponent q + 1)" using exponent_bounds by blast
  also have "\<dots> \<le> 2 powi (binade q + 1)" by (rule powi_mono) (simp add: binade_def)
  finally show ?thesis .
qed

lemma ulp_23: "2 powi (binade q) = 2 ^ 23 * ulp q" "2 powi (binade q + 1) = 2 ^ 24 * ulp q"
  by (simp_all add: ulp_def power_int_diff power_int_add)

lemma round_mag_upper: "0 < q \<Longrightarrow> round_mag q \<le> 2 powi (binade q + 1)"
proof -
  assume "0 < q"
  then have "q / ulp q \<le> of_int (2 ^ 24)"
    using below_binade [of q] by (simp add: ulp_23 divide_le_eq)
  then have "round_even (q / ulp q) \<le> 2 ^ 24" by (rule round_even_le)
  then have "of_int (round_even (q / ulp q)) \<le> (2 ^ 24 :: rat)" by (metis of_int_le_iff of_int_numeral of_int_power)
  then show ?thesis unfolding round_mag_def ulp_23 by (intro mult_right_mono) (auto simp: less_imp_le)
qed

lemma round_mag_lower: "2 powi (binade q) \<le> q \<Longrightarrow> 2 powi (binade q) \<le> round_mag q"
proof -
  assume "2 powi (binade q) \<le> q"
  then have "of_int (2 ^ 23) \<le> q / ulp q" by (simp add: ulp_23 le_divide_eq)
  then have "2 ^ 23 \<le> round_even (q / ulp q)" by (rule round_even_ge)
  then have "(2 ^ 23 :: rat) \<le> of_int (round_even (q / ulp q))" by (metis of_int_le_iff of_int_numeral of_int_power)
  then show ?thesis unfolding round_mag_def ulp_23 by (intro mult_right_mono) (auto simp: less_imp_le)
qed

lemma round_mag_nonneg: "0 < q \<Longrightarrow> 0 \<le> round_mag q"
proof -
  assume "0 < q"
  then have "(of_int 0 :: rat) \<le> q / ulp q" by (simp add: less_imp_le)
  from round_even_ge [OF this] show ?thesis by (simp add: round_mag_def less_imp_le)
qed

lemma round_mag_mono:
  assumes "0 < p" and "p \<le> q"
  shows "round_mag p \<le> round_mag q"
proof (cases "binade p = binade q")
  case True
  then have u: "ulp p = ulp q" by (simp add: ulp_def)
  have "p / ulp q \<le> q / ulp q" using assms(2) by (simp add: divide_right_mono less_imp_le)
  then have "round_even (p / ulp q) \<le> round_even (q / ulp q)" by (rule round_even_mono)
  then show ?thesis by (simp add: round_mag_def u mult_right_mono less_imp_le)
next
  case False
  with binade_mono [OF assms] have less: "binade p + 1 \<le> binade q" by simp
  then have "binade q = exponent q" by (auto simp: binade_def)
  then have "2 powi (binade q) \<le> q" using exponent_bounds [of q] assms by simp
  then have "2 powi (binade q) \<le> round_mag q" by (rule round_mag_lower)
  moreover have "round_mag p \<le> 2 powi (binade p + 1)" using assms(1) by (rule round_mag_upper)
  ultimately show ?thesis using powi_mono [OF less] by linarith
qed

text \<open>What is a multiple of the unit of its binade is not changed.\<close>

lemma round_mag_exact: "q = of_int n * ulp q \<Longrightarrow> round_mag q = q"
proof -
  assume q: "q = of_int n * ulp q"
  have "q / ulp q = of_int n" using ulp_pos [of q] by (subst q) (simp del: ulp_pos)
  then show ?thesis using q by (simp add: round_mag_def)
qed

lemma round_mag_0 [simp]: "round_mag 0 = 0"
  using round_even_of_int [of 0] by (simp add: round_mag_def)

lemma round_mag_idem:
  assumes "0 < q"
  shows "round_mag (round_mag q) = round_mag q"
proof (cases "round_mag q = 0")
  case True
  then show ?thesis by simp
next
  case False
  then have pos: "0 < round_mag q" using round_mag_nonneg [OF assms] by simp
  let ?n = "round_even (q / ulp q)"
  have r: "round_mag q = of_int ?n * ulp q" by (simp add: round_mag_def)
  consider "round_mag q < 2 powi (binade q)"
    | "2 powi (binade q) \<le> round_mag q" "round_mag q < 2 powi (binade q + 1)"
    | "round_mag q = 2 powi (binade q + 1)"
    using round_mag_upper [OF assms] by linarith
  then show ?thesis
  proof cases
    case 1
    then have "\<not> 2 powi (binade q) \<le> q" using round_mag_lower [of q] by linarith
    then have e: "binade q = - 126" using exponent_bounds [OF assms] by (auto simp: binade_def max_def split: if_splits)
    have "\<not> - 126 \<le> exponent (round_mag q)"
    proof
      assume "- 126 \<le> exponent (round_mag q)"
      from powi_mono [OF this] exponent_bounds [OF pos] 1 [unfolded e] show False by linarith
    qed
    then have "binade (round_mag q) = binade q" unfolding e by (simp add: binade_def)
    then have "ulp (round_mag q) = ulp q" by (simp only: ulp_def)
    with r show ?thesis by (metis round_mag_exact)
  next
    case 2
    then have "exponent (round_mag q) = binade q" by (rule exponent_unique)
    then have "ulp (round_mag q) = ulp q" by (simp add: ulp_def binade_def)
    with r show ?thesis by (metis round_mag_exact)
  next
    case 3
    then have "exponent (round_mag q) = binade q + 1" by (intro exponent_unique powi_mono) (auto simp: power_int_add)
    then have "binade (round_mag q) = binade q + 1" by (simp add: binade_def)
    then have "round_mag q = of_int (2 ^ 23) * ulp (round_mag q)"
      using 3 by (simp add: ulp_def power_int_add power_int_diff)
    then show ?thesis by (rule round_mag_exact)
  qed
qed

section \<open>Numbers and operations\<close>

text \<open>\<open>Inf n\<close> and \<open>Zero n\<close> are negative for \<open>n = True\<close>.\<close>

datatype f32 = NaN | Inf bool | Zero bool | Num rat

text \<open>The float nearest to a rational; \<open>s\<close> is the sign of an exact zero.\<close>

definition round_f32 :: "bool \<Rightarrow> rat \<Rightarrow> f32" where
  "round_f32 s q =
     (if q = 0 then Zero s
      else let r = round_mag \<bar>q\<bar>
           in if 2 ^ 128 \<le> r then Inf (q < 0)
              else if r = 0 then Zero (q < 0)
              else Num (if q < 0 then - r else r))"

fun f32_val :: "f32 \<Rightarrow> rat" where
  "f32_val (Num q) = q"
| "f32_val _ = 0"

fun f32_neg :: "f32 \<Rightarrow> bool" where
  "f32_neg NaN = False"
| "f32_neg (Inf n) = n"
| "f32_neg (Zero n) = n"
| "f32_neg (Num q) = (q < 0)"

fun finite_f32 :: "f32 \<Rightarrow> bool" where
  "finite_f32 NaN = False"
| "finite_f32 (Inf _) = False"
| "finite_f32 _ = True"

fun fneg :: "f32 \<Rightarrow> f32" where
  "fneg NaN = NaN"
| "fneg (Inf n) = Inf (\<not> n)"
| "fneg (Zero n) = Zero (\<not> n)"
| "fneg (Num q) = Num (- q)"

fun fadd :: "f32 \<Rightarrow> f32 \<Rightarrow> f32" where
  "fadd NaN y = NaN"
| "fadd x NaN = NaN"
| "fadd (Inf n) (Inf m) = (if n = m then Inf n else NaN)"
| "fadd (Inf n) y = Inf n"
| "fadd x (Inf m) = Inf m"
| "fadd (Zero n) (Zero m) = Zero (n \<and> m)"
| "fadd x y = round_f32 False (f32_val x + f32_val y)"

definition fsub :: "f32 \<Rightarrow> f32 \<Rightarrow> f32" where
  "fsub x y = fadd x (fneg y)"

fun fmul :: "f32 \<Rightarrow> f32 \<Rightarrow> f32" where
  "fmul NaN y = NaN"
| "fmul x NaN = NaN"
| "fmul (Inf n) y = (if y \<in> {Zero True, Zero False} then NaN else Inf (n \<noteq> f32_neg y))"
| "fmul x (Inf m) = (if x \<in> {Zero True, Zero False} then NaN else Inf (f32_neg x \<noteq> m))"
| "fmul x y = round_f32 (f32_neg x \<noteq> f32_neg y) (f32_val x * f32_val y)"

fun fdiv :: "f32 \<Rightarrow> f32 \<Rightarrow> f32" where
  "fdiv NaN y = NaN"
| "fdiv x NaN = NaN"
| "fdiv (Inf n) (Inf m) = NaN"
| "fdiv (Inf n) y = Inf (n \<noteq> f32_neg y)"
| "fdiv x (Inf m) = Zero (f32_neg x \<noteq> m)"
| "fdiv (Zero n) (Zero m) = NaN"
| "fdiv x (Zero m) = Inf (f32_neg x \<noteq> m)"
| "fdiv x y = round_f32 (f32_neg x \<noteq> f32_neg y) (f32_val x / f32_val y)"

fun fless :: "f32 \<Rightarrow> f32 \<Rightarrow> bool" where
  "fless NaN y = False"
| "fless x NaN = False"
| "fless (Inf n) (Inf m) = (n \<and> \<not> m)"
| "fless (Inf n) y = n"
| "fless x (Inf m) = (\<not> m)"
| "fless x y = (f32_val x < f32_val y)"

definition fle :: "f32 \<Rightarrow> f32 \<Rightarrow> bool" where
  "fle x y \<longleftrightarrow> x \<noteq> NaN \<and> y \<noteq> NaN \<and> \<not> fless y x"

definition feq :: "f32 \<Rightarrow> f32 \<Rightarrow> bool" where
  "feq x y \<longleftrightarrow> fle x y \<and> fle y x"

text \<open>Conversion to \<open>bool\<close>: everything but the zeros.\<close>

definition f32_true :: "f32 \<Rightarrow> bool" where
  "f32_true x \<longleftrightarrow> x \<noteq> Zero True \<and> x \<noteq> Zero False"

definition f32_of_int :: "int \<Rightarrow> f32" where
  "f32_of_int n = round_f32 False (of_int n)"

text \<open>Square roots, correctly rounded: 25 bits of the integer root, then the last one decides.\<close>

function isqrt :: "int \<Rightarrow> int" where
  "isqrt n =
     (if n \<le> 0 then 0
      else let r = 2 * isqrt (n div 4) in if (r + 1) * (r + 1) \<le> n then r + 1 else r)"
  by pat_completeness auto
termination
  by (relation "measure nat") auto

declare isqrt.simps [simp del]

lemma isqrt_bounds: "0 \<le> n \<Longrightarrow> 0 \<le> isqrt n \<and> isqrt n * isqrt n \<le> n \<and> n < (isqrt n + 1) * (isqrt n + 1)"
proof (induction n rule: isqrt.induct)
  case (1 n)
  show ?case
  proof (cases "n \<le> 0")
    case True
    with 1 show ?thesis by (simp add: isqrt.simps)
  next
    case False
    define s where "s = isqrt (n div 4)"
    from 1 False have IH: "0 \<le> s" "s * s \<le> n div 4" "n div 4 < (s + 1) * (s + 1)" by (auto simp: s_def)
    have e: "isqrt n = (if (2 * s + 1) * (2 * s + 1) \<le> n then 2 * s + 1 else 2 * s)"
      using False by (subst isqrt.simps) (simp add: s_def Let_def)
    have "4 * (s * s) \<le> n" "n < 4 * ((s + 1) * (s + 1))" using IH by linarith+
    then show ?thesis using IH(1) by (auto simp: e algebra_simps)
  qed
qed

fun fsqrt :: "f32 \<Rightarrow> f32" where
  "fsqrt NaN = NaN"
| "fsqrt (Inf n) = (if n then NaN else Inf False)"
| "fsqrt (Zero n) = Zero n"
| "fsqrt (Num q) =
     (if q < 0 then NaN
      else let t = exponent q div 2;
               s = isqrt \<lfloor>q * 4 powi (24 - t)\<rfloor>
           in Num (of_int ((s + 1) div 2) * 2 powi (t - 23)))"

text \<open>A decimal literal with the suffix \<open>f\<close>.\<close>

definition f32_lit :: "rat \<Rightarrow> f32" where
  "f32_lit q = round_f32 False q"

fun f32_ok :: "f32 \<Rightarrow> bool" where
  "f32_ok (Num q) = (q \<noteq> 0 \<and> round_mag \<bar>q\<bar> = \<bar>q\<bar> \<and> \<bar>q\<bar> < 2 ^ 128)"
| "f32_ok _ = True"

section \<open>Order and rounding\<close>

lemma round_f32_ok [simp]: "f32_ok (round_f32 s q)"
proof -
  have "round_mag \<bar>round_mag \<bar>q\<bar>\<bar> = \<bar>round_mag \<bar>q\<bar>\<bar>" "\<bar>round_mag \<bar>q\<bar>\<bar> = round_mag \<bar>q\<bar>" if "q \<noteq> 0"
    using round_mag_idem [of "\<bar>q\<bar>"] round_mag_nonneg [of "\<bar>q\<bar>"] that by simp_all
  then show ?thesis by (auto simp: round_f32_def Let_def)
qed

lemma round_f32_val: "f32_ok x \<Longrightarrow> finite_f32 x \<Longrightarrow> f32_val (round_f32 s (f32_val x)) = f32_val x \<and> finite_f32 (round_f32 s (f32_val x))"
  by (cases x) (auto simp: round_f32_def Let_def abs_if split: if_splits)

lemma fless_finite: "finite_f32 x \<Longrightarrow> finite_f32 y \<Longrightarrow> fless x y = (f32_val x < f32_val y)"
  by (cases x; cases y) auto

lemma fle_finite: "finite_f32 x \<Longrightarrow> finite_f32 y \<Longrightarrow> fle x y = (f32_val x \<le> f32_val y)"
  by (auto simp: fle_def fless_finite)

lemma round_f32_not_NaN [simp]: "round_f32 s q \<noteq> NaN"
  by (simp add: round_f32_def Let_def)

text \<open>Rounding is monotone, infinities included.\<close>

lemma round_f32_mono:
  assumes "p \<le> q"
  shows "fle (round_f32 s p) (round_f32 t q)"
proof -
  have mag: "round_mag \<bar>a\<bar> \<le> round_mag \<bar>b\<bar>" if "a \<noteq> 0" "\<bar>a\<bar> \<le> \<bar>b\<bar>" for a b
    using round_mag_mono [of "\<bar>a\<bar>" "\<bar>b\<bar>"] that by simp
  have nn: "0 \<le> round_mag \<bar>a\<bar>" if "a \<noteq> 0" for a using round_mag_nonneg [of "\<bar>a\<bar>"] that by simp
  consider "p = 0" | "q = 0" | "0 < p" | "q < 0" | "p < 0" "0 < q" using assms by linarith
  then show ?thesis
  proof cases
    case 1
    then show ?thesis using assms nn [of q] by (auto simp: round_f32_def fle_def Let_def)
  next
    case 2
    then show ?thesis using assms nn [of p] by (auto simp: round_f32_def fle_def Let_def)
  next
    case 3
    then have "round_mag \<bar>p\<bar> \<le> round_mag \<bar>q\<bar>" using assms by (intro mag) auto
    with 3 show ?thesis using assms nn [of p] nn [of q] by (auto simp: round_f32_def fle_def Let_def)
  next
    case 4
    then have "round_mag \<bar>q\<bar> \<le> round_mag \<bar>p\<bar>" using assms by (intro mag) auto
    with 4 show ?thesis using assms nn [of p] nn [of q] by (auto simp: round_f32_def fle_def Let_def)
  next
    case 5
    then show ?thesis using nn [of p] nn [of q] by (auto simp: round_f32_def fle_def Let_def)
  qed
qed

lemma fless_irrefl [simp]: "\<not> fless x x"
  by (cases x) auto

lemma fle_trans: "fle x y \<Longrightarrow> fle y z \<Longrightarrow> fle x z"
  by (cases x; cases y; cases z) (auto simp: fle_def)

lemma fle_refl: "x \<noteq> NaN \<Longrightarrow> fle x x"
  by (cases x) (auto simp: fle_def)

lemma fle_fless_total: "x \<noteq> NaN \<Longrightarrow> y \<noteq> NaN \<Longrightarrow> fle x y \<or> fless y x"
  by (auto simp: fle_def)

lemma fless_imp_fle: "fless x y \<Longrightarrow> fle x y"
  by (cases x; cases y) (auto simp: fle_def)

lemma round_f32_le:
  assumes "f32_ok x" and "finite_f32 x" and "p \<le> f32_val x"
  shows "fle (round_f32 s p) x"
proof -
  have "fle (round_f32 s p) (round_f32 s (f32_val x))" using assms(3) by (rule round_f32_mono)
  moreover have "fle (round_f32 s (f32_val x)) x" using round_f32_val [OF assms(1,2), of s] assms(2) by (simp add: fle_finite)
  ultimately show ?thesis by (rule fle_trans)
qed

lemma round_f32_ge:
  assumes "f32_ok x" and "finite_f32 x" and "f32_val x \<le> p"
  shows "fle x (round_f32 s p)"
proof -
  have "fle (round_f32 s (f32_val x)) (round_f32 s p)" using assms(3) by (rule round_f32_mono)
  moreover have "fle x (round_f32 s (f32_val x))" using round_f32_val [OF assms(1,2), of s] assms(2) by (simp add: fle_finite)
  ultimately show ?thesis using fle_trans by blast
qed

text \<open>Addition of finite numbers, up to the sign of a zero result.\<close>

lemma fadd_finite:
  "finite_f32 x \<Longrightarrow> finite_f32 y \<Longrightarrow> \<exists>s. fadd x y = round_f32 s (f32_val x + f32_val y)"
  by (cases x; cases y) (auto simp: round_f32_def)

lemma fneg_ok [simp]: "f32_ok (fneg x) = f32_ok x" "finite_f32 (fneg x) = finite_f32 x" "f32_val (fneg x) = - f32_val x"
  by (cases x; simp)+

lemma fadd_ok [simp]: "f32_ok (fadd x y)"
  by (cases "(x, y)" rule: fadd.cases) simp_all

lemma fmul_ok [simp]: "f32_ok (fmul x y)"
  by (cases "(x, y)" rule: fmul.cases) simp_all

lemma fdiv_ok [simp]: "f32_ok (fdiv x y)"
  by (cases "(x, y)" rule: fdiv.cases) simp_all

lemma fsub_ok [simp]: "f32_ok (fsub x y)"
  by (simp add: fsub_def)

lemma fadd_le_mono:
  assumes "finite_f32 x" "finite_f32 x'" "finite_f32 y" "finite_f32 y'"
    and "fle x x'" and "fle y y'"
  shows "fle (fadd x y) (fadd x' y')"
proof -
  obtain s t where "fadd x y = round_f32 s (f32_val x + f32_val y)" "fadd x' y' = round_f32 t (f32_val x' + f32_val y')"
    using fadd_finite assms(1-4) by meson
  moreover have "f32_val x + f32_val y \<le> f32_val x' + f32_val y'"
    using assms by (simp add: fle_finite add_mono)
  ultimately show ?thesis by (simp add: round_f32_mono)
qed

lemma fadd_nonneg_ge:
  assumes "finite_f32 x" "f32_ok x" "finite_f32 y" "0 \<le> f32_val y"
  shows "fle x (fadd x y)"
proof -
  obtain s where "fadd x y = round_f32 s (f32_val x + f32_val y)" using fadd_finite assms by meson
  with assms show ?thesis by (simp add: round_f32_ge)
qed

lemma fsub_nonneg_le:
  assumes "finite_f32 x" "f32_ok x" "finite_f32 y" "0 \<le> f32_val y"
  shows "fle (fsub x y) x"
proof -
  have "finite_f32 (fneg y)" using assms by simp
  then obtain s where "fsub x y = round_f32 s (f32_val x + f32_val (fneg y))"
    using fadd_finite assms unfolding fsub_def by meson
  with assms show ?thesis by (simp add: round_f32_le)
qed

lemma fle_between_finite: "fle x y \<Longrightarrow> fle y z \<Longrightarrow> finite_f32 x \<Longrightarrow> finite_f32 z \<Longrightarrow> finite_f32 y"
  by (cases x; cases y; cases z) (auto simp: fle_def split: if_splits)

text \<open>Two-dimensional vectors, with Magnum's component-wise operations.\<close>

record vector2 =
  vx :: f32
  vy :: f32

definition vzero :: vector2 where
  "vzero = \<lparr>vx = Zero False, vy = Zero False\<rparr>"

definition vadd :: "vector2 \<Rightarrow> vector2 \<Rightarrow> vector2" where
  "vadd a b = \<lparr>vx = fadd (vx a) (vx b), vy = fadd (vy a) (vy b)\<rparr>"

definition vsub :: "vector2 \<Rightarrow> vector2 \<Rightarrow> vector2" where
  "vsub a b = \<lparr>vx = fsub (vx a) (vx b), vy = fsub (vy a) (vy b)\<rparr>"

definition vmul :: "vector2 \<Rightarrow> vector2 \<Rightarrow> vector2" where
  "vmul a b = \<lparr>vx = fmul (vx a) (vx b), vy = fmul (vy a) (vy b)\<rparr>"

definition vdiv :: "vector2 \<Rightarrow> vector2 \<Rightarrow> vector2" where
  "vdiv a b = \<lparr>vx = fdiv (vx a) (vx b), vy = fdiv (vy a) (vy b)\<rparr>"

definition vscalar :: "f32 \<Rightarrow> vector2" where
  "vscalar f = \<lparr>vx = f, vy = f\<rparr>"

text \<open>Integers of 24 bits are exact, and stay so when they are scaled by a power of two.\<close>

lemma scaled_exact:
  assumes "0 < n" and "n < 2 ^ 24" and "- 100 \<le> k" and "k \<le> 100"
  shows "round_mag (of_int n * 2 powi k) = of_int n * 2 powi k" and "(of_int n :: rat) * 2 powi k < 2 ^ 128"
proof -
  let ?q = "of_int n * 2 powi k :: rat"
  have q: "0 < ?q" using assms(1) by simp
  note b = exponent_bounds [OF q]
  have n: "(1 :: rat) \<le> of_int n" "(of_int n :: rat) < 2 ^ 24" using assms(1,2) by simp_all
  have lt: "?q < 2 powi (k + 24)" using n(2) by (simp add: power_int_add)
  have ge: "2 powi k \<le> ?q" using n(1) by simp
  have e1: "exponent ?q \<le> k + 23" using b lt powi_mono [of "k + 24" "exponent ?q"] by (cases "exponent ?q \<le> k + 23") auto
  have e0: "k \<le> exponent ?q" using b ge powi_mono [of "exponent ?q + 1" k] by linarith
  have u: "ulp ?q = 2 powi (exponent ?q - 23)" using e0 assms(3) by (simp add: ulp_def binade_def)
  have "(2 :: rat) powi k = 2 powi (k + 23 - exponent ?q) * 2 powi (exponent ?q - 23)"
    by (subst power_int_add [symmetric]) simp_all
  also have "(2 :: rat) powi (k + 23 - exponent ?q) = 2 ^ nat (k + 23 - exponent ?q)" using e1 by (simp add: power_int_def)
  finally have p: "(2 :: rat) powi k = 2 ^ nat (k + 23 - exponent ?q) * 2 powi (exponent ?q - 23)" .
  have "of_int n * (2 ^ nat (k + 23 - exponent ?q) * 2 powi (exponent ?q - 23)) = of_int (n * 2 ^ nat (k + 23 - exponent ?q)) * ulp ?q"
    unfolding u by simp
  then have "?q = of_int (n * 2 ^ nat (k + 23 - exponent ?q)) * ulp ?q" by (simp only: p [symmetric])
  then show "round_mag ?q = ?q" by (rule round_mag_exact)
  have "(2 :: rat) powi (k + 24) \<le> 2 powi 128" using assms(4) by (intro powi_mono) simp
  with lt show "?q < 2 ^ 128" by simp
qed

lemma round_scaled:
  assumes "0 < n" and "n \<le> 2 ^ 24" and "- 99 \<le> k" and "k \<le> 99"
  shows "round_f32 s (of_int n * 2 powi k) = Num (of_int n * 2 powi k)"
proof -
  obtain m j where "of_int n * 2 powi k = (of_int m :: rat) * 2 powi j" "0 < m" "m < 2 ^ 24" "- 100 \<le> j" "j \<le> 100"
  proof (cases "n = 2 ^ 24")
    case True
    with that [of "2 ^ 23" "k + 1"] True assms show ?thesis by (simp add: power_int_add)
  next
    case False
    with that [of n k] assms show ?thesis by simp
  qed
  moreover have "round_f32 s q = Num q" if "0 < q" "round_mag q = q" "q < 2 ^ 128" for q
    using that by (simp add: round_f32_def Let_def)
  ultimately show ?thesis using scaled_exact [of m j] by simp
qed

lemma f32_of_int_exact:
  assumes "0 \<le> n" and "n \<le> 2 ^ 24"
  shows "finite_f32 (f32_of_int n) \<and> f32_val (f32_of_int n) = of_int n"
proof (cases "n = 0")
  case True
  then show ?thesis by (simp add: f32_of_int_def round_f32_def)
next
  case False
  with assms round_scaled [of n 0 False] show ?thesis by (simp add: f32_of_int_def)
qed

end
