(* ===== verification/KeyboardNav.thy ===== *)
theory KeyboardNav
  imports Float32 Machines
begin

text \<open>
  \<open>src/app/widgets/navigation/KeyboardMovements.hpp\<close> and \<open>KeyboardMoveHelper.hpp\<close>: the arrow keys held
  down, the direction they mean on each axis, and the momentum that moves the map while a key is down
  and for a while after. What the code takes from Magnum is the record \<open>magnum_motion\<close>.
\<close>

section \<open>Keys held\<close>

datatype key = KeyLeft | KeyRight | KeyUp | KeyDown | KeyNumAdd | KeyNumSubtract | KeyEsc | OtherKey nat

record keyboard_movements =
  movingLeft :: bool
  movingRight :: bool
  movingUp :: bool
  movingDown :: bool
  latestV :: bool
  latestH :: bool

definition keyboard_init :: keyboard_movements where
  "keyboard_init =
     \<lparr>movingLeft = False, movingRight = False, movingUp = False, movingDown = False, latestV = False, latestH = False\<rparr>"

definition isVerticalAxis :: "key \<Rightarrow> bool" where
  "isVerticalAxis key \<longleftrightarrow> key = KeyUp \<or> key = KeyDown"

definition verticalPressed :: "keyboard_movements \<Rightarrow> bool" where
  "verticalPressed km \<longleftrightarrow> movingUp km \<or> movingDown km"

definition isHorizontalAxis :: "key \<Rightarrow> bool" where
  "isHorizontalAxis key \<longleftrightarrow> key = KeyLeft \<or> key = KeyRight"

definition horizontalPressed :: "keyboard_movements \<Rightarrow> bool" where
  "horizontalPressed km \<longleftrightarrow> movingLeft km \<or> movingRight km"

definition keyPressed :: "keyboard_movements \<Rightarrow> bool" where
  "keyPressed km \<longleftrightarrow> verticalPressed km \<or> horizontalPressed km"

definition update_indirection :: "bool \<Rightarrow> bool \<Rightarrow> bool" where
  "update_indirection isPress indirectionVal = (if isPress then indirectionVal else \<not> indirectionVal)"

definition ackMovement :: "key \<Rightarrow> bool \<Rightarrow> keyboard_movements \<Rightarrow> bool \<times> keyboard_movements" where
  "ackMovement key isPress km = (case key of
      KeyLeft \<Rightarrow> (True, km\<lparr>movingLeft := isPress, latestH := update_indirection isPress False\<rparr>)
    | KeyRight \<Rightarrow> (True, km\<lparr>movingRight := isPress, latestH := update_indirection isPress True\<rparr>)
    | KeyUp \<Rightarrow> (True, km\<lparr>movingUp := isPress, latestV := update_indirection isPress True\<rparr>)
    | KeyDown \<Rightarrow> (True, km\<lparr>movingDown := isPress, latestV := update_indirection isPress False\<rparr>)
    | _ \<Rightarrow> (False, km))"

section \<open>Momentum\<close>

record axis_momentum =
  speed :: f32
  timePassed :: f32
  currentDirection :: vector2
  momentumDirection :: vector2

definition axis_init :: axis_momentum where
  "axis_init = \<lparr>speed = f32_lit 0, timePassed = f32_lit 0, currentDirection = vzero, momentumDirection = vzero\<rparr>"

definition x_axis :: "f32 \<Rightarrow> vector2" where
  "x_axis f = \<lparr>vx = f, vy = Zero False\<rparr>"

definition y_axis :: "f32 \<Rightarrow> vector2" where
  "y_axis f = \<lparr>vx = Zero False, vy = f\<rparr>"

definition goBy :: "(f32 \<Rightarrow> vector2) \<Rightarrow> bool \<Rightarrow> axis_momentum \<Rightarrow> axis_momentum" where
  "goBy axisF indirection a =
     (let val = (if indirection then - 1 else 1)
      in a\<lparr>currentDirection := axisF (f32_of_int val)\<rparr>)"

definition defineMomentum :: "axis_momentum \<Rightarrow> axis_momentum" where
  "defineMomentum a =
     (let a = a\<lparr>momentumDirection := currentDirection a\<rparr> in a\<lparr>currentDirection := vzero\<rparr>)"

definition updateMomentum :: "key \<Rightarrow> keyboard_movements \<Rightarrow> axis_momentum \<times> axis_momentum \<Rightarrow>
    axis_momentum \<times> axis_momentum" where
  "updateMomentum key km = (\<lambda>(x, y).
     if isHorizontalAxis key
     then (if horizontalPressed km then (goBy x_axis (latestH km) x, y) else (defineMomentum x, y))
     else if isVerticalAxis key
     then (if verticalPressed km then (x, goBy y_axis (latestV km) y) else (x, defineMomentum y))
     else (x, y))"

text \<open>
  Magnum: \<open>Vector2::isZero\<close>, the scalar \<open>Math::lerp\<close>, the easing functions, and on the matrices
  \<open>'m\<close> the translation by a vector and the product.
\<close>

record 'm magnum_motion =
  isZero :: "vector2 \<Rightarrow> bool"
  lerp :: "f32 \<Rightarrow> f32 \<Rightarrow> f32 \<Rightarrow> f32"
  cubicIn :: "f32 \<Rightarrow> f32"
  cubicOut :: "f32 \<Rightarrow> f32"
  translation :: "vector2 \<Rightarrow> 'm"
  mat_mult :: "'m \<Rightarrow> 'm \<Rightarrow> 'm"

definition MAX_SPEED_PER_SEC :: f32 where "MAX_SPEED_PER_SEC = f32_lit (15 / 10)"
definition MAX_SPEED_REACHED_IN_MS :: f32 where "MAX_SPEED_REACHED_IN_MS = f32_lit (400 / 1000)"

definition updateSpeed :: "('m, 'z) magnum_motion_scheme \<Rightarrow> bool \<Rightarrow> axis_momentum \<Rightarrow> axis_momentum" where
  "updateSpeed mg deceleration a =
     (let f = (if deceleration then cubicIn mg else cubicOut mg)
      in a\<lparr>speed := lerp mg (f32_lit 0) MAX_SPEED_PER_SEC (f (fdiv (timePassed a) MAX_SPEED_REACHED_IN_MS))\<rparr>)"

definition updateMatrix :: "('m, 'z) magnum_motion_scheme \<Rightarrow> axis_momentum \<Rightarrow> f32 \<Rightarrow> bool \<Rightarrow> 'm \<Rightarrow> 'm" where
  "updateMatrix mg a frameDuration deceleration mat =
     (let v = (if deceleration then momentumDirection a else currentDirection a);
          translationMatrix = translation mg (vmul v (vscalar (fmul (speed a) frameDuration)))
      in mat_mult mg translationMatrix mat)"

text \<open>\<open>fd\<close>: the duration of the previous frame.\<close>

definition considerAxis :: "('m, 'z) magnum_motion_scheme \<Rightarrow> f32 \<Rightarrow> axis_momentum \<times> 'm \<Rightarrow> axis_momentum \<times> 'm" where
  "considerAxis mg fd = (\<lambda>(a, mat).
     if \<not> isZero mg (currentDirection a)
     then
       let a = (if fless (timePassed a) MAX_SPEED_REACHED_IN_MS
                then
                  let a = a\<lparr>timePassed := fadd (timePassed a) fd\<rparr>
                  in if fless MAX_SPEED_REACHED_IN_MS (timePassed a)
                     then a\<lparr>timePassed := MAX_SPEED_REACHED_IN_MS\<rparr> else a
                else a);
           a = updateSpeed mg False a
       in (a, updateMatrix mg a fd False mat)
     else if f32_true (timePassed a)
     then
       let a = a\<lparr>timePassed := fsub (timePassed a) fd\<rparr>;
           a = (if fless (timePassed a) (f32_lit 0) then a\<lparr>timePassed := f32_of_int 0\<rparr> else a);
           a = updateSpeed mg True a
       in (a, updateMatrix mg a fd True mat)
     else (a, mat))"

record 'm keyboard_helper =
  km :: keyboard_movements
  axisX :: axis_momentum
  axisY :: axis_momentum
  kMatrix :: 'm

definition helper_init :: "'m \<Rightarrow> 'm keyboard_helper" where
  "helper_init mat = \<lparr>km = keyboard_init, axisX = axis_init, axisY = axis_init, kMatrix = mat\<rparr>"

definition keyboard_stopAnim :: "'m keyboard_helper \<Rightarrow> 'm keyboard_helper" where
  "keyboard_stopAnim h = h\<lparr>km := keyboard_init, axisX := axis_init, axisY := axis_init\<rparr>"

definition keyboard_advance :: "('m, 'z) magnum_motion_scheme \<Rightarrow> f32 \<Rightarrow> 'm keyboard_helper \<Rightarrow> 'm keyboard_helper" where
  "keyboard_advance mg fd h =
     (let (x, mat) = considerAxis mg fd (axisX h, kMatrix h);
          (y, mat) = considerAxis mg fd (axisY h, mat)
      in h\<lparr>axisX := x, axisY := y, kMatrix := mat\<rparr>)"

text \<open>A key event: whether it is an automatic repeat; the answer is whether it was accepted.\<close>

definition keyEvent :: "key \<Rightarrow> bool \<Rightarrow> bool \<Rightarrow> 'm keyboard_helper \<Rightarrow> bool \<times> 'm keyboard_helper" where
  "keyEvent key isRepeated isPress h =
     (if isRepeated then (False, h)
      else
        let (isMovement, km') = ackMovement key isPress (km h)
        in if isMovement
           then
             let (x, y) = updateMomentum key km' (axisX h, axisY h)
             in (True, h\<lparr>km := km', axisX := x, axisY := y\<rparr>)
           else (False, h\<lparr>km := km'\<rparr>))"

section \<open>The key pressed last wins\<close>

text \<open>The keys held after some presses and releases, the one pressed last in front.\<close>

fun held_keys :: "(key \<times> bool) list \<Rightarrow> key list" where
  "held_keys [] = []"
| "held_keys ((k, isPress) # evs) = (if isPress then k # removeAll k (held_keys evs) else removeAll k (held_keys evs))"

definition keyboard_run :: "(key \<times> bool) list \<Rightarrow> keyboard_movements" where
  "keyboard_run evs = foldr (\<lambda>(k, isPress) m. snd (ackMovement k isPress m)) evs keyboard_init"

lemma keyboard_run_Cons:
  "keyboard_run [] = keyboard_init"
  "keyboard_run ((k, isPress) # evs) = snd (ackMovement k isPress (keyboard_run evs))"
  by (simp_all add: keyboard_run_def)

definition latest_held :: "key \<Rightarrow> key \<Rightarrow> (key \<times> bool) list \<Rightarrow> bool option" where
  "latest_held k k' evs = (case filter (\<lambda>x. x = k \<or> x = k') (held_keys evs) of [] \<Rightarrow> None | x # _ \<Rightarrow> Some (x = k))"

lemma filter_removeAll_other: "x \<noteq> k \<Longrightarrow> x \<noteq> k' \<Longrightarrow>
    filter (\<lambda>y. y = k \<or> y = k') (removeAll x ks) = filter (\<lambda>y. y = k \<or> y = k') ks"
  by (induction ks) auto

lemma held_keys_set: "set (held_keys ((k, isPress) # evs)) =
    (if isPress then insert k (set (held_keys evs)) else set (held_keys evs) - {k})"
  by auto

lemma latest_held_other: "x \<noteq> k \<Longrightarrow> x \<noteq> k' \<Longrightarrow> latest_held k k' ((x, isPress) # evs) = latest_held k k' evs"
  by (simp add: latest_held_def filter_removeAll_other)

lemma latest_held_press:
  "latest_held k k' ((k, True) # evs) = Some True"
  "k \<noteq> k' \<Longrightarrow> latest_held k k' ((k', True) # evs) = Some False"
  by (simp_all add: latest_held_def)

lemma latest_held_release:
  assumes "k \<noteq> k'"
  shows "latest_held k k' ((k, False) # evs) = (if k' \<in> set (held_keys evs) then Some False else None)"
    and "latest_held k k' ((k', False) # evs) = (if k \<in> set (held_keys evs) then Some True else None)"
  using assms
  by (auto simp: latest_held_def filter_empty_conv split: list.split dest!: arg_cong [where f = set])

lemma latest_held_None: "latest_held k k' evs = None \<longleftrightarrow> k \<notin> set (held_keys evs) \<and> k' \<notin> set (held_keys evs)"
  by (auto simp: latest_held_def filter_empty_conv split: list.split dest!: arg_cong [where f = set])

lemma held_keys_mem:
  "movingLeft (keyboard_run evs) = (KeyLeft \<in> set (held_keys evs))"
  "movingRight (keyboard_run evs) = (KeyRight \<in> set (held_keys evs))"
  "movingUp (keyboard_run evs) = (KeyUp \<in> set (held_keys evs))"
  "movingDown (keyboard_run evs) = (KeyDown \<in> set (held_keys evs))"
proof (induction evs)
  case Nil
  { case 1 show ?case by (simp add: keyboard_run_Cons keyboard_init_def)
  next case 2 show ?case by (simp add: keyboard_run_Cons keyboard_init_def)
  next case 3 show ?case by (simp add: keyboard_run_Cons keyboard_init_def)
  next case 4 show ?case by (simp add: keyboard_run_Cons keyboard_init_def) }
next
  case (Cons ev evs)
  obtain k p where ev: "ev = (k, p)" by (cases ev)
  { case 1 show ?case using Cons by (cases k) (auto simp: ev keyboard_run_Cons ackMovement_def)
  next case 2 show ?case using Cons by (cases k) (auto simp: ev keyboard_run_Cons ackMovement_def)
  next case 3 show ?case using Cons by (cases k) (auto simp: ev keyboard_run_Cons ackMovement_def)
  next case 4 show ?case using Cons by (cases k) (auto simp: ev keyboard_run_Cons ackMovement_def) }
qed

lemma latestH_run:
  "(if horizontalPressed (keyboard_run evs) then Some (latestH (keyboard_run evs)) else None) = latest_held KeyRight KeyLeft evs"
proof (induction evs)
  case Nil
  show ?case by (simp add: keyboard_run_Cons keyboard_init_def horizontalPressed_def latest_held_def)
next
  case (Cons ev evs)
  obtain k p where ev: "ev = (k, p)" by (cases ev)
  have mem: "KeyLeft \<in> set (held_keys evs) \<longleftrightarrow> movingLeft (keyboard_run evs)"
    "KeyRight \<in> set (held_keys evs) \<longleftrightarrow> movingRight (keyboard_run evs)"
    by (simp_all add: held_keys_mem)
  show ?case
  proof (cases "k = KeyLeft \<or> k = KeyRight")
    case True
    then show ?thesis
      using mem latest_held_press [of KeyRight KeyLeft evs] latest_held_release [of KeyRight KeyLeft evs]
      by (cases p) (auto simp: ev keyboard_run_Cons ackMovement_def update_indirection_def horizontalPressed_def)
  next
    case False
    then have "latest_held KeyRight KeyLeft (ev # evs) = latest_held KeyRight KeyLeft evs"
      unfolding ev by (intro latest_held_other) auto
    moreover have "horizontalPressed (keyboard_run (ev # evs)) = horizontalPressed (keyboard_run evs)"
      "latestH (keyboard_run (ev # evs)) = latestH (keyboard_run evs)"
      using False by (cases k; simp add: ev keyboard_run_Cons ackMovement_def horizontalPressed_def)+
    ultimately show ?thesis using Cons.IH by presburger
  qed
qed

lemma latestV_run:
  "(if verticalPressed (keyboard_run evs) then Some (latestV (keyboard_run evs)) else None) = latest_held KeyUp KeyDown evs"
proof (induction evs)
  case Nil
  show ?case by (simp add: keyboard_run_Cons keyboard_init_def verticalPressed_def latest_held_def)
next
  case (Cons ev evs)
  obtain k p where ev: "ev = (k, p)" by (cases ev)
  have mem: "KeyDown \<in> set (held_keys evs) \<longleftrightarrow> movingDown (keyboard_run evs)"
    "KeyUp \<in> set (held_keys evs) \<longleftrightarrow> movingUp (keyboard_run evs)"
    by (simp_all add: held_keys_mem)
  show ?case
  proof (cases "k = KeyDown \<or> k = KeyUp")
    case True
    then show ?thesis
      using mem latest_held_press [of KeyUp KeyDown evs] latest_held_release [of KeyUp KeyDown evs]
      by (cases p) (auto simp: ev keyboard_run_Cons ackMovement_def update_indirection_def verticalPressed_def)
  next
    case False
    then have "latest_held KeyUp KeyDown (ev # evs) = latest_held KeyUp KeyDown evs"
      unfolding ev by (intro latest_held_other) auto
    moreover have "verticalPressed (keyboard_run (ev # evs)) = verticalPressed (keyboard_run evs)"
      "latestV (keyboard_run (ev # evs)) = latestV (keyboard_run evs)"
      using False by (cases k; simp add: ev keyboard_run_Cons ackMovement_def verticalPressed_def)+
    ultimately show ?thesis using Cons.IH by presburger
  qed
qed

text \<open>C22: After any presses and releases, repeated or unmatched ones included: an axis counts as pressed
  exactly when one of its keys is held, and its direction is that of the held key pressed last.\<close>

theorem keyboard_latest_wins:
  "(if horizontalPressed (keyboard_run evs) then Some (latestH (keyboard_run evs)) else None) = latest_held KeyRight KeyLeft evs
   \<and> (if verticalPressed (keyboard_run evs) then Some (latestV (keyboard_run evs)) else None) = latest_held KeyUp KeyDown evs
   \<and> keyPressed (keyboard_run evs) = (set (held_keys evs) \<inter> {KeyLeft, KeyRight, KeyUp, KeyDown} \<noteq> {})"
  using latestH_run [of evs] latestV_run [of evs]
  by (auto simp: keyPressed_def horizontalPressed_def verticalPressed_def held_keys_mem)

section \<open>Momentum stays in range\<close>

definition axis_ok :: "axis_momentum \<Rightarrow> bool" where
  "axis_ok a \<longleftrightarrow> f32_ok (timePassed a) \<and> fle (f32_lit 0) (timePassed a) \<and> fle (timePassed a) MAX_SPEED_REACHED_IN_MS"

lemma max_reached: "MAX_SPEED_REACHED_IN_MS = Num (13421773 / 33554432)"
  by code_simp

lemma lit_0: "f32_lit 0 = Zero False" "f32_of_int 0 = Zero False"
  by (simp_all add: f32_lit_def f32_of_int_def round_f32_def)

lemma max_reached_ok: "f32_ok MAX_SPEED_REACHED_IN_MS" "finite_f32 MAX_SPEED_REACHED_IN_MS"
  "f32_val MAX_SPEED_REACHED_IN_MS = 13421773 / 33554432"
  by (simp add: MAX_SPEED_REACHED_IN_MS_def f32_lit_def, simp_all add: max_reached)

lemma axis_ok_finite: "axis_ok a \<Longrightarrow> finite_f32 (timePassed a) \<and> 0 \<le> f32_val (timePassed a)"
  using fle_between_finite [of "Zero False" "timePassed a" MAX_SPEED_REACHED_IN_MS] max_reached_ok
  by (auto simp: axis_ok_def lit_0 fle_finite)

lemma accelerate_ok:
  assumes "axis_ok a" and "finite_f32 fd" and "0 \<le> f32_val fd"
    and t: "t = fadd (timePassed a) fd"
  shows "axis_ok (a\<lparr>timePassed := (if fless MAX_SPEED_REACHED_IN_MS t then MAX_SPEED_REACHED_IN_MS else t)\<rparr>)"
proof -
  have "fle (timePassed a) t" unfolding t
    using axis_ok_finite [OF assms(1)] assms by (intro fadd_nonneg_ge) (auto simp: axis_ok_def)
  then have low: "fle (f32_lit 0) t" using assms(1) fle_trans unfolding axis_ok_def by blast
  have top: "fle (f32_lit 0) MAX_SPEED_REACHED_IN_MS" by (simp add: lit_0 fle_finite max_reached_ok)
  have "fle MAX_SPEED_REACHED_IN_MS MAX_SPEED_REACHED_IN_MS" by (rule fle_refl) (simp add: max_reached)
  moreover have "t \<noteq> NaN" using low by (auto simp: fle_def)
  then have "fle t MAX_SPEED_REACHED_IN_MS" if "\<not> fless MAX_SPEED_REACHED_IN_MS t"
    using that by (simp add: fle_def max_reached)
  ultimately show ?thesis using low top by (simp add: axis_ok_def max_reached_ok t)
qed

lemma decelerate_ok:
  assumes "axis_ok a" and "finite_f32 fd" and "0 \<le> f32_val fd"
    and t: "t = fsub (timePassed a) fd"
  shows "axis_ok (a\<lparr>timePassed := (if fless t (f32_lit 0) then f32_of_int 0 else t)\<rparr>)"
proof -
  have "fle t (timePassed a)" unfolding t
    using axis_ok_finite [OF assms(1)] assms by (intro fsub_nonneg_le) (auto simp: axis_ok_def)
  then have up: "fle t MAX_SPEED_REACHED_IN_MS" using assms(1) fle_trans unfolding axis_ok_def by blast
  then have "t \<noteq> NaN" by (auto simp: fle_def)
  then have "fle (f32_lit 0) t" if "\<not> fless t (f32_lit 0)" using that by (simp add: fle_def lit_0)
  moreover have "fle (f32_lit 0) MAX_SPEED_REACHED_IN_MS" "fle (f32_lit 0) (f32_lit 0)"
    by (simp_all add: lit_0 fle_finite max_reached_ok)
  ultimately show ?thesis using up by (simp add: axis_ok_def lit_0 t)
qed

text \<open>What Magnum documents of the two easings and of \<open>lerp\<close>, as far as the speed depends on it.\<close>

definition unit_f32 :: "f32 \<Rightarrow> bool" where
  "unit_f32 t \<longleftrightarrow> fle (f32_lit 0) t \<and> fle t (f32_lit 1)"

definition eases :: "('m, 'z) magnum_motion_scheme \<Rightarrow> bool" where
  "eases mg \<longleftrightarrow>
     (\<forall>t. unit_f32 t \<longrightarrow> unit_f32 (cubicIn mg t) \<and> unit_f32 (cubicOut mg t))
     \<and> (\<forall>b t. unit_f32 t \<longrightarrow> fle (f32_lit 0) (lerp mg (f32_lit 0) b t) \<and> fle (lerp mg (f32_lit 0) b t) b
          \<or> \<not> fle (f32_lit 0) b)"

definition speed_ok :: "axis_momentum \<Rightarrow> bool" where
  "speed_ok a \<longleftrightarrow> fle (f32_lit 0) (speed a) \<and> fle (speed a) MAX_SPEED_PER_SEC"

lemma fraction_unit:
  assumes "axis_ok a"
  shows "unit_f32 (fdiv (timePassed a) MAX_SPEED_REACHED_IN_MS)"
proof -
  let ?q = "f32_val (timePassed a) / (13421773 / 33554432)"
  have fin: "finite_f32 (timePassed a)" "0 \<le> f32_val (timePassed a)" using axis_ok_finite [OF assms] by auto
  have le: "f32_val (timePassed a) \<le> 13421773 / 33554432"
    using assms fin max_reached_ok by (simp add: axis_ok_def fle_finite)
  have "\<exists>s. fdiv (timePassed a) MAX_SPEED_REACHED_IN_MS = round_f32 s ?q"
    unfolding max_reached using fin(1) by (cases "timePassed a") (auto simp: round_f32_def)
  then obtain s where d: "fdiv (timePassed a) MAX_SPEED_REACHED_IN_MS = round_f32 s ?q" by blast
  have q: "0 \<le> ?q" "?q \<le> 1" using fin(2) le by (simp_all add: field_simps)
  have "fle (f32_lit 0) (round_f32 s ?q)" unfolding f32_lit_def using q(1) by (rule round_f32_mono)
  moreover have "fle (round_f32 s ?q) (f32_lit 1)" unfolding f32_lit_def using q(2) by (rule round_f32_mono)
  moreover note d
  ultimately show ?thesis by (simp add: unit_f32_def)
qed

lemma updateSpeed_ok:
  assumes "axis_ok a" and "eases mg"
  shows "axis_ok (updateSpeed mg d a) \<and> speed_ok (updateSpeed mg d a)"
proof -
  let ?x = "(if d then cubicIn mg else cubicOut mg) (fdiv (timePassed a) MAX_SPEED_REACHED_IN_MS)"
  have "unit_f32 ?x" using fraction_unit [OF assms(1)] assms(2) unfolding eases_def by (metis (full_types))
  moreover have "fle (f32_lit 0) MAX_SPEED_PER_SEC"
    unfolding MAX_SPEED_PER_SEC_def f32_lit_def by (rule round_f32_mono) simp
  ultimately have "fle (f32_lit 0) (lerp mg (f32_lit 0) MAX_SPEED_PER_SEC ?x)"
    "fle (lerp mg (f32_lit 0) MAX_SPEED_PER_SEC ?x) MAX_SPEED_PER_SEC"
    using assms(2) unfolding eases_def by blast+
  then show ?thesis using assms(1) by (simp add: updateSpeed_def speed_ok_def axis_ok_def Let_def)
qed

lemma considerAxis_ok:
  assumes "axis_ok a" and "finite_f32 fd" and "0 \<le> f32_val fd"
  shows "axis_ok (fst (considerAxis mg fd (a, mat)))"
    and "eases mg \<Longrightarrow> speed_ok a \<Longrightarrow> speed_ok (fst (considerAxis mg fd (a, mat)))"
proof -
  have upd: "axis_ok (updateSpeed mg d b) = axis_ok b" for d b
    by (simp add: axis_ok_def updateSpeed_def Let_def)
  let ?up = "a\<lparr>timePassed := (if fless MAX_SPEED_REACHED_IN_MS (fadd (timePassed a) fd) then MAX_SPEED_REACHED_IN_MS
       else fadd (timePassed a) fd)\<rparr>"
  let ?down = "a\<lparr>timePassed := (if fless (fsub (timePassed a) fd) (f32_lit 0) then f32_of_int 0
       else fsub (timePassed a) fd)\<rparr>"
  have ok: "axis_ok ?up" "axis_ok ?down"
    using accelerate_ok [OF assms refl] decelerate_ok [OF assms refl] by simp_all
  have c: "fst (considerAxis mg fd (a, mat)) \<in> {a, updateSpeed mg False a, updateSpeed mg False ?up, updateSpeed mg True ?down}"
    by (simp add: considerAxis_def Let_def)
  with ok assms(1) show "axis_ok (fst (considerAxis mg fd (a, mat)))" by (auto simp: upd)
  show "speed_ok (fst (considerAxis mg fd (a, mat)))" if "eases mg" "speed_ok a"
    using c updateSpeed_ok [OF _ that(1)] ok assms(1) that(2) by auto
qed

datatype motion_input = Key key bool bool | Frame f32 | Stop

fun motion_exec :: "('m, 'z) magnum_motion_scheme \<Rightarrow> motion_input \<Rightarrow> 'm keyboard_helper \<Rightarrow> 'm keyboard_helper" where
  "motion_exec mg (Key k isRepeated isPress) h = snd (keyEvent k isRepeated isPress h)"
| "motion_exec mg (Frame fd) h = keyboard_advance mg fd h"
| "motion_exec mg Stop h = keyboard_stopAnim h"

definition frame_ok :: "motion_input \<Rightarrow> bool" where
  "frame_ok ev \<longleftrightarrow> (case ev of Frame fd \<Rightarrow> finite_f32 fd \<and> 0 \<le> f32_val fd | _ \<Rightarrow> True)"

lemma axis_init_ok: "axis_ok axis_init" "speed_ok axis_init"
proof -
  have "fle (f32_lit 0) MAX_SPEED_PER_SEC"
    unfolding MAX_SPEED_PER_SEC_def f32_lit_def by (rule round_f32_mono) simp
  then show "axis_ok axis_init" "speed_ok axis_init"
    by (simp_all add: axis_ok_def speed_ok_def axis_init_def lit_0 fle_finite max_reached_ok)
qed

lemma direction_ok [simp]:
  "axis_ok (goBy f b a) = axis_ok a" "speed_ok (goBy f b a) = speed_ok a"
  "axis_ok (defineMomentum a) = axis_ok a" "speed_ok (defineMomentum a) = speed_ok a"
  by (simp_all add: axis_ok_def speed_ok_def goBy_def defineMomentum_def Let_def)

lemma motion_exec_ok:
  assumes "frame_ok ev" and "eases mg"
    and "axis_ok (axisX h)" "axis_ok (axisY h)" "speed_ok (axisX h)" "speed_ok (axisY h)"
  shows "axis_ok (axisX (motion_exec mg ev h)) \<and> axis_ok (axisY (motion_exec mg ev h))
    \<and> speed_ok (axisX (motion_exec mg ev h)) \<and> speed_ok (axisY (motion_exec mg ev h))"
proof (cases ev)
  case (Key k r p)
  with assms show ?thesis
    by (auto simp: keyEvent_def updateMomentum_def split: prod.split if_splits)
next
  case (Frame fd)
  with assms(1) have fd: "finite_f32 fd" "0 \<le> f32_val fd" by (simp_all add: frame_ok_def)
  show ?thesis
    using considerAxis_ok [OF assms(3) fd, where mg = mg] considerAxis_ok [OF assms(4) fd, where mg = mg] assms(2,5,6)
    by (simp add: Frame keyboard_advance_def split_beta Let_def)
next
  case Stop
  then show ?thesis by (simp add: keyboard_stopAnim_def axis_init_ok)
qed

interpretation motion: machine "motion_exec mg" frame_ok
    "\<lambda>h. eases mg \<and> axis_ok (axisX h) \<and> axis_ok (axisY h) \<and> speed_ok (axisX h) \<and> speed_ok (axisY h)" for mg :: "('m, 'z) magnum_motion_scheme"
  by unfold_locales (simp add: motion_exec_ok)


text \<open>A stand-in for Magnum: steps instead of curves, translations added up.\<close>

definition step_motion :: "vector2 magnum_motion" where
  "step_motion = \<lparr>isZero = (\<lambda>v. v = vzero), lerp = (\<lambda>a b t. if fle t (f32_lit 0) then a else b),
     cubicIn = (\<lambda>t. t), cubicOut = (\<lambda>t. t), translation = (\<lambda>v. v), mat_mult = vadd\<rparr>"


end
