(* ===== verification/Animation.thy ===== *)
theory Animation
  imports KeyboardNav
begin

text \<open>
  \<open>src/app/widgets/animation/\<close>: animators of a matrix. Every animator points to a matrix it may share
  with others, which the operations here take and return; the animators a starting one stops are the
  argument \<open>excluded\<close>. Magnum's \<open>Animation::Player\<close> of a track from 0 to 1 is a parameter: its
  \<open>p_advance\<close> answers the value it hands to the callback, when it calls it.
\<close>

record 'p magnum_player =
  p_play :: "f32 \<Rightarrow> 'p \<Rightarrow> 'p"
  p_stop :: "'p \<Rightarrow> 'p"
  p_advance :: "f32 \<Rightarrow> 'p \<Rightarrow> 'p \<times> f32 option"
  p_playing :: "'p \<Rightarrow> bool"

text \<open>What Magnum documents: a player that is not playing does not start by being advanced.\<close>

definition player_ok :: "'p magnum_player \<Rightarrow> bool" where
  "player_ok pl \<longleftrightarrow> (\<forall>p. \<not> p_playing pl (p_stop pl p))
     \<and> (\<forall>p t. \<not> p_playing pl p \<longrightarrow> \<not> p_playing pl (fst (p_advance pl t p)))"

record 'a anim_state =
  animFrom :: 'a
  animTo :: 'a
  current :: 'a
  previous :: 'a

record ('p, 'a) player_animator =
  animPlayer :: 'p
  animState :: "'a anim_state"

definition startAnim :: "('s \<Rightarrow> 's) list \<Rightarrow> 's \<Rightarrow> 's" where
  "startAnim excluded s = fold (\<lambda>stop s. stop s) excluded s"

definition player_stopAnim :: "'p magnum_player \<Rightarrow> ('p, 'a) player_animator \<Rightarrow> ('p, 'a) player_animator" where
  "player_stopAnim pl a = a\<lparr>animPlayer := p_stop pl (animPlayer a)\<rparr>"

definition isAnimationPlaying :: "'p magnum_player \<Rightarrow> ('p, 'a) player_animator \<Rightarrow> bool" where
  "isAnimationPlaying pl a = p_playing pl (animPlayer a)"

definition player_advance :: "'p magnum_player \<Rightarrow> (f32 \<Rightarrow> 'a anim_state \<Rightarrow> 'a anim_state) \<Rightarrow>
    (('p, 'a) player_animator \<Rightarrow> 'm \<Rightarrow> 'm) \<Rightarrow> f32 \<Rightarrow> ('p, 'a) player_animator \<times> 'm \<Rightarrow> ('p, 'a) player_animator \<times> 'm" where
  "player_advance pl animCb onAnimationProgress previousFrameTime = (\<lambda>(a, mat).
     let (p, prc) = p_advance pl previousFrameTime (animPlayer a);
         st = (case prc of None \<Rightarrow> animState a | Some x \<Rightarrow> animCb x (animState a));
         a = a\<lparr>animPlayer := p, animState := st\<rparr>
     in if \<not> isAnimationPlaying pl a then (a, mat) else (a, onAnimationProgress a mat))"

definition player_startAnim :: "'p magnum_player \<Rightarrow> f32 \<Rightarrow> ('s \<Rightarrow> 's) list \<Rightarrow> ('p, 'a) player_animator \<times> 's \<Rightarrow>
    ('p, 'a) player_animator \<times> 's" where
  "player_startAnim pl previousFrameTime excluded = (\<lambda>(a, s).
     let s = startAnim excluded s
     in (a\<lparr>animPlayer := p_play pl previousFrameTime (animPlayer a)\<rparr>, s))"

text \<open>\<open>zero\<close>: a default-constructed \<open>AnimType\<close>.\<close>

definition updateAnimationAndPlay :: "'p magnum_player \<Rightarrow> f32 \<Rightarrow> ('s \<Rightarrow> 's) list \<Rightarrow> 'a \<Rightarrow> 'a \<Rightarrow> 'a \<Rightarrow>
    ('p, 'a) player_animator \<times> 's \<Rightarrow> ('p, 'a) player_animator \<times> 's" where
  "updateAnimationAndPlay pl previousFrameTime excluded zero frm to = (\<lambda>(a, s).
     let a = a\<lparr>animState := (animState a)\<lparr>animFrom := frm, animTo := to, current := zero\<rparr>\<rparr>
     in player_startAnim pl previousFrameTime excluded (a, s))"

definition setAnimationKeyframe :: "'p magnum_player \<Rightarrow> 'a \<Rightarrow> ('p, 'a) player_animator \<Rightarrow> ('p, 'a) player_animator" where
  "setAnimationKeyframe pl to a =
     (let a = player_stopAnim pl a
      in a\<lparr>animState := (animState a)\<lparr>animFrom := to, animTo := to, current := to\<rparr>\<rparr>)"

definition defaultAnimationCallback :: "('a \<Rightarrow> 'a \<Rightarrow> f32 \<Rightarrow> 'a) \<Rightarrow> (f32 \<Rightarrow> f32) \<Rightarrow> f32 \<Rightarrow> 'a anim_state \<Rightarrow> 'a anim_state" where
  "defaultAnimationCallback lrp easing prc st = st\<lparr>current := lrp (animFrom st) (animTo st) (easing prc)\<rparr>"

text \<open>\<open>TimelineBound\<close>: the registered animators are advanced in the order they were constructed.\<close>

definition timeline_advance :: "('s \<Rightarrow> 's) list \<Rightarrow> 's \<Rightarrow> 's" where
  "timeline_advance animated s = fold (\<lambda>advance s. advance s) animated s"

section \<open>Running an animation\<close>

text \<open>The frames of an animation: advance once per frame time.\<close>

fun run_frames :: "'p magnum_player \<Rightarrow> (f32 \<Rightarrow> 'a anim_state \<Rightarrow> 'a anim_state) \<Rightarrow>
    (('p, 'a) player_animator \<Rightarrow> 'm \<Rightarrow> 'm) \<Rightarrow> f32 list \<Rightarrow> ('p, 'a) player_animator \<times> 'm \<Rightarrow> ('p, 'a) player_animator \<times> 'm" where
  "run_frames pl animCb onProgress [] x = x"
| "run_frames pl animCb onProgress (t # ts) x = run_frames pl animCb onProgress ts (player_advance pl animCb onProgress t x)"

lemma stopped_advance:
  assumes "player_ok pl" and "\<not> isAnimationPlaying pl a"
  shows "snd (player_advance pl animCb onProgress t (a, mat)) = mat"
    and "\<not> isAnimationPlaying pl (fst (player_advance pl animCb onProgress t (a, mat)))"
  using assms by (auto simp: player_advance_def isAnimationPlaying_def player_ok_def split_beta Let_def)

lemma stopped_frames:
  assumes "player_ok pl" and "\<not> isAnimationPlaying pl a"
  shows "snd (run_frames pl animCb onProgress ts (a, mat)) = mat"
  using assms(2)
proof (induction ts arbitrary: a mat)
  case (Cons t ts)
  from stopped_advance [OF assms(1) Cons.prems] Cons.IH show ?case
    by (metis prod.collapse run_frames.simps(2))
qed simp

lemma run_frames_append: "run_frames pl cb op (ts @ us) x = run_frames pl cb op us (run_frames pl cb op ts x)"
  by (induction ts arbitrary: x) auto


text \<open>A player for examples: it plays for a number of frames and hands over the time of each.\<close>

definition countdown_player :: "nat \<Rightarrow> nat magnum_player" where
  "countdown_player n = \<lparr>p_play = (\<lambda>_ _. n), p_stop = (\<lambda>_. 0),
     p_advance = (\<lambda>t k. (k - 1, if k = 0 then None else Some t)), p_playing = (\<lambda>k. 0 < k)\<rparr>"

lemma countdown_ok: "player_ok (countdown_player n)"
  by (simp add: player_ok_def countdown_player_def)


end
