(* ===== verification/MouseNav.thy ===== *)
theory MouseNav
  imports Float32
begin

text \<open>
  \<open>src/app/widgets/navigation/MouseState.hpp\<close> and \<open>MouseMovements.hpp\<close>: what the application
  remembers of the mouse buttons, and the sampling of recent movements that gives a released drag its
  impulse. Times are readings of the system clock in nanoseconds.
\<close>

text \<open>C++ integer division and \<open>duration_cast\<close> truncate towards zero.\<close>

definition trunc_div :: "int \<Rightarrow> int \<Rightarrow> int" where
  "trunc_div a b = sgn a * sgn b * (\<bar>a\<bar> div \<bar>b\<bar>)"

definition to_ms :: "int \<Rightarrow> int" where
  "to_ms d = trunc_div d 1000000"

lemma trunc_div_nonneg: "0 \<le> a \<Longrightarrow> 0 < b \<Longrightarrow> trunc_div a b = a div b"
  by (cases "a = 0") (simp_all add: trunc_div_def)

lemma to_ms_less: "0 < n \<Longrightarrow> (to_ms d < n) = (d < n * 1000000)"
proof (cases "0 \<le> d")
  case True
  assume "0 < n"
  with True show ?thesis by (simp add: to_ms_def trunc_div_nonneg) linarith
next
  case False
  assume n: "0 < n"
  have "to_ms d \<le> 0" using False by (simp add: to_ms_def trunc_div_def pos_imp_zdiv_nonneg_iff)
  moreover have "d < n * 1000000" using False n by (smt (verit) mult_pos_pos)
  ultimately show ?thesis using n by linarith
qed

lemma to_ms_nonneg: "0 \<le> d \<Longrightarrow> 0 \<le> to_ms d"
  by (simp add: to_ms_def trunc_div_nonneg)

section \<open>MouseState\<close>

record mouse_state =
  rPressed :: bool
  lPressed :: bool
  lMoved :: bool
  lDblClick :: bool
  lPressedT :: int

definition DOUBLE_CLICK_DELAY_MS :: int where "DOUBLE_CLICK_DELAY_MS = 200"

definition mouse_init :: mouse_state where
  "mouse_init = \<lparr>rPressed = False, lPressed = False, lMoved = False, lDblClick = False, lPressedT = 0\<rparr>"

definition hasLeftDoubleClick :: "mouse_state \<Rightarrow> bool" where
  "hasLeftDoubleClick m = lDblClick m"

definition isLeftClickDragging :: "mouse_state \<Rightarrow> bool" where
  "isLeftClickDragging m = lMoved m"

definition leftPressed :: "int \<Rightarrow> mouse_state \<Rightarrow> mouse_state" where
  "leftPressed now m =
     (let m = m\<lparr>lPressed := True\<rparr>;
          elapsedMs = to_ms (now - lPressedT m);
          m = m\<lparr>lPressedT := now, lMoved := False\<rparr>
      in m\<lparr>lDblClick := elapsedMs < DOUBLE_CLICK_DELAY_MS\<rparr>)"

definition leftReleased :: "mouse_state \<Rightarrow> mouse_state" where
  "leftReleased m = m\<lparr>lDblClick := False, lPressed := False, lMoved := False\<rparr>"

definition rightPressed :: "mouse_state \<Rightarrow> mouse_state" where
  "rightPressed m = m\<lparr>rPressed := True\<rparr>"

definition rightReleased :: "mouse_state \<Rightarrow> mouse_state" where
  "rightReleased m = m\<lparr>rPressed := False\<rparr>"

definition mayBeDragging :: "mouse_state \<Rightarrow> mouse_state" where
  "mayBeDragging m = (if lPressed m \<and> \<not> lMoved m then m\<lparr>lMoved := True\<rparr> else m)"

datatype mouse_input = LeftPress int | LeftRelease | RightPress | RightRelease | Move

fun mouse_exec :: "mouse_input \<Rightarrow> mouse_state \<Rightarrow> mouse_state" where
  "mouse_exec (LeftPress now) m = leftPressed now m"
| "mouse_exec LeftRelease m = leftReleased m"
| "mouse_exec RightPress m = rightPressed m"
| "mouse_exec RightRelease m = rightReleased m"
| "mouse_exec Move m = mayBeDragging m"

text \<open>What the inputs say, latest first: the button, the movement since, the times of the presses.\<close>

fun held :: "mouse_input list \<Rightarrow> bool" where
  "held [] = False"
| "held (LeftPress _ # evs) = True"
| "held (LeftRelease # evs) = False"
| "held (_ # evs) = held evs"

fun moved :: "mouse_input list \<Rightarrow> bool" where
  "moved [] = False"
| "moved (LeftPress _ # evs) = False"
| "moved (LeftRelease # evs) = False"
| "moved (Move # evs) = held evs"
| "moved (_ # evs) = moved evs"

fun press_times :: "mouse_input list \<Rightarrow> int list" where
  "press_times [] = []"
| "press_times (LeftPress t # evs) = t # press_times evs"
| "press_times (_ # evs) = press_times evs"

text \<open>The epoch stands for the press before the first.\<close>

definition quick :: "int list \<Rightarrow> bool" where
  "quick ts = (case ts @ [0, 0] of t # u # _ \<Rightarrow> t - u < 200000000 | _ \<Rightarrow> False)"

lemma moved_held: "moved evs \<Longrightarrow> held evs"
  by (induction evs rule: moved.induct) auto

lemma mouse_run:
  "let m = foldr mouse_exec evs mouse_init in
     lPressed m = held evs \<and> lMoved m = moved evs \<and> lPressedT m = hd (press_times evs @ [0])
     \<and> lDblClick m = (held evs \<and> quick (press_times evs))"
proof (induction evs)
  case Nil
  show ?case by (simp add: mouse_init_def)
next
  case (Cons ev evs)
  define m where "m = foldr mouse_exec evs mouse_init"
  have IH: "lPressed m = held evs" "lMoved m = moved evs" "lPressedT m = hd (press_times evs @ [0])"
    "lDblClick m = (held evs \<and> quick (press_times evs))"
    using Cons by (simp_all add: m_def Let_def)
  have "quick (t # press_times evs) = (t - hd (press_times evs @ [0]) < 200000000)" for t
    by (cases "press_times evs") (simp_all add: quick_def)
  then have "lDblClick (leftPressed t m) = quick (t # press_times evs)" for t
    by (simp add: leftPressed_def Let_def DOUBLE_CLICK_DELAY_MS_def to_ms_less IH(3))
  moreover have "foldr mouse_exec (ev # evs) mouse_init = mouse_exec ev m" by (simp add: m_def)
  ultimately show ?case
    using IH moved_held [of evs]
    by (cases ev) (auto simp: leftPressed_def leftReleased_def rightPressed_def rightReleased_def mayBeDragging_def Let_def)
qed

text \<open>After any inputs (latest first): a drag is reported exactly when the left button is down and the
  mouse has moved since it went down; a double click exactly when it is down and went down less than
  200 ms after the press before it, so a third quick press counts as a double click again, and so does
  any press after the clock was set back.\<close>

theorem mouse_state_spec:
  "let m = foldr mouse_exec evs mouse_init in
     isLeftClickDragging m = moved evs \<and> (isLeftClickDragging m \<longrightarrow> lPressed m)
     \<and> hasLeftDoubleClick m = (held evs \<and> quick (press_times evs))"
  using mouse_run [of evs] moved_held [of evs]
  by (simp add: Let_def isLeftClickDragging_def hasLeftDoubleClick_def)

theorem mouse_state_spec_witness:
  "hasLeftDoubleClick (foldr mouse_exec [LeftPress 10000000150, LeftRelease, LeftPress 10000000050] mouse_init)"
  using mouse_state_spec [of "[LeftPress 10000000150, LeftRelease, LeftPress 10000000050]"]
  by (simp add: quick_def Let_def)

section \<open>MouseMovements\<close>

record mouse_movements =
  accelBuffer :: "(int \<times> vector2) list"
  accelLatestUpdate :: int
  accelCumulator :: vector2
  accelMs :: int
  accelBufferCount :: int
  accelMsPassedTotal :: int
  accelMsPassedLast :: int
  timeCredits :: int

definition ACCELERATION_THRESHOLD_MS :: int where "ACCELERATION_THRESHOLD_MS = 200"

definition movements_init :: mouse_movements where
  "movements_init =
     \<lparr>accelBuffer = [], accelLatestUpdate = 0, accelCumulator = vzero, accelMs = 0, accelBufferCount = 0,
      accelMsPassedTotal = 0, accelMsPassedLast = 0, timeCredits = 0\<rparr>"

definition updateAccelerationTime :: "int \<Rightarrow> mouse_movements \<Rightarrow> mouse_movements" where
  "updateAccelerationTime now m =
     (let m = (if accelBufferCount m \<noteq> 0
               then let passed = to_ms (now - accelLatestUpdate m)
                    in m\<lparr>accelMsPassedLast := passed, accelMsPassedTotal := accelMsPassedTotal m + passed,
                         accelMs := accelMs m + passed\<rparr>
               else m)
      in m\<lparr>accelLatestUpdate := now\<rparr>)"

text \<open>The loop that drops the oldest samples the credits pay for.\<close>

fun drop_samples :: "(int \<times> vector2) list \<Rightarrow> int \<Rightarrow> int \<Rightarrow> vector2 \<Rightarrow>
    (int \<times> vector2) list \<times> int \<times> int \<times> vector2" where
  "drop_samples [] credits ms cumulator = ([], credits, ms, cumulator)"
| "drop_samples ((t, vec) # buf) credits ms cumulator =
     (if t > credits then ((t, vec) # buf, credits, ms, cumulator)
      else drop_samples buf (credits - t) (ms - t) (vsub cumulator vec))"

definition mayReduceAccelerationBuffer :: "mouse_movements \<Rightarrow> mouse_movements" where
  "mayReduceAccelerationBuffer m =
     (if accelMsPassedTotal m > ACCELERATION_THRESHOLD_MS
      then
        let (buf, credits, ms, cumulator) =
              drop_samples (accelBuffer m) (timeCredits m + accelMsPassedLast m) (accelMs m) (accelCumulator m)
        in m\<lparr>accelBuffer := buf, timeCredits := credits, accelMs := ms, accelCumulator := cumulator\<rparr>
      else m)"

definition addToAccelerationBuffer :: "int \<Rightarrow> vector2 \<Rightarrow> mouse_movements \<Rightarrow> mouse_movements" where
  "addToAccelerationBuffer now tr m =
     (let m = updateAccelerationTime now m;
          m = m\<lparr>accelCumulator := vadd (accelCumulator m) tr, accelBufferCount := accelBufferCount m + 1,
                accelBuffer := accelBuffer m @ [(accelMsPassedLast m, tr)]\<rparr>
      in mayReduceAccelerationBuffer m)"

definition isComputing :: "mouse_movements \<Rightarrow> bool" where
  "isComputing m \<longleftrightarrow> accelMsPassedTotal m \<noteq> 0"

definition resetAccelerationBuffer :: "mouse_movements \<Rightarrow> mouse_movements" where
  "resetAccelerationBuffer m =
     m\<lparr>accelBuffer := [], accelCumulator := vzero, accelBufferCount := 0, accelMsPassedTotal := 0, accelMs := 0,
       accelMsPassedLast := 0, timeCredits := 0\<rparr>"

definition getAccelerationTranslation :: "mouse_movements \<Rightarrow> vector2" where
  "getAccelerationTranslation m =
     (let bufSize = length (accelBuffer m)
      in if bufSize = 0 \<or> accelMs m = 0 then vzero
         else
           let sampleStrength = fdiv (f32_of_int (int bufSize)) (f32_of_int 100);
               sampleStrength = (if fless (f32_of_int 1) sampleStrength then f32_of_int 1 else sampleStrength);
               accelerationFactor = fsqrt (fdiv (f32_of_int ACCELERATION_THRESHOLD_MS) (f32_of_int (accelMs m)));
               definitiveAccel = fmul accelerationFactor sampleStrength
           in vmul (accelCumulator m) (vscalar definitiveAccel))"

definition computeAccelerationBuffer :: "int \<Rightarrow> mouse_movements \<Rightarrow> vector2 \<times> mouse_movements" where
  "computeAccelerationBuffer now m =
     (let m = updateAccelerationTime now m;
          m = mayReduceAccelerationBuffer m;
          out = getAccelerationTranslation m
      in (out, resetAccelerationBuffer m))"

text \<open>Window coordinates to vectors; sizes and positions are pairs of \<open>int\<close>.\<close>

definition translatedVector :: "int \<times> int \<Rightarrow> int \<times> int \<Rightarrow> vector2" where
  "translatedVector pixelCoords framebufferSize =
     vdiv (vdiv \<lparr>vx = f32_of_int (fst pixelCoords), vy = f32_of_int (snd pixelCoords)\<rparr>
                (vscalar (f32_of_int (snd framebufferSize))))
          \<lparr>vx = f32_lit 1, vy = f32_lit (- 1)\<rparr>"

definition translatedVectorAbs :: "int \<times> int \<Rightarrow> int \<times> int \<Rightarrow> vector2" where
  "translatedVectorAbs moveCoords framebufferSize =
     (let x = trunc_div (fst moveCoords - trunc_div (fst framebufferSize) 2) (- 1);
          y = trunc_div (snd moveCoords - trunc_div (snd framebufferSize) 2) 1
      in vdiv \<lparr>vx = f32_of_int x, vy = f32_of_int y\<rparr> (vscalar (f32_of_int (snd framebufferSize))))"

section \<open>The sampling window\<close>

definition times :: "(int \<times> vector2) list \<Rightarrow> int" where
  "times buf = sum_list (map fst buf)"

lemma times_simps [simp]:
  "times [] = 0" "times ((t, v) # buf) = t + times buf" "times (xs @ ys) = times xs + times ys"
  by (simp_all add: times_def)

definition window_inv :: "mouse_movements \<Rightarrow> bool" where
  "window_inv m \<longleftrightarrow> accelMs m = times (accelBuffer m) \<and> (\<forall>(t, v) \<in> set (accelBuffer m). 0 \<le> t)
     \<and> 0 \<le> timeCredits m \<and> 0 \<le> accelMsPassedTotal m \<and> 0 \<le> accelMsPassedLast m
     \<and> accelMs m - timeCredits m \<le> ACCELERATION_THRESHOLD_MS
     \<and> (accelMsPassedTotal m \<le> ACCELERATION_THRESHOLD_MS \<longrightarrow> timeCredits m = 0 \<and> accelMs m = accelMsPassedTotal m)
     \<and> (case accelBuffer m of [] \<Rightarrow> True
        | (t, v) # buf \<Rightarrow> accelMsPassedTotal m \<le> ACCELERATION_THRESHOLD_MS \<or> timeCredits m < t)"

lemma drop_samples_inv:
  assumes "drop_samples buf credits ms cum = (buf', credits', ms', cum')"
    and "\<forall>(t, v) \<in> set buf. 0 \<le> t" and "0 \<le> credits" and "ms = times buf"
  shows "ms' = times buf' \<and> (\<forall>(t, v) \<in> set buf'. 0 \<le> t) \<and> 0 \<le> credits' \<and> ms' - credits' = ms - credits
    \<and> (case buf' of [] \<Rightarrow> True | (t, v) # _ \<Rightarrow> credits' < t)"
  using assms
proof (induction buf credits ms cum rule: drop_samples.induct)
  case (1 credits ms cum)
  then show ?case by auto
next
  case (2 t v buf credits ms cum)
  show ?case
  proof (cases "t > credits")
    case True
    with 2 show ?thesis by auto
  next
    case False
    with 2 show ?thesis by simp
  qed
qed

text \<open>Time passes, a sample is added (or none, when the drag ends), the buffer is reduced.\<close>

lemma reduce_inv:
  assumes "window_inv m" and "0 \<le> p"
    and "accelMsPassedLast m1 = p" and "accelMsPassedTotal m1 = accelMsPassedTotal m + p"
    and "accelMs m1 = accelMs m + p" and "timeCredits m1 = timeCredits m"
    and "accelBuffer m1 = accelBuffer m @ [(p, tr)]"
  shows "window_inv (mayReduceAccelerationBuffer m1)"
proof (cases "accelMsPassedTotal m1 > ACCELERATION_THRESHOLD_MS")
  case False
  with assms show ?thesis
    by (auto simp: window_inv_def mayReduceAccelerationBuffer_def split: list.splits)
next
  case True
  obtain buf credits ms cum where d:
    "drop_samples (accelBuffer m1) (timeCredits m1 + accelMsPassedLast m1) (accelMs m1) (accelCumulator m1) = (buf, credits, ms, cum)"
    by (metis prod_cases4)
  have "accelMs m1 = times (accelBuffer m1)" "\<forall>(t, v) \<in> set (accelBuffer m1). 0 \<le> t"
    "0 \<le> timeCredits m1 + accelMsPassedLast m1"
    using assms by (auto simp: window_inv_def)
  from drop_samples_inv [OF d this(2,3,1)]
  have r: "ms = times buf \<and> (\<forall>(t, v) \<in> set buf. 0 \<le> t) \<and> 0 \<le> credits
      \<and> ms - credits = accelMs m1 - (timeCredits m1 + accelMsPassedLast m1)
      \<and> (case buf of [] \<Rightarrow> True | (t, v) # _ \<Rightarrow> credits < t)" .
  have "accelMs m1 - (timeCredits m1 + accelMsPassedLast m1) \<le> ACCELERATION_THRESHOLD_MS"
    using assms by (simp add: window_inv_def)
  moreover have e: "mayReduceAccelerationBuffer m1 =
      m1\<lparr>accelBuffer := buf, timeCredits := credits, accelMs := ms, accelCumulator := cum\<rparr>"
    using True by (simp add: mayReduceAccelerationBuffer_def d)
  moreover have "0 \<le> accelMsPassedTotal m1" "0 \<le> accelMsPassedLast m1" using assms by (auto simp: window_inv_def)
  ultimately show ?thesis using r True by (auto simp: window_inv_def split: list.splits)
qed

lemma add_inv:
  assumes "window_inv m" and "accelLatestUpdate m \<le> now"
    and "accelBufferCount m = 0 \<longrightarrow> accelMsPassedLast m = 0"
  shows "window_inv (addToAccelerationBuffer now tr m)"
proof -
  define p where "p = (if accelBufferCount m \<noteq> 0 then to_ms (now - accelLatestUpdate m) else 0)"
  have "0 \<le> p" using assms(2) to_ms_nonneg [of "now - accelLatestUpdate m"] by (simp add: p_def)
  then show ?thesis
    unfolding addToAccelerationBuffer_def Let_def
    by (rule reduce_inv [OF assms(1)]) (use assms(3) in \<open>auto simp: updateAccelerationTime_def Let_def p_def\<close>)
qed

lemma reset_inv: "window_inv (resetAccelerationBuffer m)"
  by (simp add: window_inv_def resetAccelerationBuffer_def ACCELERATION_THRESHOLD_MS_def)

datatype drag_input = Sample int vector2 | EndDrag int | ResetDrag

fun drag_exec :: "drag_input \<Rightarrow> mouse_movements \<Rightarrow> mouse_movements" where
  "drag_exec (Sample now tr) m = addToAccelerationBuffer now tr m"
| "drag_exec (EndDrag now) m = snd (computeAccelerationBuffer now m)"
| "drag_exec ResetDrag m = resetAccelerationBuffer m"

text \<open>The clock readings of a run never go back.\<close>

fun clock_ok :: "int \<Rightarrow> drag_input list \<Rightarrow> bool" where
  "clock_ok t [] = True"
| "clock_ok t (Sample now _ # evs) = (t \<le> now \<and> clock_ok now evs)"
| "clock_ok t (EndDrag now # evs) = (t \<le> now \<and> clock_ok now evs)"
| "clock_ok t (ResetDrag # evs) = clock_ok t evs"

definition fresh_start :: "mouse_movements \<Rightarrow> bool" where
  "fresh_start m \<longleftrightarrow> (accelBufferCount m = 0 \<longrightarrow> accelMsPassedLast m = 0) \<and> 0 \<le> accelBufferCount m"

lemma mayReduce_sel [simp]:
  "accelBufferCount (mayReduceAccelerationBuffer m) = accelBufferCount m"
  "accelLatestUpdate (mayReduceAccelerationBuffer m) = accelLatestUpdate m"
  by (simp_all add: mayReduceAccelerationBuffer_def split: prod.split)

lemma updateTime_sel [simp]:
  "accelBufferCount (updateAccelerationTime now m) = accelBufferCount m"
  "accelLatestUpdate (updateAccelerationTime now m) = now"
  by (simp_all add: updateAccelerationTime_def Let_def)

lemma drag_run_inv:
  assumes "window_inv m" and "fresh_start m" and "clock_ok (accelLatestUpdate m) evs"
  shows "window_inv (fold drag_exec evs m)"
  using assms
proof (induction evs arbitrary: m)
  case (Cons ev evs)
  show ?case
  proof (cases ev)
    case (Sample now tr)
    let ?m = "addToAccelerationBuffer now tr m"
    have "window_inv ?m" using Cons.prems Sample by (intro add_inv) (auto simp: fresh_start_def)
    moreover have "fresh_start ?m" "accelLatestUpdate ?m = now"
      using Cons.prems(2) by (simp_all add: fresh_start_def addToAccelerationBuffer_def Let_def)
    ultimately show ?thesis using Cons.IH [of ?m] Cons.prems(3) Sample by simp
  next
    case (EndDrag now)
    let ?m = "snd (computeAccelerationBuffer now m)"
    have "window_inv ?m" by (simp add: computeAccelerationBuffer_def Let_def reset_inv)
    moreover have "fresh_start ?m" "accelLatestUpdate ?m = now"
      by (simp_all add: fresh_start_def computeAccelerationBuffer_def Let_def resetAccelerationBuffer_def)
    ultimately show ?thesis using Cons.IH [of ?m] Cons.prems(3) EndDrag by simp
  next
    case ResetDrag
    let ?m = "resetAccelerationBuffer m"
    have "fresh_start ?m" "accelLatestUpdate ?m = accelLatestUpdate m"
      by (simp_all add: fresh_start_def resetAccelerationBuffer_def)
    with Cons.IH [of ?m] Cons.prems(3) ResetDrag reset_inv [of m] show ?thesis by simp
  qed
qed simp

lemma window_bound: "window_inv m \<Longrightarrow> accelBuffer m = s # buf \<Longrightarrow> times buf \<le> ACCELERATION_THRESHOLD_MS"
  by (cases s) (auto simp: window_inv_def)

text \<open>As long as the clock does not go back: the sampled time is always the sum of the buffered sample
  times, none negative, and the samples after the oldest one span at most 200 ms, so a released drag is
  judged by its last movements only.\<close>

theorem acceleration_window:
  assumes "clock_ok 0 evs"
  shows "let m = fold drag_exec evs movements_init in
      accelMs m = times (accelBuffer m) \<and> (\<forall>(t, v) \<in> set (accelBuffer m). 0 \<le> t)
      \<and> times (tl (accelBuffer m)) \<le> 200"
proof -
  have "window_inv movements_init" "fresh_start movements_init" "accelLatestUpdate movements_init = 0"
    by (simp_all add: window_inv_def fresh_start_def movements_init_def ACCELERATION_THRESHOLD_MS_def)
  then have inv: "window_inv (fold drag_exec evs movements_init)" using assms by (intro drag_run_inv) auto
  then show ?thesis
    using window_bound [OF inv]
    by (cases "accelBuffer (fold drag_exec evs movements_init)")
       (auto simp: Let_def window_inv_def ACCELERATION_THRESHOLD_MS_def)
qed

theorem acceleration_window_witness:
  "let evs = [Sample 5000000 vzero, Sample 155000000 vzero, Sample 255000000 vzero, Sample 505000000 vzero];
       m = fold drag_exec evs movements_init
   in accelMs m = times (accelBuffer m) \<and> map fst (accelBuffer m) = [250] \<and> times (tl (accelBuffer m)) \<le> 200"
proof -
  define evs where "evs = [Sample 5000000 vzero, Sample 155000000 vzero, Sample 255000000 vzero, Sample 505000000 vzero]"
  have "map fst (accelBuffer (fold drag_exec evs movements_init)) = [250]"
    by (simp add: evs_def addToAccelerationBuffer_def updateAccelerationTime_def mayReduceAccelerationBuffer_def
        movements_init_def to_ms_def trunc_div_def ACCELERATION_THRESHOLD_MS_def Let_def)
  then show ?thesis using acceleration_window [of evs] by (simp add: evs_def Let_def)
qed

text \<open>Ending a drag always leaves the sampler as if nothing had been sampled, and gives no impulse when
  nothing was sampled or no time passed.\<close>

theorem end_drag_resets:
  "snd (computeAccelerationBuffer now m) = movements_init\<lparr>accelLatestUpdate := now\<rparr>
   \<and> \<not> isComputing (snd (computeAccelerationBuffer now m))
   \<and> fst (computeAccelerationBuffer now movements_init) = vzero"
  by (simp add: computeAccelerationBuffer_def updateAccelerationTime_def mayReduceAccelerationBuffer_def
      resetAccelerationBuffer_def movements_init_def isComputing_def getAccelerationTranslation_def
      ACCELERATION_THRESHOLD_MS_def Let_def split: prod.split)

end
