(* ===== verification/MapNavigation.thy ===== *)
theory MapNavigation
  imports Animation MouseNav
begin

text \<open>
  \<open>src/app/widgets/navigation/MouseMoveHelper.hpp\<close> and \<open>MapScaleHelper.hpp\<close>, and the three helpers
  together as \<open>USApplication\<close> owns them: they all point to one matrix, the world's. Magnum's matrices and
  curves are the record \<open>magnum\<close>, its player the record \<open>magnum_player\<close>.
\<close>

record 'm magnum = "'m magnum_motion" +
  lerp2 :: "vector2 \<Rightarrow> vector2 \<Rightarrow> f32 \<Rightarrow> vector2"
  exponentialOut :: "f32 \<Rightarrow> f32"
  matTranslation :: "'m \<Rightarrow> vector2"
  matScaling :: "'m \<Rightarrow> vector2"
  scalingMatrix :: "vector2 \<Rightarrow> 'm"
  identityMatrix :: 'm

text \<open>\<open>Range2D\<close> by its corners.\<close>

record range2 =
  rmin :: vector2
  rmax :: vector2

definition range_sizeY :: "range2 \<Rightarrow> f32" where
  "range_sizeY r = fsub (vy (rmax r)) (vy (rmin r))"

definition range_center :: "range2 \<Rightarrow> vector2" where
  "range_center r = vdiv (vadd (rmin r) (rmax r)) (vscalar (f32_lit 2))"

fun f32_abs :: "f32 \<Rightarrow> f32" where
  "f32_abs NaN = NaN"
| "f32_abs (Inf n) = Inf False"
| "f32_abs (Zero n) = Zero False"
| "f32_abs (Num q) = Num \<bar>q\<bar>"

section \<open>State\<close>

record 'p mouse_helper =
  mAnim :: "('p, vector2) player_animator"
  mm :: mouse_movements

record scroll_component =
  sTranslation :: vector2
  sScaling :: vector2

definition scroll_zero :: scroll_component where
  "scroll_zero = \<lparr>sTranslation = vzero, sScaling = vzero\<rparr>"

datatype ZoomAccuracy = ScrollAccuracy | SnapshotAccuracy

definition getZoomAccuracy :: "ZoomAccuracy \<Rightarrow> f32" where
  "getZoomAccuracy a = (case a of ScrollAccuracy \<Rightarrow> f32_lit (5 / 10) | _ \<Rightarrow> f32_lit 1)"

record 'p scale_helper =
  sAnim :: "('p, scroll_component) player_animator"
  zoomAccuracy :: f32

text \<open>\<open>frameTime\<close> and \<open>frameDuration\<close> are the timeline's readings of the previous frame.\<close>

record ('p, 'm) navigation =
  world :: 'm
  mmh :: "'p mouse_helper"
  msh :: "'p scale_helper"
  kmh :: "'m keyboard_helper"
  frameTime :: f32
  frameDuration :: f32

definition navigation_init :: "'m magnum \<Rightarrow> 'p \<Rightarrow> ('p, 'm) navigation" where
  "navigation_init mg idle =
     \<lparr>world = identityMatrix mg,
      mmh = \<lparr>mAnim = \<lparr>animPlayer = idle, animState = \<lparr>animFrom = vzero, animTo = vzero, current = vzero, previous = vzero\<rparr>\<rparr>,
             mm = movements_init\<rparr>,
      msh = \<lparr>sAnim = \<lparr>animPlayer = idle, animState = \<lparr>animFrom = scroll_zero, animTo = scroll_zero, current = scroll_zero,
               previous = scroll_zero\<rparr>\<rparr>, zoomAccuracy = getZoomAccuracy ScrollAccuracy\<rparr>,
      kmh = helper_init (identityMatrix mg), frameTime = f32_lit 0, frameDuration = f32_lit 0\<rparr>"

section \<open>MouseMoveHelper\<close>

definition mouse_stopAnim :: "'p magnum_player \<Rightarrow> 'p mouse_helper \<Rightarrow> 'p mouse_helper" where
  "mouse_stopAnim pl h =
     (let h = h\<lparr>mAnim := player_stopAnim pl (mAnim h)\<rparr>
      in if isComputing (mm h) then h\<lparr>mm := resetAccelerationBuffer (mm h)\<rparr> else h)"

definition translateTo :: "'m magnum \<Rightarrow> vector2 \<Rightarrow> 'm \<Rightarrow> 'm" where
  "translateTo mg v mat = mat_mult mg (translation mg (vsub v (matTranslation mg mat))) mat"

definition translateToAbs :: "'m magnum \<Rightarrow> vector2 \<Rightarrow> 'm \<Rightarrow> 'm" where
  "translateToAbs mg v mat = mat_mult mg (translation mg v) mat"

definition mouse_advance :: "'m magnum \<Rightarrow> 'p magnum_player \<Rightarrow> f32 \<Rightarrow> 'p mouse_helper \<times> 'm \<Rightarrow> 'p mouse_helper \<times> 'm" where
  "mouse_advance mg pl t = (\<lambda>(h, mat).
     let (a, mat) = player_advance pl (defaultAnimationCallback (lerp2 mg) (cubicOut mg))
           (\<lambda>a mat. translateTo mg (current (animState a)) mat) t (mAnim h, mat)
     in (h\<lparr>mAnim := a\<rparr>, mat))"

text \<open>The animator excluded while this one plays is the keyboard's.\<close>

definition updateAnimationFromMoveVectorAndPlay :: "'m magnum \<Rightarrow> 'p magnum_player \<Rightarrow> vector2 \<Rightarrow>
    ('p, 'm) navigation \<Rightarrow> ('p, 'm) navigation" where
  "updateAnimationFromMoveVectorAndPlay mg pl moveTr s =
     (let frm = matTranslation mg (world s);
          (a, k) = updateAnimationAndPlay pl (frameTime s) [keyboard_stopAnim] vzero frm (vadd frm moveTr) (mAnim (mmh s), kmh s)
      in s\<lparr>mmh := (mmh s)\<lparr>mAnim := a\<rparr>, kmh := k\<rparr>)"

definition mousePressEvent :: "'p magnum_player \<Rightarrow> ('p, 'm) navigation \<Rightarrow> ('p, 'm) navigation" where
  "mousePressEvent pl s = s\<lparr>mmh := mouse_stopAnim pl (mmh s)\<rparr>"

definition mouseMoveEvent :: "'m magnum \<Rightarrow> int \<Rightarrow> int \<times> int \<Rightarrow> int \<times> int \<Rightarrow> ('p, 'm) navigation \<Rightarrow> ('p, 'm) navigation" where
  "mouseMoveEvent mg now relativePosition framebufferSize s =
     (let moveTr = translatedVector relativePosition framebufferSize;
          h = (mmh s)\<lparr>mm := addToAccelerationBuffer now moveTr (mm (mmh s))\<rparr>
      in s\<lparr>mmh := h, world := translateToAbs mg moveTr (world s)\<rparr>)"

definition mouseDoubleClickEvent :: "'m magnum \<Rightarrow> 'p magnum_player \<Rightarrow> int \<times> int \<Rightarrow> int \<times> int \<Rightarrow>
    ('p, 'm) navigation \<Rightarrow> ('p, 'm) navigation" where
  "mouseDoubleClickEvent mg pl position framebufferSize s =
     (let moveTr = translatedVectorAbs position framebufferSize
      in updateAnimationFromMoveVectorAndPlay mg pl moveTr s)"

definition mouseMoveReleaseEvent :: "'m magnum \<Rightarrow> 'p magnum_player \<Rightarrow> int \<Rightarrow> ('p, 'm) navigation \<Rightarrow> ('p, 'm) navigation" where
  "mouseMoveReleaseEvent mg pl now s =
     (let (moveTr, m) = computeAccelerationBuffer now (mm (mmh s));
          s = s\<lparr>mmh := (mmh s)\<lparr>mm := m\<rparr>\<rparr>
      in updateAnimationFromMoveVectorAndPlay mg pl moveTr s)"

section \<open>MapScaleHelper\<close>

definition DELTA_BY_OFFLINE :: f32 where "DELTA_BY_OFFLINE = f32_lit 2"
definition MAX_SCALE :: f32 where "MAX_SCALE = f32_lit 32"
definition MIN_SCALE :: f32 where "MIN_SCALE = f32_lit (3125 / 100000)"

definition scale_callback :: "'m magnum \<Rightarrow> f32 \<Rightarrow> scroll_component anim_state \<Rightarrow> scroll_component anim_state" where
  "scale_callback mg prc st =
     (let st = (if \<not> isZero mg (sTranslation (animTo st))
                then
                  let st = st\<lparr>previous := (previous st)\<lparr>sTranslation := sTranslation (current st)\<rparr>\<rparr>
                  in st\<lparr>current := (current st)\<lparr>sTranslation :=
                       lerp2 mg (sTranslation (animFrom st)) (sTranslation (animTo st)) (exponentialOut mg prc)\<rparr>\<rparr>
                else st)
      in st\<lparr>current := (current st)\<lparr>sScaling :=
           lerp2 mg (sScaling (animFrom st)) (sScaling (animTo st)) (cubicOut mg prc)\<rparr>\<rparr>)"

definition getScrollDeltaVector :: "f32 \<Rightarrow> vector2" where
  "getScrollDeltaVector direction =
     (let delta = (if fless direction (f32_of_int 0) then fdiv (f32_lit 1) DELTA_BY_OFFLINE else DELTA_BY_OFFLINE)
      in vscalar delta)"

definition thresholdScaling :: "vector2 \<Rightarrow> vector2" where
  "thresholdScaling targetScale =
     (if fless (vx targetScale) MIN_SCALE then vscalar MIN_SCALE
      else if fless MAX_SCALE (vx targetScale) then vscalar MAX_SCALE
      else targetScale)"

definition scalingVectorFromDirection :: "'m magnum \<Rightarrow> f32 \<Rightarrow> bool \<Rightarrow> 'm \<Rightarrow> vector2" where
  "scalingVectorFromDirection mg direction asFactor mat =
     (let fromScaling = matScaling mg mat;
          targetScale = vmul fromScaling (getScrollDeltaVector direction);
          targetScale = thresholdScaling targetScale
      in if asFactor then vdiv targetScale fromScaling else targetScale)"

definition scale_stopAnim :: "'p magnum_player \<Rightarrow> 'p scale_helper \<Rightarrow> 'p scale_helper" where
  "scale_stopAnim pl h = h\<lparr>sAnim := player_stopAnim pl (sAnim h)\<rparr>"

definition instantZoom :: "'m magnum \<Rightarrow> 'p magnum_player \<Rightarrow> int \<Rightarrow> ('p, 'm) navigation \<Rightarrow> ('p, 'm) navigation" where
  "instantZoom mg pl direction s =
     (let s = s\<lparr>msh := scale_stopAnim pl (msh s)\<rparr>;
          scaleFactor = scalingVectorFromDirection mg (f32_of_int direction) True (world s)
      in s\<lparr>world := mat_mult mg (scalingMatrix mg scaleFactor) (world s)\<rparr>)"

definition scale_keyPressEvent :: "'m magnum \<Rightarrow> 'p magnum_player \<Rightarrow> key \<Rightarrow> ('p, 'm) navigation \<Rightarrow> ('p, 'm) navigation" where
  "scale_keyPressEvent mg pl key s = (case key of
       KeyNumAdd \<Rightarrow> instantZoom mg pl 1 s
     | KeyNumSubtract \<Rightarrow> instantZoom mg pl (- 1) s
     | _ \<Rightarrow> s)"

text \<open>This animator excludes none.\<close>

definition scale_play :: "'p magnum_player \<Rightarrow> scroll_component \<Rightarrow> scroll_component \<Rightarrow> ('p, 'm) navigation \<Rightarrow> ('p, 'm) navigation" where
  "scale_play pl frm to s =
     (let (a, _) = updateAnimationAndPlay pl (frameTime s) [] scroll_zero frm to (sAnim (msh s), ())
      in s\<lparr>msh := (msh s)\<lparr>sAnim := a\<rparr>\<rparr>)"

definition snapshotZoom :: "'m magnum \<Rightarrow> 'p magnum_player \<Rightarrow> range2 \<Rightarrow> ('p, 'm) navigation \<Rightarrow> ('p, 'm) navigation" where
  "snapshotZoom mg pl zoomRect s =
     (let s = s\<lparr>msh := (msh s)\<lparr>zoomAccuracy := getZoomAccuracy SnapshotAccuracy\<rparr>\<rparr>;
          frm = scroll_zero; to = scroll_zero;
          scalingFactor = fdiv (f32_lit 1) (f32_abs (range_sizeY zoomRect));
          frm = frm\<lparr>sScaling := matScaling mg (world s)\<rparr>;
          to = to\<lparr>sScaling := vmul (sScaling frm) (vscalar scalingFactor)\<rparr>;
          to = to\<lparr>sScaling := thresholdScaling (sScaling to)\<rparr>;
          to = to\<lparr>sTranslation := vmul (range_center zoomRect) (vscalar (f32_lit (- 1)))\<rparr>
      in scale_play pl frm to s)"

text \<open>A scroll by \<open>offset\<close> at \<open>position\<close>; the answer is whether the event was accepted.\<close>

definition mouseScrollEvent :: "'m magnum \<Rightarrow> 'p magnum_player \<Rightarrow> vector2 \<Rightarrow> int \<times> int \<Rightarrow> int \<times> int \<Rightarrow>
    ('p, 'm) navigation \<Rightarrow> bool \<times> ('p, 'm) navigation" where
  "mouseScrollEvent mg pl offset position framebufferSize s =
     (let direction = vy offset
      in if \<not> f32_true direction then (False, s)
         else
           let frm = scroll_zero; to = scroll_zero;
               frm = frm\<lparr>sScaling := matScaling mg (world s)\<rparr>;
               to = to\<lparr>sScaling := scalingVectorFromDirection mg direction False (world s)\<rparr>;
               (s, to) = (if fless (f32_of_int 0) direction
                          then (s\<lparr>msh := (msh s)\<lparr>zoomAccuracy := getZoomAccuracy ScrollAccuracy\<rparr>\<rparr>,
                                to\<lparr>sTranslation := translatedVectorAbs position framebufferSize\<rparr>)
                          else (s, to))
           in (True, scale_play pl frm to s))"

definition scale_progress :: "'m magnum \<Rightarrow> f32 \<Rightarrow> scroll_component anim_state \<Rightarrow> 'm \<Rightarrow> 'm" where
  "scale_progress mg accuracy st mat =
     (let currentAnimSc = sScaling (current st);
          mat = (if \<not> isZero mg currentAnimSc
                 then let scalingFactor = vdiv currentAnimSc (matScaling mg mat)
                      in mat_mult mg (scalingMatrix mg scalingFactor) mat
                 else mat);
          ca_Tr = sTranslation (current st)
      in if \<not> isZero mg ca_Tr
         then
           let step = vsub ca_Tr (sTranslation (previous st));
               step = vdiv step (sScaling (animFrom st))
           in mat_mult mg (translation mg (vmul (vmul step currentAnimSc) (vscalar accuracy))) mat
         else mat)"

definition scale_advance :: "'m magnum \<Rightarrow> 'p magnum_player \<Rightarrow> f32 \<Rightarrow> 'p scale_helper \<times> 'm \<Rightarrow> 'p scale_helper \<times> 'm" where
  "scale_advance mg pl t = (\<lambda>(h, mat).
     let (a, mat) = player_advance pl (scale_callback mg) (\<lambda>a mat. scale_progress mg (zoomAccuracy h) (animState a) mat) t (sAnim h, mat)
     in (h\<lparr>sAnim := a\<rparr>, mat))"

section \<open>Together\<close>

text \<open>A frame advances the mouse's, the scale's and the keyboard's animator, in the order of the members.\<close>

definition advance_mmh :: "'m magnum \<Rightarrow> 'p magnum_player \<Rightarrow> ('p, 'm) navigation \<Rightarrow> ('p, 'm) navigation" where
  "advance_mmh mg pl s = (let (h, w) = mouse_advance mg pl (frameTime s) (mmh s, world s) in s\<lparr>mmh := h, world := w\<rparr>)"

definition advance_msh :: "'m magnum \<Rightarrow> 'p magnum_player \<Rightarrow> ('p, 'm) navigation \<Rightarrow> ('p, 'm) navigation" where
  "advance_msh mg pl s = (let (h, w) = scale_advance mg pl (frameTime s) (msh s, world s) in s\<lparr>msh := h, world := w\<rparr>)"

text \<open>\<open>kMatrix\<close> is what the keyboard helper's pointer points to.\<close>

definition advance_kmh :: "'m magnum \<Rightarrow> ('p, 'm) navigation \<Rightarrow> ('p, 'm) navigation" where
  "advance_kmh mg s =
     (let k = keyboard_advance mg (frameDuration s) ((kmh s)\<lparr>kMatrix := world s\<rparr>) in s\<lparr>kmh := k, world := kMatrix k\<rparr>)"

definition navigation_frame :: "'m magnum \<Rightarrow> 'p magnum_player \<Rightarrow> f32 \<times> f32 \<Rightarrow> ('p, 'm) navigation \<Rightarrow> ('p, 'm) navigation" where
  "navigation_frame mg pl = (\<lambda>(t, d) s.
     timeline_advance [advance_mmh mg pl, advance_msh mg pl, advance_kmh mg] (s\<lparr>frameTime := t, frameDuration := d\<rparr>))"

definition resetWorldMatrix :: "'m magnum \<Rightarrow> 'p magnum_player \<Rightarrow> ('p, 'm) navigation \<Rightarrow> ('p, 'm) navigation" where
  "resetWorldMatrix mg pl s =
     (let s = s\<lparr>mmh := mouse_stopAnim pl (mmh s)\<rparr>;
          s = s\<lparr>msh := scale_stopAnim pl (msh s)\<rparr>;
          s = s\<lparr>kmh := keyboard_stopAnim (kmh s)\<rparr>
      in s\<lparr>world := identityMatrix mg\<rparr>)"

definition navigation_key :: "'m magnum \<Rightarrow> 'p magnum_player \<Rightarrow> key \<Rightarrow> bool \<Rightarrow> bool \<Rightarrow> ('p, 'm) navigation \<Rightarrow> ('p, 'm) navigation" where
  "navigation_key mg pl key isRepeated isPress s = s\<lparr>kmh := snd (keyEvent key isRepeated isPress (kmh s))\<rparr>"

section \<open>Zoom levels\<close>

text \<open>The scales reached from 1 by halving and doubling.\<close>

definition level :: "int \<Rightarrow> f32" where
  "level k = f32_lit (2 powi k)"

definition level_scale :: "int \<Rightarrow> vector2" where
  "level_scale k = vscalar (level k)"

definition next_level :: "bool \<Rightarrow> int \<Rightarrow> int" where
  "next_level zoom_in k = max (- 5) (min 5 (if zoom_in then k + 1 else k - 1))"

lemma level_values: "list_all (\<lambda>k. level k = Num (2 powi k)) [- 6 .. 6]"
  by code_simp

lemma level_Num: "- 6 \<le> k \<Longrightarrow> k \<le> 6 \<Longrightarrow> level k = Num (2 powi k)"
  using level_values [unfolded list_all_iff set_upto] by (metis atLeastAtMost_iff)

lemma powi_pos: "\<not> (2 :: rat) powi k < 0" "(2 :: rat) powi k \<noteq> 0"
  by (simp_all add: not_less)

lemma level_mult: "\<bar>j\<bar> \<le> 6 \<Longrightarrow> \<bar>k\<bar> \<le> 6 \<Longrightarrow> fmul (level j) (level k) = level (j + k)"
  by (simp add: level_Num powi_pos) (simp add: level_def f32_lit_def power_int_add)

lemma level_div: "\<bar>j\<bar> \<le> 6 \<Longrightarrow> \<bar>k\<bar> \<le> 6 \<Longrightarrow> fdiv (level j) (level k) = level (j - k)"
  by (simp add: level_Num powi_pos) (simp add: level_def f32_lit_def power_int_diff)

lemma level_less: "\<bar>j\<bar> \<le> 6 \<Longrightarrow> \<bar>k\<bar> \<le> 6 \<Longrightarrow> fless (level j) (level k) = (j < k)"
  using powi_mono [of k j] power_int_strict_increasing [of j k "2 :: rat"] by (simp add: level_Num) linarith

lemma scale_constants: "DELTA_BY_OFFLINE = level 1" "MAX_SCALE = level 5" "MIN_SCALE = level (- 5)" "f32_lit 1 = level 0"
  by (simp_all add: DELTA_BY_OFFLINE_def MAX_SCALE_def MIN_SCALE_def level_def power_int_def power_divide)

lemma delta_level: "getScrollDeltaVector (f32_of_int (if zoom_in then 1 else - 1)) = level_scale (if zoom_in then 1 else - 1)"
proof -
  have "fless (f32_of_int (- 1)) (f32_of_int 0)" "\<not> fless (f32_of_int 1) (f32_of_int 0)" by code_simp+
  then show ?thesis by (simp add: getScrollDeltaVector_def scale_constants level_div level_scale_def)
qed

lemma level_target:
  assumes "\<bar>k\<bar> \<le> 5"
  shows "thresholdScaling (vmul (level_scale k) (level_scale (if zoom_in then 1 else - 1))) = level_scale (next_level zoom_in k)"
  using assms
  by (auto simp: thresholdScaling_def level_scale_def vmul_def vscalar_def level_mult level_less scale_constants next_level_def)

lemma level_factor: "\<bar>k\<bar> \<le> 5 \<Longrightarrow> \<bar>j\<bar> \<le> 5 \<Longrightarrow> vdiv (level_scale j) (level_scale k) = level_scale (j - k)"
  by (simp add: vdiv_def level_scale_def vscalar_def level_div)

lemma next_level_bounds: "\<bar>next_level zoom_in k\<bar> \<le> 5"
  by (auto simp: next_level_def)

text \<open>What the scaling of a product by a scaling matrix is, for scales that are powers of two.\<close>

definition scales_exactly :: "'m magnum \<Rightarrow> bool" where
  "scales_exactly mg \<longleftrightarrow> matScaling mg (identityMatrix mg) = vscalar (f32_lit 1)
     \<and> (\<forall>m j k. \<bar>j\<bar> \<le> 5 \<and> \<bar>k\<bar> \<le> 1 \<and> matScaling mg m = level_scale j \<longrightarrow>
          matScaling mg (mat_mult mg (scalingMatrix mg (level_scale k)) m) = level_scale (j + k))"

lemma instantZoom_level:
  assumes "scales_exactly mg" and "matScaling mg (world s) = level_scale k" and "\<bar>k\<bar> \<le> 5"
  shows "matScaling mg (world (instantZoom mg pl (if zoom_in then 1 else - 1) s)) = level_scale (next_level zoom_in k)"
proof -
  let ?n = "next_level zoom_in k"
  have "scalingVectorFromDirection mg (f32_of_int (if zoom_in then 1 else - 1)) True (world s) = level_scale (?n - k)"
    using level_target [OF assms(3)] level_factor [OF assms(3) next_level_bounds]
    unfolding scalingVectorFromDirection_def delta_level assms(2) Let_def by simp
  moreover have "\<bar>?n - k\<bar> \<le> 1" using assms(3) by (auto simp: next_level_def)
  ultimately show ?thesis
    using assms by (simp add: instantZoom_def scales_exactly_def Let_def)
qed

definition zoom_key :: "bool \<Rightarrow> key" where
  "zoom_key zoom_in = (if zoom_in then KeyNumAdd else KeyNumSubtract)"

text \<open>From the unscaled map, any presses of the keys to zoom in and out reach exactly the scale two to
  the number of steps, clamped between -5 and 5: scales never leave 1/32 to 32, and inside these bounds
  zooming out undoes zooming in without any rounding, given that Magnum's matrices scale powers of two
  exactly.\<close>

theorem keypad_zoom_levels:
  assumes "matScaling mg (identityMatrix mg) = vscalar (f32_lit 1)"
    and "\<forall>m j k. \<bar>j\<bar> \<le> 5 \<and> \<bar>k\<bar> \<le> 1 \<and> matScaling mg m = level_scale j \<longrightarrow>
          matScaling mg (mat_mult mg (scalingMatrix mg (level_scale k)) m) = level_scale (j + k)"
  shows "matScaling mg (world (fold (scale_keyPressEvent mg pl \<circ> zoom_key) presses (navigation_init mg idle))) =
    vscalar (f32_lit (2 powi fold next_level presses 0)) \<and> \<bar>fold next_level presses 0\<bar> \<le> 5"
proof -
  have sx: "scales_exactly mg" using assms by (simp add: scales_exactly_def)
  have "matScaling mg (world (fold (scale_keyPressEvent mg pl \<circ> zoom_key) presses s)) = level_scale (fold next_level presses k)
      \<and> \<bar>fold next_level presses k\<bar> \<le> 5"
    if "matScaling mg (world s) = level_scale k" "\<bar>k\<bar> \<le> 5" for s k
    using that
  proof (induction presses arbitrary: s k)
    case (Cons zoom_in presses)
    have "scale_keyPressEvent mg pl (zoom_key zoom_in) s = instantZoom mg pl (if zoom_in then 1 else - 1) s"
      by (simp add: scale_keyPressEvent_def zoom_key_def)
    then show ?case
      using Cons.IH [OF instantZoom_level [OF sx Cons.prems, of pl zoom_in] next_level_bounds] by simp
  qed simp
  from this [of "navigation_init mg idle" 0] assms(1) show ?thesis
    by (simp add: navigation_init_def level_scale_def level_def)
qed

text \<open>A stand-in for Magnum's matrices without rotation: a translation and a scaling, with linear curves.\<close>

definition plain_magnum :: "(vector2 \<times> vector2) magnum" where
  "plain_magnum = \<lparr>isZero = (\<lambda>v. v = vzero), lerp = (\<lambda>a b t. fadd a (fmul (fsub b a) t)), cubicIn = (\<lambda>t. t), cubicOut = (\<lambda>t. t),
     translation = (\<lambda>v. (v, vscalar (f32_lit 1))), mat_mult = (\<lambda>(t, s) (t', s'). (vadd t (vmul s t'), vmul s s')),
     lerp2 = (\<lambda>a b t. vadd a (vmul (vsub b a) (vscalar t))), exponentialOut = (\<lambda>t. t),
     matTranslation = fst, matScaling = snd, scalingMatrix = (\<lambda>v. (vzero, v)), identityMatrix = (vzero, vscalar (f32_lit 1))\<rparr>"

lemma level_scale_mult: "\<bar>j\<bar> \<le> 6 \<Longrightarrow> \<bar>k\<bar> \<le> 6 \<Longrightarrow> vmul (level_scale j) (level_scale k) = level_scale (j + k)"
  by (simp add: vmul_def level_scale_def vscalar_def level_mult)

theorem keypad_zoom_levels_witness:
  "matScaling plain_magnum (world (fold (scale_keyPressEvent plain_magnum (countdown_player 3) \<circ> zoom_key)
     (replicate 7 True @ [False]) (navigation_init plain_magnum 0))) = vscalar (f32_lit 16)"
proof -
  have 1: "matScaling plain_magnum (identityMatrix plain_magnum) = vscalar (f32_lit 1)" by (simp add: plain_magnum_def)
  have 2: "\<forall>m j k. \<bar>j\<bar> \<le> 5 \<and> \<bar>k\<bar> \<le> 1 \<and> matScaling plain_magnum m = level_scale j \<longrightarrow>
      matScaling plain_magnum (mat_mult plain_magnum (scalingMatrix plain_magnum (level_scale k)) m) = level_scale (j + k)"
    by (auto simp: plain_magnum_def level_scale_mult add.commute)
  have "fold next_level (replicate 7 True @ [False]) 0 = 4" by (simp add: next_level_def eval_nat_numeral)
  moreover have "(2 :: rat) powi 4 = 16" by simp
  ultimately show ?thesis using keypad_zoom_levels [OF 1 2, of "countdown_player 3" "replicate 7 True @ [False]" 0] by (simp only:)
qed

section \<open>Where an animated zoom goes\<close>

lemma fle_max_min: "fle MIN_SCALE MAX_SCALE"
  unfolding MIN_SCALE_def MAX_SCALE_def f32_lit_def by (rule round_f32_mono) simp

lemma scale_not_NaN: "MIN_SCALE \<noteq> NaN" "MAX_SCALE \<noteq> NaN"
  by (simp_all add: MIN_SCALE_def MAX_SCALE_def f32_lit_def)

lemma threshold_range:
  assumes "f \<noteq> NaN"
  shows "\<exists>g. thresholdScaling (vscalar f) = vscalar g \<and> fle MIN_SCALE g \<and> fle g MAX_SCALE"
proof (cases "fless f MIN_SCALE")
  case True
  then show ?thesis using fle_max_min fle_refl [OF scale_not_NaN(1)] by (auto simp: thresholdScaling_def vscalar_def)
next
  case low: False
  show ?thesis
  proof (cases "fless MAX_SCALE f")
    case True
    then show ?thesis using low fle_max_min fle_refl [OF scale_not_NaN(2)] by (auto simp: thresholdScaling_def vscalar_def)
  next
    case False
    then have "thresholdScaling (vscalar f) = vscalar f" "fle MIN_SCALE f" "fle f MAX_SCALE"
      using low assms scale_not_NaN by (auto simp: thresholdScaling_def vscalar_def fle_def)
    then show ?thesis by blast
  qed
qed

lemma vmul_vscalar: "vmul (vscalar a) (vscalar b) = vscalar (fmul a b)"
  by (simp add: vmul_def vscalar_def)

lemma scaled_not_NaN: "0 < q \<Longrightarrow> f \<noteq> NaN \<Longrightarrow> fmul (Num q) f \<noteq> NaN"
  by (cases f) auto

lemma inverse_not_NaN: "h \<noteq> NaN \<Longrightarrow> fdiv (f32_lit 1) (f32_abs h) \<noteq> NaN"
  using level_Num [of 0] by (cases h) (auto simp: scale_constants(4))

definition zoom_target :: "('p, 'm) navigation \<Rightarrow> vector2" where
  "zoom_target s = sScaling (animTo (animState (sAnim (msh s))))"

lemma scale_play_target: "zoom_target (scale_play pl frm to s) = sScaling to"
  by (simp add: zoom_target_def scale_play_def updateAnimationAndPlay_def player_startAnim_def Let_def)

text \<open>C31: From any positive finite scale of the map, an animated zoom aims at a scale between 1/32 and 32,
  the same on both axes: after a scroll in either direction, and after a selection of any size, also an
  empty one, whose reciprocal height is infinite.\<close>

theorem zoom_targets_bounded:
  assumes "matScaling mg (world s) = vscalar (Num q)" and "0 < q" and "range_sizeY rect \<noteq> NaN"
    and "f32_true (vy offset)" and "vy offset \<noteq> NaN"
  shows "(\<exists>g. zoom_target (snapshotZoom mg pl rect s) = vscalar g \<and> fle (f32_lit (1 / 32)) g \<and> fle g (f32_lit 32))
    \<and> (\<exists>g. zoom_target (snd (mouseScrollEvent mg pl offset pos fb s)) = vscalar g
           \<and> fle (f32_lit (1 / 32)) g \<and> fle g (f32_lit 32))"
proof -
  have c: "MIN_SCALE = f32_lit (1 / 32)" "MAX_SCALE = f32_lit 32" by (simp_all add: MIN_SCALE_def MAX_SCALE_def)
  have "zoom_target (snapshotZoom mg pl rect s) =
      thresholdScaling (vscalar (fmul (Num q) (fdiv (f32_lit 1) (f32_abs (range_sizeY rect)))))"
    by (simp add: snapshotZoom_def scale_play_target assms(1) vmul_vscalar Let_def)
  then have 1: "\<exists>g. zoom_target (snapshotZoom mg pl rect s) = vscalar g \<and> fle MIN_SCALE g \<and> fle g MAX_SCALE"
    using threshold_range [OF scaled_not_NaN [OF assms(2) inverse_not_NaN [OF assms(3)]]] by simp
  let ?d = "if fless (vy offset) (f32_of_int 0) then fdiv (f32_lit 1) DELTA_BY_OFFLINE else DELTA_BY_OFFLINE"
  have "?d \<noteq> NaN" using level_Num [of 1] level_Num [of 0] by (simp add: scale_constants)
  moreover have "zoom_target (snd (mouseScrollEvent mg pl offset pos fb s)) = thresholdScaling (vscalar (fmul (Num q) ?d))"
    using assms(4)
    by (simp add: mouseScrollEvent_def scale_play_target scalingVectorFromDirection_def getScrollDeltaVector_def
        assms(1) vmul_vscalar split_beta Let_def)
  ultimately have "\<exists>g. zoom_target (snd (mouseScrollEvent mg pl offset pos fb s)) = vscalar g \<and> fle MIN_SCALE g \<and> fle g MAX_SCALE"
    using threshold_range [OF scaled_not_NaN [OF assms(2)]] by simp
  with 1 show ?thesis unfolding c by blast
qed

theorem zoom_targets_bounded_witness:
  "\<exists>g. zoom_target (snapshotZoom plain_magnum (countdown_player 3) \<lparr>rmin = vzero, rmax = vzero\<rparr>
      (navigation_init plain_magnum 0)) = vscalar g \<and> fle g (f32_lit 32)"
proof -
  have "matScaling plain_magnum (world (navigation_init plain_magnum 0)) = vscalar (Num 1)"
    using level_Num [of 0] by (simp add: plain_magnum_def navigation_init_def scale_constants(4))
  moreover have "range_sizeY \<lparr>rmin = vzero, rmax = vzero\<rparr> \<noteq> NaN" by (simp add: range_sizeY_def vzero_def fsub_def)
  moreover have "f32_true (vy (vscalar (Num 1)))" "vy (vscalar (Num 1)) \<noteq> NaN" by (simp_all add: vscalar_def f32_true_def)
  ultimately show ?thesis using zoom_targets_bounded [of plain_magnum _ 1] by fastforce
qed

section \<open>Esc\<close>

text \<open>Nothing moves the map: no animation plays and the keyboard has neither direction nor momentum.\<close>

definition at_rest :: "'m magnum \<Rightarrow> 'p magnum_player \<Rightarrow> ('p, 'm) navigation \<Rightarrow> bool" where
  "at_rest mg pl s \<longleftrightarrow> \<not> isAnimationPlaying pl (mAnim (mmh s)) \<and> \<not> isAnimationPlaying pl (sAnim (msh s))
     \<and> isZero mg (currentDirection (axisX (kmh s))) \<and> isZero mg (currentDirection (axisY (kmh s)))
     \<and> \<not> f32_true (timePassed (axisX (kmh s))) \<and> \<not> f32_true (timePassed (axisY (kmh s)))"

lemma considerAxis_rest:
  "isZero mg (currentDirection a) \<Longrightarrow> \<not> f32_true (timePassed a) \<Longrightarrow> considerAxis mg fd (a, mat) = (a, mat)"
  by (simp add: considerAxis_def)

lemma keyboard_rest:
  assumes "isZero mg (currentDirection (axisX k))" "isZero mg (currentDirection (axisY k))"
    and "\<not> f32_true (timePassed (axisX k))" "\<not> f32_true (timePassed (axisY k))"
  shows "keyboard_advance mg fd k = k"
  by (simp add: keyboard_advance_def considerAxis_rest assms)

lemma advance_mmh_rest:
  assumes "player_ok pl" and "at_rest mg pl s"
  shows "at_rest mg pl (advance_mmh mg pl s) \<and> world (advance_mmh mg pl s) = world s"
proof -
  have p: "\<not> isAnimationPlaying pl (mAnim (mmh s))" using assms(2) by (simp add: at_rest_def)
  show ?thesis
    using assms(2) stopped_advance [OF assms(1) p, of "defaultAnimationCallback (lerp2 mg) (cubicOut mg)"
        "\<lambda>a mat. translateTo mg (current (animState a)) mat" "frameTime s" "world s"]
    by (simp add: advance_mmh_def mouse_advance_def at_rest_def split_beta Let_def)
qed

lemma advance_msh_rest:
  assumes "player_ok pl" and "at_rest mg pl s"
  shows "at_rest mg pl (advance_msh mg pl s) \<and> world (advance_msh mg pl s) = world s"
proof -
  have p: "\<not> isAnimationPlaying pl (sAnim (msh s))" using assms(2) by (simp add: at_rest_def)
  show ?thesis
    using assms(2) stopped_advance [OF assms(1) p, of "scale_callback mg"
        "\<lambda>a mat. scale_progress mg (zoomAccuracy (msh s)) (animState a) mat" "frameTime s" "world s"]
    by (simp add: advance_msh_def scale_advance_def at_rest_def split_beta Let_def)
qed

lemma advance_kmh_rest: "at_rest mg pl s \<Longrightarrow> at_rest mg pl (advance_kmh mg s) \<and> world (advance_kmh mg s) = world s"
  by (simp add: at_rest_def advance_kmh_def keyboard_rest Let_def)

lemma frame_rest:
  assumes "player_ok pl" and "at_rest mg pl s"
  shows "at_rest mg pl (navigation_frame mg pl td s) \<and> world (navigation_frame mg pl td s) = world s"
proof -
  obtain t d where td: "td = (t, d)" by fastforce
  have "at_rest mg pl (s\<lparr>frameTime := t, frameDuration := d\<rparr>)" using assms(2) by (simp add: at_rest_def)
  from advance_mmh_rest [OF assms(1) this] advance_msh_rest [OF assms(1), of mg "advance_mmh mg pl (s\<lparr>frameTime := t, frameDuration := d\<rparr>)"]
    advance_kmh_rest [of mg pl "advance_msh mg pl (advance_mmh mg pl (s\<lparr>frameTime := t, frameDuration := d\<rparr>))"]
  show ?thesis by (simp add: navigation_frame_def timeline_advance_def td)
qed

lemma reset_rest:
  assumes "player_ok pl" and "isZero mg vzero"
  shows "at_rest mg pl (resetWorldMatrix mg pl s)" and "world (resetWorldMatrix mg pl s) = identityMatrix mg"
  using assms
  by (simp_all add: resetWorldMatrix_def at_rest_def mouse_stopAnim_def scale_stopAnim_def keyboard_stopAnim_def
      player_stopAnim_def isAnimationPlaying_def player_ok_def axis_init_def lit_0 f32_true_def Let_def)

text \<open>C32: The Esc key puts the map back and nothing moves it again: after the reset the matrix is the
  identity through any number of frames, whatever animations were playing and whichever arrow keys are
  still held down.\<close>

theorem reset_is_final:
  assumes "player_ok pl" and "isZero mg vzero"
  shows "world (fold (navigation_frame mg pl) frames (resetWorldMatrix mg pl s)) = identityMatrix mg"
proof -
  have "at_rest mg pl (fold (navigation_frame mg pl) frames s) \<and> world (fold (navigation_frame mg pl) frames s) = world s"
    if "at_rest mg pl s" for s
    using that by (induction frames arbitrary: s) (auto simp: frame_rest [OF assms(1)])
  with reset_rest [OF assms] show ?thesis by simp
qed

theorem reset_is_final_witness:
  "world (fold (navigation_frame plain_magnum (countdown_player 3)) [(f32_lit 1, f32_lit 1), (f32_lit 2, f32_lit 1)]
     (resetWorldMatrix plain_magnum (countdown_player 3)
        (navigation_key plain_magnum (countdown_player 3) KeyUp False True (navigation_init plain_magnum 0)))) = (vzero, vscalar (f32_lit 1))"
proof -
  have "isZero plain_magnum vzero" "identityMatrix plain_magnum = (vzero, vscalar (f32_lit 1))" by (simp_all add: plain_magnum_def)
  then show ?thesis using reset_is_final [OF countdown_ok, of plain_magnum] by metis
qed

end
