(* ===== verification/Selection.thy ===== *)
theory Selection
  imports MapNavigation
begin

text \<open>
  \<open>src/app/shaders/selectRect/SelectionRectState.hpp\<close>: the rectangle drawn with the right button, in
  coordinates of the world and in pixels. What the code uploads to the buffer and to the shader is kept
  in \<open>bufferData\<close> and \<open>innerRect\<close>. Pixel positions are pairs of \<open>int\<close>.
\<close>

record selection =
  vertex0 :: vector2
  vertex1 :: vector2
  vertex2 :: vector2
  vertex3 :: vector2
  p1_px :: "int \<times> int"
  p2_px :: "int \<times> int"
  isSelecting :: bool
  bufferData :: "vector2 list"
  innerRect :: "f32 \<times> f32 \<times> f32 \<times> f32"

definition selection_init :: selection where
  "selection_init =
     \<lparr>vertex0 = vzero, vertex1 = vzero, vertex2 = vzero, vertex3 = vzero, p1_px = (0, 0), p2_px = (0, 0), isSelecting = False,
      bufferData = [], innerRect = (Zero False, Zero False, Zero False, Zero False)\<rparr>"

definition BORDER_PX_WIDTH :: int where "BORDER_PX_WIDTH = 1"

definition asRectangle :: "selection \<Rightarrow> range2" where
  "asRectangle r = \<lparr>rmin = vertex0 r, rmax = vertex2 r\<rparr>"

text \<open>The lambda \<open>distrib\<close> adds each coordinate along its axis.\<close>

definition distrib :: "(f32 \<Rightarrow> vector2) \<Rightarrow> int \<Rightarrow> int \<Rightarrow> vector2 \<times> vector2 \<Rightarrow> vector2 \<times> vector2" where
  "distrib func val1 val2 = (\<lambda>(topLeft, bottomRight).
     if val1 < val2 then (vadd topLeft (func (f32_of_int val1)), vadd bottomRight (func (f32_of_int val2)))
     else (vadd topLeft (func (f32_of_int val2)), vadd bottomRight (func (f32_of_int val1))))"

definition getStandardizedRect :: "int \<times> int \<Rightarrow> int \<times> int \<Rightarrow> range2" where
  "getStandardizedRect p1 p2 =
     (let corners = (vzero, vzero);
          corners = distrib x_axis (fst p1) (fst p2) corners;
          (topLeft, bottomRight) = distrib y_axis (snd p1) (snd p2) corners
      in \<lparr>rmin = topLeft, rmax = bottomRight\<rparr>)"

text \<open>One axis of \<open>_padded\<close>: Magnum's \<open>Range1D::padded\<close>, and the centre when the padding inverts it.\<close>

definition padded_axis :: "f32 \<Rightarrow> f32 \<Rightarrow> f32 \<Rightarrow> f32 \<times> f32" where
  "padded_axis lo hi padding =
     (let lo' = fsub lo padding; hi' = fadd hi padding
      in if fless hi' lo' then let c = fdiv (fadd lo hi) (f32_lit 2) in (c, c) else (lo', hi'))"

definition padded :: "range2 \<Rightarrow> f32 \<Rightarrow> f32 \<times> f32 \<times> f32 \<times> f32" where
  "padded rect padding =
     (let (x0, x1) = padded_axis (vx (rmin rect)) (vx (rmax rect)) padding;
          (y0, y1) = padded_axis (vy (rmin rect)) (vy (rmax rect)) padding
      in (x0, y0, x1, y1))"

definition trFrag :: "int \<times> int \<Rightarrow> int \<times> int \<Rightarrow> int \<times> int" where
  "trFrag moveCoords framebufferSize = (fst moveCoords, snd framebufferSize - snd moveCoords)"

definition trVert :: "int \<times> int \<Rightarrow> int \<times> int \<Rightarrow> vector2" where
  "trVert moveCoords framebufferSize =
     (let x = trunc_div (fst moveCoords - trunc_div (fst framebufferSize) 2) 1;
          y = trunc_div (snd moveCoords - trunc_div (snd framebufferSize) 2) (- 1)
      in vdiv \<lparr>vx = f32_of_int x, vy = f32_of_int y\<rparr> (vscalar (f32_of_int (snd framebufferSize))))"

definition updateShaderData :: "selection \<Rightarrow> selection" where
  "updateShaderData r =
     (let r = r\<lparr>vertex1 := \<lparr>vx = vx (vertex2 r), vy = vy (vertex0 r)\<rparr>,
                vertex3 := \<lparr>vx = vx (vertex0 r), vy = vy (vertex2 r)\<rparr>\<rparr>;
          r = r\<lparr>bufferData := [vertex0 r, vertex1 r, vertex2 r, vertex3 r]\<rparr>
      in r\<lparr>innerRect := padded (getStandardizedRect (p1_px r) (p2_px r)) (f32_of_int (- BORDER_PX_WIDTH))\<rparr>)"

definition updatefromPoint :: "int \<times> int \<Rightarrow> int \<times> int \<Rightarrow> selection \<Rightarrow> selection" where
  "updatefromPoint point framebufferSize r =
     (let r = r\<lparr>vertex2 := trVert point framebufferSize, p2_px := trFrag point framebufferSize\<rparr>
      in updateShaderData r)"

definition selection_start :: "int \<times> int \<Rightarrow> int \<times> int \<Rightarrow> selection \<Rightarrow> selection" where
  "selection_start position framebufferSize r =
     (let r = r\<lparr>vertex0 := trVert position framebufferSize\<rparr>;
          r = r\<lparr>vertex2 := vertex0 r\<rparr>;
          r = r\<lparr>p1_px := trFrag position framebufferSize\<rparr>;
          r = r\<lparr>p2_px := p1_px r\<rparr>
      in (updateShaderData r)\<lparr>isSelecting := True\<rparr>)"

definition selection_update :: "int \<times> int \<Rightarrow> int \<times> int \<Rightarrow> selection \<Rightarrow> selection" where
  "selection_update position framebufferSize r = updatefromPoint position framebufferSize r"

definition selection_end :: "int \<times> int \<Rightarrow> int \<times> int \<Rightarrow> selection \<Rightarrow> selection" where
  "selection_end position framebufferSize r = (updatefromPoint position framebufferSize r)\<lparr>isSelecting := False\<rparr>"

definition resetSelection :: "selection \<Rightarrow> selection" where
  "resetSelection r = r\<lparr>isSelecting := False\<rparr>"

section \<open>The rectangle does not depend on how it is drawn\<close>

lemma fadd_commute: "fadd x y = fadd y x"
  by (cases x; cases y) (auto simp: add.commute conj_commute)

lemma f32_abs_round: "f32_abs (round_f32 s (- q)) = f32_abs (round_f32 t q)"
  by (simp add: round_f32_def Let_def)

lemma f32_abs_fsub_commute: "f32_abs (fsub x y) = f32_abs (fsub y x)"
proof -
  have "f32_abs (fsub (Num p) (Num q)) = f32_abs (fsub (Num q) (Num p))" for p q
    using f32_abs_round [of False "q - p" False] by (simp add: fsub_def)
  moreover have "f32_abs (fsub (Num p) (Zero n)) = f32_abs (fsub (Zero n) (Num p))" for p n
    using f32_abs_round [of False p False] by (simp add: fsub_def)
  ultimately show ?thesis by (cases x; cases y) (simp_all add: fsub_def)
qed

definition drawn :: "int \<times> int \<Rightarrow> (int \<times> int) list \<Rightarrow> int \<times> int \<Rightarrow> int \<times> int \<Rightarrow> selection \<Rightarrow> selection" where
  "drawn p moves p' fb r = selection_end p' fb (fold (\<lambda>m. selection_update m fb) moves (selection_start p fb r))"

lemma updateShaderData_sel [simp]:
  "vertex0 (updateShaderData r) = vertex0 r" "vertex2 (updateShaderData r) = vertex2 r"
  "p1_px (updateShaderData r) = p1_px r" "p2_px (updateShaderData r) = p2_px r"
  "isSelecting (updateShaderData r) = isSelecting r"
  by (simp_all add: updateShaderData_def Let_def)

lemma moves_keep:
  "vertex0 (fold (\<lambda>m. selection_update m fb) moves r) = vertex0 r \<and> p1_px (fold (\<lambda>m. selection_update m fb) moves r) = p1_px r"
  by (induction moves arbitrary: r) (simp_all add: selection_update_def updatefromPoint_def Let_def)

lemma drawn_corners:
  "vertex0 (drawn p moves p' fb r) = trVert p fb" "vertex2 (drawn p moves p' fb r) = trVert p' fb"
  "p1_px (drawn p moves p' fb r) = trFrag p fb" "p2_px (drawn p moves p' fb r) = trFrag p' fb"
  by (simp_all add: drawn_def selection_end_def updatefromPoint_def moves_keep selection_start_def Let_def)

lemma drawn_innerRect:
  "innerRect (drawn p moves p' fb r) = padded (getStandardizedRect (trFrag p fb) (trFrag p' fb)) (f32_of_int (- BORDER_PX_WIDTH))"
proof -
  have "innerRect (drawn p moves p' fb r) =
      padded (getStandardizedRect (p1_px (drawn p moves p' fb r)) (p2_px (drawn p moves p' fb r))) (f32_of_int (- BORDER_PX_WIDTH))"
    by (simp add: drawn_def selection_end_def updatefromPoint_def updateShaderData_def Let_def)
  then show ?thesis by (simp add: drawn_corners)
qed

lemma distrib_commute: "distrib f a b = distrib f b a"
  by (rule ext) (auto simp: distrib_def split: prod.splits)

lemma distrib_pair: "{a, b} = {c, d} \<Longrightarrow> distrib f a b = distrib f c d"
  by (metis distrib_commute doubleton_eq_iff)

lemma snapshot_depends:
  assumes "f32_abs (range_sizeY r) = f32_abs (range_sizeY r')" and "range_center r = range_center r'"
  shows "snapshotZoom mg pl r s = snapshotZoom mg pl r' s"
  using assms by (simp add: snapshotZoom_def)

lemma trVert_coords:
  "\<exists>f. \<forall>x y. vx (trVert (x, y) fb) = f x" "\<exists>g. \<forall>x y. vy (trVert (x, y) fb) = g y"
  by (simp_all add: trVert_def vdiv_def Let_def) (rule exI, rule allI, rule refl)+

lemma image_pair: "{x, x'} = {a, a'} \<Longrightarrow> {f x, f x'} = {f a, f a'}"
  by (metis image_empty image_insert)

lemma range2_snapshot:
  assumes "{vx p, vx q} = {vx p', vx q'}" and "{vy p, vy q} = {vy p', vy q'}"
  shows "snapshotZoom mg pl \<lparr>rmin = p, rmax = q\<rparr> s = snapshotZoom mg pl \<lparr>rmin = p', rmax = q'\<rparr> s"
proof (rule snapshot_depends)
  show "f32_abs (range_sizeY \<lparr>rmin = p, rmax = q\<rparr>) = f32_abs (range_sizeY \<lparr>rmin = p', rmax = q'\<rparr>)"
    using assms(2) f32_abs_fsub_commute by (auto simp: range_sizeY_def doubleton_eq_iff)
  show "range_center \<lparr>rmin = p, rmax = q\<rparr> = range_center \<lparr>rmin = p', rmax = q'\<rparr>"
    using assms fadd_commute by (auto simp: range_center_def vadd_def doubleton_eq_iff)
qed

lemma standardized_corners:
  assumes "{x, x'} = {a, a'}" and "{y, y'} = {b, b'}"
  shows "getStandardizedRect (x, y) (x', y') = getStandardizedRect (a, b) (a', b')"
  by (simp add: getStandardizedRect_def distrib_pair [OF assms(1)] distrib_pair [OF assms(2)])

text \<open>The zoom a selection leads to, and the border its shader draws, depend only on the rectangle: not
  on the path of the mouse nor on which of the four corners the drawing started from.\<close>

theorem selection_direction_irrelevant:
  assumes "{x, x'} = {a, a'}" and "{y, y'} = {b, b'}"
  shows "snapshotZoom mg pl (asRectangle (drawn (x, y) moves (x', y') fb r)) s =
      snapshotZoom mg pl (asRectangle (drawn (a, b) moves' (a', b') fb r')) s
    \<and> innerRect (drawn (x, y) moves (x', y') fb r) = innerRect (drawn (a, b) moves' (a', b') fb r')"
proof
  have v: "{vx (trVert (x, y) fb), vx (trVert (x', y') fb)} = {vx (trVert (a, b) fb), vx (trVert (a', b') fb)}"
    "{vy (trVert (x, y) fb), vy (trVert (x', y') fb)} = {vy (trVert (a, b) fb), vy (trVert (a', b') fb)}"
    using trVert_coords [of fb] image_pair [OF assms(1)] image_pair [OF assms(2)] by metis+
  show "snapshotZoom mg pl (asRectangle (drawn (x, y) moves (x', y') fb r)) s =
      snapshotZoom mg pl (asRectangle (drawn (a, b) moves' (a', b') fb r')) s"
    unfolding asRectangle_def drawn_corners by (rule range2_snapshot [OF v])
  have "{snd fb - y, snd fb - y'} = {snd fb - b, snd fb - b'}" using assms(2) by (auto simp: doubleton_eq_iff)
  from standardized_corners [OF assms(1) this]
  show "innerRect (drawn (x, y) moves (x', y') fb r) = innerRect (drawn (a, b) moves' (a', b') fb r')"
    unfolding drawn_innerRect by (simp add: trFrag_def)
qed

theorem selection_direction_irrelevant_witness:
  "innerRect (drawn (10, 90) [(50, 50)] (70, 30) (800, 600) selection_init) =
   innerRect (drawn (70, 90) [] (10, 30) (800, 600) selection_init)"
  by (rule selection_direction_irrelevant [THEN conjunct2]) auto

end
