(* ===== verification/Hover.thy ===== *)
theory Hover
  imports US_Prelude
begin

text \<open>
  \<open>src/app/widgets/base/Hoverable.hpp\<close> and \<open>Container.hpp\<close>: the tree of widgets, which of them the
  mouse is over, and how a change of matrix or of the window reaches every widget. Widgets are numbered;
  what a widget's own overrides do is the record of the calls they get. Each container remembers the
  child it found last and asks it first; the first group of lemmas shows that this cache never changes
  the answer, the second what it does to the flags of the widgets.
\<close>

section \<open>Widgets\<close>

datatype widget = Hoverable nat | Container nat "widget list"

fun wid :: "widget \<Rightarrow> nat" where
  "wid (Hoverable i) = i"
| "wid (Container i ws) = i"

fun ids :: "widget \<Rightarrow> nat list" and all_ids :: "widget list \<Rightarrow> nat list" where
  "ids (Hoverable i) = [i]"
| "ids (Container i ws) = i # all_ids ws"
| "all_ids [] = []"
| "all_ids (w # ws) = ids w @ all_ids ws"

lemma wid_ids [simp]: "wid w \<in> set (ids w)"
  by (cases w) simp_all

lemma all_ids_mem: "w \<in> set ws \<Longrightarrow> set (ids w) \<subseteq> set (all_ids ws)"
  by (induction ws) auto

lemma set_all_ids: "set (all_ids ws) = (\<Union>w\<in>set ws. set (ids w))"
  by (induction ws) auto

lemma wid_all: "w \<in> set ws \<Longrightarrow> wid w \<in> set (all_ids ws)"
  using all_ids_mem wid_ids by blast

section \<open>Is the mouse over it?\<close>

text \<open>\<open>hoverChanged\<close>: the calls of \<open>_onHoverChanged\<close>, in order.\<close>

record hover_state =
  isHovered :: "nat \<Rightarrow> bool"
  latestHoveredShape :: "nat \<Rightarrow> nat option"
  hoverChanged :: "(nat \<times> bool) list"

definition hover_init :: hover_state where
  "hover_init = \<lparr>isHovered = (\<lambda>_. False), latestHoveredShape = (\<lambda>_. None), hoverChanged = []\<rparr>"

text \<open>\<open>over i\<close>: the geometry of widget \<open>i\<close> contains the cursor, by Magnum's \<open>Range2D::contains\<close>.\<close>

definition check_self :: "(nat \<Rightarrow> bool) \<Rightarrow> nat \<Rightarrow> hover_state \<Rightarrow> hover_state" where
  "check_self over i s =
     (let hovered = over i
      in if isHovered s i \<noteq> hovered
         then s\<lparr>isHovered := (isHovered s)(i := hovered), hoverChanged := hoverChanged s @ [(i, hovered)]\<rparr>
         else s)"

definition updateLatestHoveredShape :: "nat \<Rightarrow> nat option \<Rightarrow> hover_state \<Rightarrow> hover_state" where
  "updateLatestHoveredShape i hoverable s =
     (if latestHoveredShape s i = hoverable then s
      else s\<lparr>latestHoveredShape := (latestHoveredShape s)(i := hoverable)\<rparr>)"

text \<open>\<open>checkIfMouseOver\<close> is the virtual function, \<open>check_latest\<close> its call on the child a container
  points to, \<open>check_inner\<close> the loop over \<open>_innerShapes\<close>.\<close>

fun checkIfMouseOver :: "(nat \<Rightarrow> bool) \<Rightarrow> widget \<Rightarrow> hover_state \<Rightarrow> nat option \<times> hover_state"
  and check_latest :: "(nat \<Rightarrow> bool) \<Rightarrow> nat \<Rightarrow> widget list \<Rightarrow> hover_state \<Rightarrow> nat option \<times> hover_state"
  and check_inner :: "(nat \<Rightarrow> bool) \<Rightarrow> nat \<Rightarrow> nat option \<Rightarrow> widget list \<Rightarrow> hover_state \<Rightarrow> nat option \<times> hover_state"
where
  "checkIfMouseOver over (Hoverable i) s = (if over i then Some i else None, check_self over i s)"
| "checkIfMouseOver over (Container i ws) s =
     (let (deepestLatest, s) = (case latestHoveredShape s i of
            None \<Rightarrow> (None, s)
          | Some j \<Rightarrow> if j = i then (None, s) else check_latest over j ws s);
          s = check_self over i s
      in if \<not> isHovered s i then (None, updateLatestHoveredShape i None s)
         else check_inner over i deepestLatest ws s)"
| "check_latest over j [] s = (None, s)"
| "check_latest over j (w # ws) s = (if wid w = j then checkIfMouseOver over w s else check_latest over j ws s)"
| "check_inner over i deepestLatest [] s = (Some i, updateLatestHoveredShape i (Some i) s)"
| "check_inner over i deepestLatest (w # ws) s =
     (if latestHoveredShape s i = Some (wid w) \<and> isHovered s (wid w) then (deepestLatest, s)
      else
        let (deeperHovered, s) = checkIfMouseOver over w s
        in if isHovered s (wid w) then (deeperHovered, updateLatestHoveredShape i (Some (wid w)) s)
           else check_inner over i deepestLatest ws s)"

section \<open>What it computes\<close>

text \<open>The widgets under the cursor, from the outermost in: the first child that contains it counts.\<close>

fun hover_path :: "(nat \<Rightarrow> bool) \<Rightarrow> widget \<Rightarrow> nat list"
  and inner_path :: "(nat \<Rightarrow> bool) \<Rightarrow> widget list \<Rightarrow> nat list" where
  "hover_path over (Hoverable i) = (if over i then [i] else [])"
| "hover_path over (Container i ws) = (if over i then i # inner_path over ws else [])"
| "inner_path over [] = []"
| "inner_path over (w # ws) = (if over (wid w) then hover_path over w else inner_path over ws)"

definition deepest :: "nat list \<Rightarrow> nat option" where
  "deepest p = (if p = [] then None else Some (last p))"

lemma hover_path_Nil: "hover_path over w = [] \<longleftrightarrow> \<not> over (wid w)"
  by (cases w) simp_all

lemma hover_path_ids:
  "set (hover_path over w) \<subseteq> set (ids w)"
  "set (inner_path over ws) \<subseteq> set (all_ids ws)"
  by (induction over w and over ws rule: hover_path_inner_path.induct) auto

text \<open>The part of a container's check that asks the child found last.\<close>

definition ask_latest :: "(nat \<Rightarrow> bool) \<Rightarrow> nat \<Rightarrow> widget list \<Rightarrow> hover_state \<Rightarrow> nat option \<times> hover_state" where
  "ask_latest over i ws s = (case latestHoveredShape s i of
       None \<Rightarrow> (None, s)
     | Some j \<Rightarrow> if j = i then (None, s) else check_latest over j ws s)"

lemma self_hovered [simp]: "isHovered (check_self over i s) i = over i"
  by (simp add: check_self_def Let_def)

declare checkIfMouseOver.simps(2) [simp del]

lemma check_Container [simp]:
  "checkIfMouseOver over (Container i ws) s =
     (let s' = check_self over i (snd (ask_latest over i ws s))
      in if over i then check_inner over i (fst (ask_latest over i ws s)) ws s'
         else (None, updateLatestHoveredShape i None s'))"
  unfolding checkIfMouseOver.simps(2) ask_latest_def [symmetric] by (simp add: split_beta Let_def)

lemma check_induct [case_names Hoverable Container latest_Nil latest_Cons inner_Nil inner_Cons]:
  assumes "\<And>over i s. P over (Hoverable i) s"
    and "\<And>over i ws s. (\<And>j. latestHoveredShape s i = Some j \<Longrightarrow> j \<noteq> i \<Longrightarrow> Q over j ws s) \<Longrightarrow>
      (over i \<Longrightarrow> R over i (fst (ask_latest over i ws s)) ws (check_self over i (snd (ask_latest over i ws s)))) \<Longrightarrow>
      P over (Container i ws) s"
    and "\<And>over j s. Q over j [] s"
    and "\<And>over j w ws s. (wid w = j \<Longrightarrow> P over w s) \<Longrightarrow> (wid w \<noteq> j \<Longrightarrow> Q over j ws s) \<Longrightarrow> Q over j (w # ws) s"
    and "\<And>over i d s. R over i d [] s"
    and "\<And>over i d w ws s.
      (\<not> (latestHoveredShape s i = Some (wid w) \<and> isHovered s (wid w)) \<Longrightarrow> P over w s) \<Longrightarrow>
      (\<not> (latestHoveredShape s i = Some (wid w) \<and> isHovered s (wid w)) \<Longrightarrow>
       \<not> isHovered (snd (checkIfMouseOver over w s)) (wid w) \<Longrightarrow>
       R over i d ws (snd (checkIfMouseOver over w s))) \<Longrightarrow> R over i d (w # ws) s"
  shows "P over w s" and "Q over j ws s" and "R over i d ws s"
proof (induction over w s and over j ws s and over i d ws s rule: checkIfMouseOver_check_latest_check_inner.induct)
  case (2 over i ws s)
  show ?case
  proof (rule assms(2))
    show "Q over j ws s" if "latestHoveredShape s i = Some j" "j \<noteq> i" for j using 2(1) that by blast
    show "R over i (fst (ask_latest over i ws s)) ws (check_self over i (snd (ask_latest over i ws s)))" if "over i"
      using 2(2) [OF refl _ refl] that by (simp flip: ask_latest_def)
  qed
next
  case (6 over i d w ws s)
  show ?case
    by (rule assms(6)) (auto intro!: 6(1) 6(2) [OF _ refl prod.collapse] simp del: check_Container)
next
  case (4 over j w ws s)
  then show ?case by (rule assms(4))
qed (rule assms(1), rule assms(3), rule assms(5))

text \<open>A check changes nothing of widgets outside the tree it runs on.\<close>

definition agree :: "nat set \<Rightarrow> hover_state \<Rightarrow> hover_state \<Rightarrow> bool" where
  "agree A s s' \<longleftrightarrow> (\<forall>j\<in>A. isHovered s' j = isHovered s j \<and> latestHoveredShape s' j = latestHoveredShape s j)"

lemma agree_refl [simp]: "agree A s s"
  by (simp add: agree_def)

lemma agree_trans: "agree A s s' \<Longrightarrow> agree A s' s'' \<Longrightarrow> agree A s s''"
  by (simp add: agree_def)

lemma agree_mono: "agree A s s' \<Longrightarrow> B \<subseteq> A \<Longrightarrow> agree B s s'"
  by (auto simp: agree_def)

lemma agree_self: "i \<notin> A \<Longrightarrow> agree A s (check_self over i s)"
  by (auto simp: agree_def check_self_def Let_def)

lemma agree_update: "i \<notin> A \<Longrightarrow> agree A s (updateLatestHoveredShape i h s)"
  by (auto simp: agree_def updateLatestHoveredShape_def)

lemma check_frame:
  "set (ids w) \<inter> A = {} \<Longrightarrow> agree A s (snd (checkIfMouseOver over w s))"
  "set (all_ids ws) \<inter> A = {} \<Longrightarrow> agree A s (snd (check_latest over j ws s))"
  "set (all_ids ws) \<inter> A = {} \<Longrightarrow> i \<notin> A \<Longrightarrow> agree A s (snd (check_inner over i d ws s))"
proof (induction over w s and over j ws s and over i d ws s rule: check_induct)
  case (Hoverable over i s)
  then show ?case by (simp add: agree_self)
next
  case (Container over i ws s)
  from Container(3) have d: "i \<notin> A" "set (all_ids ws) \<inter> A = {}" by auto
  have "agree A s (snd (ask_latest over i ws s))"
    unfolding ask_latest_def by (auto split: option.split intro: Container(1) [OF _ _ d(2)])
  then have "agree A s (check_self over i (snd (ask_latest over i ws s)))" using agree_self [OF d(1)] by (rule agree_trans)
  then show ?case using Container(2) [OF _ d(2,1)] agree_update [OF d(1)] by (auto simp: Let_def intro: agree_trans)
next
  case (inner_Cons over i d w ws s)
  then show ?case
    by (auto simp: split_beta Let_def simp del: check_Container intro: agree_trans agree_update)
qed (auto simp del: check_Container simp: agree_update)

lemma frame_one:
  "j \<notin> set (ids w) \<Longrightarrow> isHovered (snd (checkIfMouseOver over w s)) j = isHovered s j"
  "j \<notin> set (ids w) \<Longrightarrow> latestHoveredShape (snd (checkIfMouseOver over w s)) j = latestHoveredShape s j"
  "j \<notin> set (all_ids ws) \<Longrightarrow> isHovered (snd (check_latest over k ws s)) j = isHovered s j"
  "j \<notin> set (all_ids ws) \<Longrightarrow> latestHoveredShape (snd (check_latest over k ws s)) j = latestHoveredShape s j"
  "j \<notin> set (all_ids ws) \<Longrightarrow> i \<noteq> j \<Longrightarrow> isHovered (snd (check_inner over i d ws s)) j = isHovered s j"
  using check_frame [where A = "{j}"] unfolding agree_def by blast+

lemma update_sel [simp]:
  "isHovered (updateLatestHoveredShape i h s) = isHovered s"
  "latestHoveredShape (updateLatestHoveredShape i h s) = (latestHoveredShape s)(i := h)"
  by (auto simp: updateLatestHoveredShape_def)

lemma self_sel [simp]:
  "latestHoveredShape (check_self over i s) = latestHoveredShape s"
  "j \<noteq> i \<Longrightarrow> isHovered (check_self over i s) j = isHovered s j"
  by (auto simp: check_self_def Let_def)

lemma ask_latest_frame:
  assumes "j \<notin> set (all_ids ws)"
  shows "isHovered (snd (ask_latest over i ws s)) j = isHovered s j"
    and "latestHoveredShape (snd (ask_latest over i ws s)) j = latestHoveredShape s j"
  using frame_one(3,4) [OF assms] by (auto simp: ask_latest_def split: option.split)

lemma wid_neq: "distinct (ids w @ all_ids ws) \<Longrightarrow> w' \<in> set ws \<Longrightarrow> wid w' \<notin> set (ids w) \<and> wid w \<noteq> wid w'"
  using all_ids_mem [of w' ws] wid_ids [of w'] wid_ids [of w] by fastforce

lemma deepest_Cons: "deepest (i # p) = (if p = [] then Some i else deepest p)"
  by (simp add: deepest_def)

lemma check_result:
  "distinct (ids w) \<Longrightarrow> isHovered (snd (checkIfMouseOver over w s)) (wid w) = over (wid w)
     \<and> fst (checkIfMouseOver over w s) = deepest (hover_path over w)"
  "distinct (all_ids ws) \<Longrightarrow> \<forall>w\<in>set ws. wid w = j \<longrightarrow>
     isHovered (snd (check_latest over j ws s)) j = over j \<and> fst (check_latest over j ws s) = deepest (hover_path over w)"
  "distinct (i # all_ids ws) \<Longrightarrow> \<forall>w\<in>set ws. latestHoveredShape s i = Some (wid w) \<longrightarrow>
       isHovered s (wid w) = over (wid w) \<and> d = deepest (hover_path over w) \<Longrightarrow>
     isHovered (snd (check_inner over i d ws s)) i = isHovered s i
     \<and> fst (check_inner over i d ws s) = deepest (i # inner_path over ws)"
proof (induction over w s and over j ws s and over i d ws s rule: check_induct)
  case (Hoverable over i s)
  then show ?case by (simp add: deepest_def)
next
  case (Container over i ws s)
  let ?s1 = "snd (ask_latest over i ws s)" and ?d = "fst (ask_latest over i ws s)"
  from Container.prems have d: "distinct (all_ids ws)" "i \<notin> set (all_ids ws)" by auto
  have "isHovered ?s1 (wid w) = over (wid w) \<and> ?d = deepest (hover_path over w)"
    if "w \<in> set ws" "latestHoveredShape ?s1 i = Some (wid w)" for w
  proof -
    have l: "latestHoveredShape s i = Some (wid w)" using that(2) ask_latest_frame(2) [OF d(2)] by simp
    have n: "wid w \<noteq> i" using d(2) wid_all [OF that(1)] by auto
    have "ask_latest over i ws s = check_latest over (wid w) ws s" using l n by (simp add: ask_latest_def)
    then show ?thesis using Container(1) [OF l n d(1)] that(1) by simp
  qed
  moreover have "wid w \<noteq> i" if "w \<in> set ws" for w using d(2) wid_all [OF that] by auto
  ultimately show ?case
    using Container(2) [OF _ Container.prems [simplified ids.simps]] by (auto simp: Let_def deepest_def)
next
  case (latest_Cons over j w ws s)
  show ?case
  proof (cases "wid w = j")
    case True
    then have "\<forall>w'\<in>set (w # ws). wid w' = j \<longrightarrow> w' = w"
      using wid_neq [of w ws] latest_Cons.prems by fastforce
    then show ?thesis using latest_Cons(1) [OF True] latest_Cons.prems True
      by (simp del: check_Container)
  next
    case False
    then show ?thesis using latest_Cons(2) latest_Cons.prems by (simp del: check_Container)
  qed
next
  case (inner_Nil over i d s)
  then show ?case by (simp add: deepest_def)
next
  case (inner_Cons over i d w ws s)
  let ?s = "snd (checkIfMouseOver over w s)"
  show ?case
  proof (cases "latestHoveredShape s i = Some (wid w) \<and> isHovered s (wid w)")
    case True
    then show ?thesis using inner_Cons.prems(2) by (simp add: deepest_Cons hover_path_Nil)
  next
    case False
    have dw: "distinct (ids w)" "i \<notin> set (ids w)" "distinct (i # all_ids ws)" using inner_Cons.prems(1) by auto
    note w = inner_Cons(1) [OF False dw(1)]
    have "\<forall>w'\<in>set ws. latestHoveredShape ?s i = Some (wid w') \<longrightarrow>
        isHovered ?s (wid w') = over (wid w') \<and> d = deepest (hover_path over w')"
      using inner_Cons.prems wid_neq [of w ws] frame_one(1,2) [where over = over and s = s] dw(2) by auto
    then show ?thesis
      using False w inner_Cons(2) [OF False _ dw(3)] frame_one(1) [OF dw(2), where over = over and s = s]
      by (auto simp: split_beta Let_def deepest_Cons hover_path_Nil simp del: check_Container)
  qed
qed simp

text \<open>C24: Whatever the widgets were hovered before and whatever the containers remember, a check answers the
  innermost widget under the cursor, by the first child of each container that contains it.\<close>

theorem hover_cache_transparent:
  assumes "distinct (ids w)"
  shows "fst (checkIfMouseOver over w s) = deepest (hover_path over w)"
  using check_result(1) [OF assms] by blast

theorem hover_cache_transparent_witness:
  "fst (checkIfMouseOver (\<lambda>i. i \<in> {0, 2, 3}) (Container 0 [Hoverable 1, Container 2 [Hoverable 3]])
     (hover_init\<lparr>latestHoveredShape := (\<lambda>i. if i = 0 then Some 1 else None)\<rparr>)) = Some 3"
  using hover_cache_transparent [of "Container 0 [Hoverable 1, Container 2 [Hoverable 3]]" "\<lambda>i. i \<in> {0, 2, 3}"
      "hover_init\<lparr>latestHoveredShape := (\<lambda>i. if i = 0 then Some 1 else None)\<rparr>"]
  by (simp add: deepest_def)

section \<open>The flags\<close>

definition unhovered :: "hover_state \<Rightarrow> widget \<Rightarrow> bool" where
  "unhovered s w \<longleftrightarrow> (\<forall>j\<in>set (ids w). \<not> isHovered s j)"

definition exact :: "(nat \<Rightarrow> bool) \<Rightarrow> hover_state \<Rightarrow> widget \<Rightarrow> bool" where
  "exact over s w \<longleftrightarrow> (\<forall>j\<in>set (ids w). isHovered s j = (j \<in> set (hover_path over w)))"

text \<open>Only the child a container points to, and what is in it, is hovered.\<close>

fun cache_ok :: "hover_state \<Rightarrow> widget \<Rightarrow> bool" where
  "cache_ok s (Hoverable i) = True"
| "cache_ok s (Container i ws) =
     (\<forall>w\<in>set ws. cache_ok s w \<and> (latestHoveredShape s i \<noteq> Some (wid w) \<longrightarrow> unhovered s w))"

text \<open>At this position of the cursor children are inside their containers and do not overlap.\<close>

fun laid :: "(nat \<Rightarrow> bool) \<Rightarrow> widget \<Rightarrow> bool" where
  "laid over (Hoverable i) = True"
| "laid over (Container i ws) =
     ((\<forall>w\<in>set ws. laid over w \<and> (over (wid w) \<longrightarrow> over i)) \<and> (\<forall>w\<in>set ws. \<forall>w'\<in>set ws. over (wid w) \<and> over (wid w') \<longrightarrow> w = w'))"

lemma exact_unhovered: "exact over s w \<Longrightarrow> \<not> over (wid w) \<Longrightarrow> unhovered s w"
  using hover_path_Nil [of over w] by (simp add: exact_def unhovered_def)

lemma agree_unhovered: "agree (set (ids w)) s s' \<Longrightarrow> unhovered s' w = unhovered s w"
  by (simp add: agree_def unhovered_def)

lemma agree_exact: "agree (set (ids w)) s s' \<Longrightarrow> exact over s' w = exact over s w"
  by (simp add: agree_def exact_def)

lemma agree_cache_ok: "agree (set (ids w)) s s' \<Longrightarrow> cache_ok s' w = cache_ok s w"
proof (induction w)
  case (Container i ws)
  have "cache_ok s' w = cache_ok s w \<and> unhovered s' w = unhovered s w" if w: "w \<in> set ws" for w
  proof -
    have "agree (set (ids w)) s s'" using Container.prems all_ids_mem [OF w] by (auto intro: agree_mono)
    then show ?thesis using Container.IH [OF w] agree_unhovered by blast
  qed
  moreover have "latestHoveredShape s' i = latestHoveredShape s i" using Container.prems by (simp add: agree_def)
  ultimately show ?case by simp
qed simp

lemma inner_path_None: "\<forall>w\<in>set ws. \<not> over (wid w) \<Longrightarrow> inner_path over ws = []"
  by (induction ws) auto

lemma check_latest_other:
  assumes "distinct (all_ids ws)" and "w \<in> set ws" and "wid w \<noteq> j"
  shows "agree (set (ids w)) s (snd (check_latest over j ws s))"
  using assms
proof (induction ws)
  case (Cons v ws)
  show ?case
  proof (cases "wid v = j")
    case True
    then have "w \<in> set ws" using Cons.prems by auto
    then have "set (ids v) \<inter> set (ids w) = {}" using Cons.prems all_ids_mem by fastforce
    then show ?thesis using check_frame(1) True by simp
  next
    case False
    show ?thesis
    proof (cases "w \<in> set ws")
      case True
      then show ?thesis using Cons False by simp
    next
      case wv: False
      then have "set (all_ids ws) \<inter> set (ids w) = {}" using Cons.prems by auto
      then show ?thesis using check_frame(2) False by simp
    qed
  qed
qed simp

text \<open>The loop, when what was found last has been asked already.\<close>

definition asked :: "(nat \<Rightarrow> bool) \<Rightarrow> hover_state \<Rightarrow> nat option \<Rightarrow> widget \<Rightarrow> bool" where
  "asked over s l w \<longleftrightarrow> cache_ok s w \<and> (if l = Some (wid w) then exact over s w else unhovered s w)"

lemma asked_agree: "agree (set (ids w)) s s' \<Longrightarrow> asked over s' l w = asked over s l w"
  by (simp add: asked_def agree_cache_ok agree_exact agree_unhovered)

text \<open>What holds of each child after the loop.\<close>

definition settled :: "(nat \<Rightarrow> bool) \<Rightarrow> hover_state \<Rightarrow> nat option \<Rightarrow> nat list \<Rightarrow> widget \<Rightarrow> bool" where
  "settled over s l p w \<longleftrightarrow> cache_ok s w \<and> (l \<noteq> Some (wid w) \<longrightarrow> unhovered s w)
     \<and> (\<forall>j\<in>set (ids w). isHovered s j = (j \<in> set p))"

lemma settled_agree: "agree (set (ids w)) s s' \<Longrightarrow> settled over s' l p w = settled over s l p w"
  by (simp add: settled_def agree_cache_ok agree_unhovered) (simp add: agree_def)

lemma settled_out: "unhovered s w \<Longrightarrow> cache_ok s w \<Longrightarrow> set p \<inter> set (ids w) = {} \<Longrightarrow> settled over s l p w"
  by (auto simp: settled_def unhovered_def)

lemma asked_out: "asked over s l w \<Longrightarrow> \<not> over (wid w) \<Longrightarrow> unhovered s w \<and> cache_ok s w"
  using exact_unhovered by (auto simp: asked_def split: if_splits)

definition disjoint_at :: "(nat \<Rightarrow> bool) \<Rightarrow> widget list \<Rightarrow> bool" where
  "disjoint_at over ws \<longleftrightarrow> (\<forall>w\<in>set ws. laid over w)
     \<and> (\<forall>w\<in>set ws. \<forall>w'\<in>set ws. over (wid w) \<and> over (wid w') \<longrightarrow> w = w')"

lemma ids_disjoint: "distinct (ids w @ all_ids ws) \<Longrightarrow> w' \<in> set ws \<Longrightarrow> set (ids w) \<inter> set (ids w') = {}"
  using all_ids_mem [of w' ws] by fastforce

lemma loop_found:
  assumes "distinct (ids w @ all_ids ws)" and "i \<notin> set (ids w)" "i \<notin> set (all_ids ws)"
    and "disjoint_at over (w # ws)" and "over (wid w)"
    and "exact over s w" and "cache_ok s w" and "\<forall>w'\<in>set ws. asked over s l w'"
    and "agree (set (all_ids (w # ws))) s s'"
  shows "\<forall>v\<in>set (w # ws). settled over s' (Some (wid w)) (inner_path over (w # ws)) v"
proof
  fix v assume v: "v \<in> set (w # ws)"
  have a: "agree (set (ids v)) s s'" using assms(9) all_ids_mem [OF v] by (rule agree_mono)
  show "settled over s' (Some (wid w)) (inner_path over (w # ws)) v"
  proof (cases "v = w")
    case True
    with assms(5-7) show ?thesis unfolding settled_agree [OF a] by (simp add: settled_def exact_def)
  next
    case False
    with v have v: "v \<in> set ws" by simp
    have "w \<noteq> v" using ids_disjoint [OF assms(1) v] by (metis disjoint_iff wid_ids)
    then have "\<not> over (wid v)" using assms(4,5) v unfolding disjoint_at_def by (metis list.set_intros)
    then have "unhovered s v" "cache_ok s v" using asked_out assms(8) v by blast+
    moreover have "set (inner_path over (w # ws)) \<inter> set (ids v) = {}"
      using ids_disjoint [OF assms(1) v] hover_path_ids(1) [of over w] assms(5) by auto
    ultimately show ?thesis unfolding settled_agree [OF a] by (rule settled_out)
  qed
qed

lemma check_exact:
  "distinct (ids w) \<Longrightarrow> laid over w \<Longrightarrow> cache_ok s w \<Longrightarrow>
     exact over (snd (checkIfMouseOver over w s)) w \<and> cache_ok (snd (checkIfMouseOver over w s)) w"
  "distinct (all_ids ws) \<Longrightarrow> \<forall>w\<in>set ws. laid over w \<and> cache_ok s w \<Longrightarrow>
     \<forall>w\<in>set ws. wid w = j \<longrightarrow>
       exact over (snd (check_latest over j ws s)) w \<and> cache_ok (snd (check_latest over j ws s)) w"
  "distinct (i # all_ids ws) \<Longrightarrow> disjoint_at over ws \<Longrightarrow> \<forall>w\<in>set ws. asked over s (latestHoveredShape s i) w \<Longrightarrow>
     \<forall>w\<in>set ws. settled over (snd (check_inner over i d ws s))
       (latestHoveredShape (snd (check_inner over i d ws s)) i) (inner_path over ws) w"
proof (induction over w s and over j ws s and over i d ws s rule: check_induct)
  case (Hoverable over i s)
  then show ?case by (simp add: exact_def)
next
  case (Container over i ws s)
  let ?s1 = "snd (ask_latest over i ws s)"
  let ?s2 = "check_self over i ?s1"
  from Container.prems have d: "distinct (all_ids ws)" "i \<notin> set (all_ids ws)" by auto
  have l: "latestHoveredShape ?s2 i = latestHoveredShape s i" using ask_latest_frame(2) [OF d(2)] by simp
  have c: "\<forall>w\<in>set ws. laid over w \<and> cache_ok s w" using Container.prems by simp
  have asked: "asked over ?s2 (latestHoveredShape ?s2 i) w" if w: "w \<in> set ws" for w
  proof -
    have wi: "wid w \<noteq> i" "i \<notin> set (ids w)" using d(2) wid_all [OF w] all_ids_mem [OF w] by auto
    have a: "agree (set (ids w)) ?s1 ?s2" using wi(2) by (rule agree_self)
    have "asked over ?s1 (latestHoveredShape s i) w"
    proof (cases "latestHoveredShape s i = Some (wid w)")
      case True
      then have "ask_latest over i ws s = check_latest over (wid w) ws s" using wi by (simp add: ask_latest_def)
      then show ?thesis using Container(1) [OF True wi(1) d(1) c] w True by (simp add: asked_def)
    next
      case False
      then have "unhovered s w" using Container.prems w by simp
      moreover have "agree (set (ids w)) s ?s1"
        using False check_latest_other [OF d(1) w] by (auto simp: ask_latest_def split: option.split)
      ultimately show ?thesis
        using False c w by (simp add: asked_def agree_unhovered agree_cache_ok)
    qed
    then show ?thesis unfolding asked_agree [OF a] l .
  qed
  have dis: "disjoint_at over ws" using Container.prems by (simp add: disjoint_at_def)
  show ?case
  proof (cases "over i")
    case True
    let ?s3 = "snd (check_inner over i (fst (ask_latest over i ws s)) ws ?s2)"
    have e: "snd (checkIfMouseOver over (Container i ws) s) = ?s3" using True by (simp add: Let_def)
    have "\<forall>w\<in>set ws. settled over ?s3 (latestHoveredShape ?s3 i) (inner_path over ws) w"
      using Container(2) [OF True _ dis] Container.prems(1) asked by simp
    moreover have "isHovered ?s3 i" 
      using check_result(1) [OF Container.prems(1), of over s] True unfolding e by simp
    moreover have "j \<noteq> i" if "j \<in> set (ids w)" "w \<in> set ws" for j w
      using d(2) all_ids_mem [OF that(2)] that(1) by auto
    ultimately have "exact over ?s3 (Container i ws) \<and> cache_ok ?s3 (Container i ws)"
      using True by (fastforce simp: settled_def exact_def set_all_ids)
    then show ?thesis unfolding e .
  next
    case False
    let ?s3 = "updateLatestHoveredShape i None ?s2"
    have e: "snd (checkIfMouseOver over (Container i ws) s) = ?s3" using False by (simp add: Let_def)
    have "unhovered ?s3 w \<and> cache_ok ?s3 w" if w: "w \<in> set ws" for w
    proof -
      have "agree (set (ids w)) ?s2 ?s3" using d(2) all_ids_mem [OF w] by (intro agree_update) auto
      moreover have "\<not> over (wid w)" using Container.prems(2) False w by simp
      ultimately show ?thesis
        using asked_out [OF asked [OF w]] by (simp add: agree_unhovered agree_cache_ok)
    qed
    then have "exact over ?s3 (Container i ws) \<and> cache_ok ?s3 (Container i ws)"
      using False by (auto simp: exact_def set_all_ids unhovered_def)
    then show ?thesis unfolding e .
  qed
next
  case (latest_Cons over j w ws s)
  show ?case
  proof (cases "wid w = j")
    case True
    then have "\<forall>w'\<in>set (w # ws). wid w' = j \<longrightarrow> w' = w"
      using wid_neq [of w ws] latest_Cons.prems by fastforce
    then show ?thesis using latest_Cons(1) [OF True] latest_Cons.prems True
      by (simp del: check_Container) metis
  next
    case False
    then show ?thesis using latest_Cons(2) latest_Cons.prems by (simp del: check_Container)
  qed
next
  case (inner_Nil over i d s)
  then show ?case by simp
next
  case (inner_Cons over i d w ws s)
  let ?s1 = "snd (checkIfMouseOver over w s)"
  have dw: "distinct (ids w @ all_ids ws)" "distinct (ids w)" "i \<notin> set (ids w)" "i \<notin> set (all_ids ws)"
    "distinct (i # all_ids ws)" using inner_Cons.prems(1) by auto
  have dis: "disjoint_at over ws" "laid over w" using inner_Cons.prems(2) by (auto simp: disjoint_at_def)
  have askd: "asked over s (latestHoveredShape s i) w" "\<forall>w'\<in>set ws. asked over s (latestHoveredShape s i) w'"
    using inner_Cons.prems(3) by auto
  show ?case
  proof (cases "latestHoveredShape s i = Some (wid w) \<and> isHovered s (wid w)")
    case True
    then have e: "exact over s w" "cache_ok s w" using askd(1) by (auto simp: asked_def)
    then have "over (wid w)" using True hover_path_Nil [of over w] unfolding exact_def by (metis empty_iff empty_set wid_ids)
    from loop_found [OF dw(1,3,4) inner_Cons.prems(2) this e askd(2) agree_refl] True show ?thesis by simp
  next
    case False
    have "cache_ok s w" using askd(1) by (simp add: asked_def)
    from inner_Cons(1) [OF False dw(2) dis(2) this]
    have w: "exact over ?s1 w" "cache_ok ?s1 w" by auto
    have l: "latestHoveredShape ?s1 i = latestHoveredShape s i" using frame_one(2) [OF dw(3)] .
    have a: "asked over ?s1 (latestHoveredShape s i) w'" if "w' \<in> set ws" for w'
      using asked_agree [OF check_frame(1) [OF ids_disjoint [OF dw(1) that]]] askd(2) that by blast
    have h: "isHovered ?s1 (wid w) = over (wid w)" using check_result(1) [OF dw(2)] by blast
    show ?thesis
    proof (cases "over (wid w)")
      case True
      have "agree (set (all_ids (w # ws))) ?s1 (updateLatestHoveredShape i (Some (wid w)) ?s1)"
        using dw(3,4) by (intro agree_update) simp
      then have "\<forall>v\<in>set (w # ws). settled over (updateLatestHoveredShape i (Some (wid w)) ?s1) (Some (wid w)) (inner_path over (w # ws)) v"
        using loop_found [OF dw(1,3,4) inner_Cons.prems(2) True w] a by blast
      moreover have "snd (check_inner over i d (w # ws) s) = updateLatestHoveredShape i (Some (wid w)) ?s1"
        using True h False by (auto simp add: split_beta Let_def simp del: check_Container)
      ultimately show ?thesis by simp
    next
      case nw: False
      let ?s2 = "snd (check_inner over i d ws ?s1)"
      have e: "snd (check_inner over i d (w # ws) s) = ?s2" "inner_path over (w # ws) = inner_path over ws"
        using False nw h by (auto simp add: split_beta Let_def simp del: check_Container)
      have IH: "\<forall>v\<in>set ws. settled over ?s2 (latestHoveredShape ?s2 i) (inner_path over ws) v"
        using inner_Cons(2) [OF False _ dw(5) dis(1)] h nw a l by simp
      have ag: "agree (set (ids w)) ?s1 ?s2" using check_frame(3) dw(1,3) by (simp add: Int_commute)
      have "unhovered ?s1 w" using exact_unhovered [OF w(1) nw] .
      moreover have "set (inner_path over ws) \<inter> set (ids w) = {}" using hover_path_ids(2) [of over ws] dw(1) by auto
      ultimately have "settled over ?s2 (latestHoveredShape ?s2 i) (inner_path over ws) w"
        unfolding settled_agree [OF ag] using w(2) by (intro settled_out)
      with IH show ?thesis unfolding e by simp
    qed
  qed
qed simp

text \<open>The calls of a widget's \<open>_onHoverChanged\<close> alternate, and the last one is its flag.\<close>

definition hover_calls :: "nat \<Rightarrow> hover_state \<Rightarrow> bool list" where
  "hover_calls i s = map snd (filter (\<lambda>c. fst c = i) (hoverChanged s))"

definition alternating :: "hover_state \<Rightarrow> bool" where
  "alternating s \<longleftrightarrow> (\<forall>i. isHovered s i = odd (length (hover_calls i s))
     \<and> (\<forall>k < length (hover_calls i s). hover_calls i s ! k = even k))"

lemma alternating_self: "alternating s \<Longrightarrow> alternating (check_self over i s)"
  by (auto simp: alternating_def check_self_def hover_calls_def Let_def nth_append less_Suc_eq)

lemma alternating_update [simp]: "alternating (updateLatestHoveredShape i h s) = alternating s"
  by (simp add: alternating_def hover_calls_def updateLatestHoveredShape_def)

lemma check_alternating:
  "alternating s \<Longrightarrow> alternating (snd (checkIfMouseOver over w s))"
  "alternating s \<Longrightarrow> alternating (snd (check_latest over j ws s))"
  "alternating s \<Longrightarrow> alternating (snd (check_inner over i d ws s))"
proof (induction over w s and over j ws s and over i d ws s rule: check_induct)
  case (Container over i ws s)
  then have "alternating (snd (ask_latest over i ws s))" by (auto simp: ask_latest_def split: option.split)
  then have "alternating (check_self over i (snd (ask_latest over i ws s)))" by (rule alternating_self)
  then show ?case using Container(2) by (simp add: Let_def)
qed (auto simp: alternating_self split_beta Let_def simp del: check_Container)

definition mouse_moves :: "(nat \<Rightarrow> bool) list \<Rightarrow> widget \<Rightarrow> hover_state" where
  "mouse_moves moves w = fold (\<lambda>over s. snd (checkIfMouseOver over w s)) moves hover_init"

lemma mouse_moves_inv:
  assumes "distinct (ids w)" and "\<forall>over\<in>set moves. laid over w"
  shows "cache_ok (mouse_moves moves w) w \<and> (moves \<noteq> [] \<longrightarrow> exact (last moves) (mouse_moves moves w) w)"
  using assms(2)
proof (induction moves rule: rev_induct)
  case Nil
  have "cache_ok hover_init w" by (induction w) (simp_all add: hover_init_def unhovered_def)
  then show ?case by (simp add: mouse_moves_def)
next
  case (snoc over moves)
  then show ?case using check_exact(1) [OF assms(1), of over "mouse_moves moves w"] by (simp add: mouse_moves_def)
qed

text \<open>The log of a check is the changes of the flags, in order.\<close>

definition logged :: "hover_state \<Rightarrow> hover_state \<Rightarrow> bool" where
  "logged s s' \<longleftrightarrow> (\<exists>xs. hoverChanged s' = hoverChanged s @ xs \<and> isHovered s' = fold (\<lambda>(i, h) f. f(i := h)) xs (isHovered s))"

lemma logged_refl [simp]: "logged s s"
  by (auto simp: logged_def intro: exI [of _ "[]"])

lemma logged_trans: "logged s s' \<Longrightarrow> logged s' s'' \<Longrightarrow> logged s s''"
proof -
  assume "logged s s'" "logged s' s''"
  then obtain xs ys where "hoverChanged s' = hoverChanged s @ xs" "isHovered s' = fold (\<lambda>(i, h) f. f(i := h)) xs (isHovered s)"
    "hoverChanged s'' = hoverChanged s' @ ys" "isHovered s'' = fold (\<lambda>(i, h) f. f(i := h)) ys (isHovered s')"
    by (auto simp: logged_def)
  then show "logged s s''" unfolding logged_def by (intro exI [of _ "xs @ ys"]) simp
qed

lemma logged_self: "logged s (check_self over i s)"
proof (cases "isHovered s i = over i")
  case False
  then show ?thesis by (auto simp: logged_def check_self_def Let_def intro!: exI [of _ "[(i, over i)]"])
qed (simp add: check_self_def)

lemma logged_update: "logged s s' \<Longrightarrow> logged s (updateLatestHoveredShape i h s')"
  by (simp add: logged_def updateLatestHoveredShape_def)

lemma check_logged:
  "logged s (snd (checkIfMouseOver over w s))"
  "logged s (snd (check_latest over j ws s))"
  "logged s (snd (check_inner over i d ws s))"
proof (induction over w s and over j ws s and over i d ws s rule: check_induct)
  case (Container over i ws s)
  have "logged s (snd (ask_latest over i ws s))" using Container(1) by (auto simp: ask_latest_def split: option.split)
  then have "logged s (check_self over i (snd (ask_latest over i ws s)))" using logged_self by (rule logged_trans)
  then show ?case using Container(2) by (auto simp: Let_def intro: logged_trans logged_update)
next
  case (inner_Cons over i d w ws s)
  then show ?case by (auto simp: split_beta Let_def simp del: check_Container intro: logged_trans logged_update)
qed (auto simp: logged_self logged_update simp del: check_Container)

text \<open>C25: After any number of mouse moves, the geometries changing freely between them, as long as at each
  position children lie inside their containers and do not overlap: exactly the widgets under the cursor
  are flagged as hovered, and every widget got its changes as alternating calls, the last one its flag.\<close>

theorem hover_flags_exact:
  assumes "distinct (ids w)" and "\<forall>over\<in>set moves. laid over w" and "moves \<noteq> []" and "j \<in> set (ids w)"
  shows "let s = mouse_moves moves w in
    isHovered s j = (j \<in> set (hover_path (last moves) w))
    \<and> isHovered s j = odd (length (hover_calls j s))
    \<and> (\<forall>k < length (hover_calls j s). hover_calls j s ! k = even k)"
proof -
  have "alternating hover_init" by (simp add: alternating_def hover_init_def hover_calls_def)
  then have "alternating (fold (\<lambda>over s. snd (checkIfMouseOver over w s)) moves hover_init)"
    by (rule fold_invariant [where Q = "\<lambda>_. True", rotated 1]) (simp_all add: check_alternating)
  then have "alternating (mouse_moves moves w)" by (simp add: mouse_moves_def)
  with mouse_moves_inv [OF assms(1,2)] assms(3,4) show ?thesis
    unfolding Let_def alternating_def exact_def by blast
qed

theorem hover_flags_exact_witness:
  "\<not> isHovered (mouse_moves [\<lambda>i. i \<in> {0, 1}, \<lambda>i. i \<in> {0, 2}] (Container 0 [Hoverable 1, Hoverable 2])) 1"
  using hover_flags_exact [of "Container 0 [Hoverable 1, Hoverable 2]" "[\<lambda>i. i \<in> {0, 1}, \<lambda>i. i \<in> {0, 2}]" 1]
  by (simp add: Let_def)

text \<open>Where siblings overlap a widget can stay flagged as hovered after the mouse has left it and its
  container: the second of two overlapping children is found first, then the first takes its place as
  the child to ask, and when the cursor leaves the container nobody asks the second.\<close>

theorem hover_stale_on_overlap:
  "let w = Container 0 [Container 1 [Hoverable 2, Hoverable 3]];
       s = mouse_moves [\<lambda>i. i \<in> {0, 1, 3}, \<lambda>i. i \<in> {0, 1, 2, 3}, \<lambda>i. i = 0] w
   in isHovered s 3 \<and> \<not> isHovered s 2 \<and> \<not> isHovered s 1 \<and> hover_calls 3 s = [True]"
  by (simp add: mouse_moves_def hover_init_def hover_calls_def ask_latest_def check_self_def
      updateLatestHoveredShape_def Let_def)

section \<open>Matrices and the window\<close>

text \<open>\<open>upd i m\<close> is the matrix widget \<open>i\<close> answers to \<open>_matrixUpdateRequested\<close>; the result lists the
  calls, in order.\<close>

fun propagateMatrixChanges :: "(nat \<Rightarrow> 'm \<Rightarrow> 'm) \<Rightarrow> 'm \<Rightarrow> widget \<Rightarrow> (nat \<times> 'm) list" where
  "propagateMatrixChanges upd matrix (Hoverable i) = [(i, matrix)]"
| "propagateMatrixChanges upd matrix (Container i ws) =
     (i, matrix) # concat (map (propagateMatrixChanges upd (upd i matrix)) ws)"

text \<open>\<open>avail i r\<close>: what widget \<open>i\<close> makes of the space it is offered, its shape and the space left, which
  its later siblings are offered.\<close>

fun onViewportChange :: "(nat \<Rightarrow> 'r \<Rightarrow> 'r \<times> 'r) \<Rightarrow> widget \<Rightarrow> 'r \<Rightarrow> (nat \<times> 'r) list \<times> 'r"
  and viewport_inner :: "(nat \<Rightarrow> 'r \<Rightarrow> 'r \<times> 'r) \<Rightarrow> widget list \<Rightarrow> 'r \<Rightarrow> (nat \<times> 'r) list \<times> 'r" where
  "onViewportChange avail (Hoverable i) space = ([(i, space)], snd (avail i space))"
| "onViewportChange avail (Container i ws) space =
     (let (shape, left) = avail i space;
          (calls, _) = viewport_inner avail ws shape
      in ((i, space) # calls, left))"
| "viewport_inner avail [] shape = ([], shape)"
| "viewport_inner avail (w # ws) shape =
     (let (calls, shape) = onViewportChange avail w shape;
          (calls', shape) = viewport_inner avail ws shape
      in (calls @ calls', shape))"

lemma propagate_ids: "map fst (propagateMatrixChanges upd m w) = ids w"
proof (induction w arbitrary: m)
  case (Container i ws)
  have "concat (map (map fst \<circ> propagateMatrixChanges upd m') ws) = all_ids ws" for m'
    using Container by (induction ws) auto
  then show ?case by (simp add: map_concat)
qed simp

lemma viewport_ids:
  "map fst (fst (onViewportChange avail w r)) = ids w"
  "map fst (fst (viewport_inner avail ws r)) = all_ids ws"
  by (induction w and ws arbitrary: r and r rule: ids_all_ids.induct) (auto simp: split_beta Let_def)

text \<open>The ancestors of a widget, the innermost first.\<close>

fun ancestors :: "nat \<Rightarrow> widget \<Rightarrow> nat list option" and inner_ancestors :: "nat \<Rightarrow> widget list \<Rightarrow> nat list option" where
  "ancestors j (Hoverable i) = (if i = j then Some [] else None)"
| "ancestors j (Container i ws) =
     (if i = j then Some [] else map_option (\<lambda>as. as @ [i]) (inner_ancestors j ws))"
| "inner_ancestors j [] = None"
| "inner_ancestors j (w # ws) = (case ancestors j w of Some as \<Rightarrow> Some as | None \<Rightarrow> inner_ancestors j ws)"

lemma ancestors_None:
  "ancestors j w = None \<longleftrightarrow> j \<notin> set (ids w)"
  "inner_ancestors j ws = None \<longleftrightarrow> j \<notin> set (all_ids ws)"
  by (induction j w and j ws rule: ancestors_inner_ancestors.induct) (auto split: option.splits)

lemma propagate_mem: "(k, x) \<in> set (propagateMatrixChanges upd m w) \<Longrightarrow> k \<in> set (ids w)"
  by (metis fst_conv image_eqI list.set_map propagate_ids)

lemma propagate_matrix:
  assumes "distinct (ids w)" and "(j, m') \<in> set (propagateMatrixChanges upd m w)"
  shows "\<exists>as. ancestors j w = Some as \<and> m' = foldr upd as m"
  using assms
proof (induction w arbitrary: m)
  case (Container i ws)
  show ?case
  proof (cases "j = i")
    case True
    have "i \<noteq> k" if "(k, x) \<in> set (propagateMatrixChanges upd (upd i m) w)" "w \<in> set ws" for k x w
      using propagate_mem [OF that(1)] Container.prems(1) all_ids_mem [OF that(2)] by auto
    then show ?thesis using Container.prems(2) True by auto
  next
    case False
    then obtain w where w: "w \<in> set ws" "(j, m') \<in> set (propagateMatrixChanges upd (upd i m) w)"
      using Container.prems(2) by auto
    have dw: "distinct (all_ids ws)" using Container.prems(1) by simp
    have "\<exists>as. inner_ancestors j ws = Some as \<and> m' = foldr upd as (upd i m)"
      using w dw Container.IH
    proof (induction ws)
      case (Cons v ws)
      show ?case
      proof (cases "w = v")
        case True
        have "distinct (ids v)" using Cons.prems(3) by simp
        then obtain as where "ancestors j v = Some as \<and> m' = foldr upd as (upd i m)"
          using Cons.prems(4) [of v "upd i m"] Cons.prems(2) True by auto
        then show ?thesis by simp
      next
        case wv: False
        with Cons.prems have "w \<in> set ws" by simp
        moreover have "j \<in> set (ids w)" using propagate_mem [OF Cons.prems(2)] .
        ultimately have "j \<notin> set (ids v)" using Cons.prems(3) all_ids_mem [of w ws] by auto
        then have "ancestors j v = None" using ancestors_None(1) by blast
        moreover have "distinct (all_ids ws)" using Cons.prems(3) by simp
        ultimately show ?thesis using Cons.IH [OF \<open>w \<in> set ws\<close> Cons.prems(2) _ Cons.prems(4)] by simp
      qed
    qed simp
    then show ?thesis using False by auto
  qed
qed simp

text \<open>A change of matrix and a change of the window each reach every widget of the tree exactly once,
  parents before children, siblings in the order they were added; and every widget is given the matrix
  as its ancestors changed it, the outermost first.\<close>

theorem changes_reach_every_widget:
  assumes "distinct (ids w)"
  shows "map fst (propagateMatrixChanges upd m w) = ids w
    \<and> map fst (fst (onViewportChange avail w r)) = ids w
    \<and> (\<forall>(j, m') \<in> set (propagateMatrixChanges upd m w). \<exists>as. ancestors j w = Some as \<and> m' = foldr upd as m)"
  using propagate_ids viewport_ids(1) propagate_matrix [OF assms] by auto

theorem changes_reach_every_widget_witness:
  "map fst (fst (onViewportChange (\<lambda>i r. (r - 1, r - 2)) (Container 0 [Container 1 [Hoverable 2], Hoverable 3]) (9 :: int))) = [0, 1, 2, 3]"
  using changes_reach_every_widget [of "Container 0 [Container 1 [Hoverable 2], Hoverable 3]" "\<lambda>i m. m + int i" 0
      "\<lambda>i r. (r - 1, r - 2)" 9]
  by simp

end
