(* ===== verification/EventRouting.thy ===== *)
theory EventRouting
  imports Hover MouseNav
begin

text \<open>
  \<open>src/app/widgets/base/AppContainer.hpp\<close>, \<open>EventHandlers.hpp\<close> and \<open>Toggleable.hpp\<close>: which widget gets
  which event. The widgets form the tree of theory \<open>Hover\<close>; what the handlers of the widgets do is the
  argument \<open>handlers\<close>, over a state \<open>'s\<close> of their own: \<open>handlers k i\<close> is \<open>None\<close> when the
  \<open>dynamic_cast\<close> of widget \<open>i\<close> to the handler class \<open>k\<close> fails. A handler gets the event and the mouse
  state all handlers share.
\<close>

datatype event_handler = Scroll_EH | MousePress_EH | MouseRelease_EH | MouseMove_EH

datatype mouse_button = LeftButton | RightButton | OtherButton

type_synonym ('e, 's) handlers = "event_handler \<Rightarrow> nat \<Rightarrow> ('e \<Rightarrow> mouse_state \<Rightarrow> 's \<Rightarrow> 's) option"

record app_container =
  hoverState :: hover_state
  deepestHoveredShape :: "nat option"
  lockContext :: "nat option"
  mouseState :: mouse_state

definition app_container_init :: app_container where
  "app_container_init = \<lparr>hoverState = hover_init, deepestHoveredShape = None, lockContext = None, mouseState = mouse_init\<rparr>"

section \<open>Routing\<close>

definition tryHandleEvent :: "('e, 's) handlers \<Rightarrow> event_handler \<Rightarrow> nat option \<Rightarrow> 'e \<Rightarrow> mouse_state \<Rightarrow> 's \<Rightarrow> bool \<times> 's" where
  "tryHandleEvent handlers k target event m s = (case target of
       None \<Rightarrow> (False, s)
     | Some i \<Rightarrow> (case handlers k i of
          None \<Rightarrow> (False, s)
        | Some h \<Rightarrow> (True, h event m s)))"

lemma nobody [simp]: "tryHandleEvent handlers k None event m s = (False, s)"
  by (simp add: tryHandleEvent_def)

text \<open>The walk up the parents; \<open>None\<close> is a walk that does not end.\<close>

partial_function (option) propagateEvent :: "('e, 's) handlers \<Rightarrow> (nat \<Rightarrow> nat option) \<Rightarrow> event_handler \<Rightarrow>
    nat option \<Rightarrow> 'e \<Rightarrow> mouse_state \<Rightarrow> 's \<Rightarrow> 's option" where
  "propagateEvent handlers parent k target event m s = (case target of
       None \<Rightarrow> Some s
     | Some i \<Rightarrow>
         if fst (tryHandleEvent handlers k target event m s) then Some (snd (tryHandleEvent handlers k target event m s))
         else propagateEvent handlers parent k (parent i) event m s)"

text \<open>\<open>_parent\<close>, as \<open>_pushContaining\<close> set it.\<close>

definition parent :: "widget \<Rightarrow> nat \<Rightarrow> nat option" where
  "parent w j = (case ancestors j w of Some (p # _) \<Rightarrow> Some p | _ \<Rightarrow> None)"

definition traverseForHovered :: "widget \<Rightarrow> (nat \<Rightarrow> bool) \<Rightarrow> app_container \<Rightarrow> app_container" where
  "traverseForHovered w over a =
     (let (deepHovered, h) = checkIfMouseOver over w (hoverState a);
          a = a\<lparr>hoverState := h\<rparr>
      in if deepestHoveredShape a \<noteq> deepHovered then a\<lparr>deepestHoveredShape := deepHovered\<rparr> else a)"

definition propagateScrollEvent :: "('e, 's) handlers \<Rightarrow> widget \<Rightarrow> 'e \<Rightarrow> app_container \<times> 's \<Rightarrow> (app_container \<times> 's) option" where
  "propagateScrollEvent handlers w event = (\<lambda>(a, s).
     map_option (Pair a) (propagateEvent handlers (parent w) Scroll_EH (deepestHoveredShape a) event (mouseState a) s))"

definition pressed :: "mouse_button \<Rightarrow> int \<Rightarrow> mouse_state \<Rightarrow> mouse_state" where
  "pressed b now m = (case b of LeftButton \<Rightarrow> leftPressed now m | RightButton \<Rightarrow> rightPressed m | _ \<Rightarrow> m)"

definition released :: "mouse_button \<Rightarrow> mouse_state \<Rightarrow> mouse_state" where
  "released b m = (case b of LeftButton \<Rightarrow> leftReleased m | RightButton \<Rightarrow> rightReleased m | _ \<Rightarrow> m)"

definition propagateMousePressEvent :: "('e, 's) handlers \<Rightarrow> mouse_button \<Rightarrow> int \<Rightarrow> 'e \<Rightarrow>
    app_container \<times> 's \<Rightarrow> app_container \<times> 's" where
  "propagateMousePressEvent handlers b now event = (\<lambda>(a, s).
     let a = a\<lparr>mouseState := pressed b now (mouseState a)\<rparr>;
         a = a\<lparr>lockContext := deepestHoveredShape a\<rparr>
     in (a, snd (tryHandleEvent handlers MousePress_EH (lockContext a) event (mouseState a) s)))"

definition propagateMouseMoveEvent :: "('e, 's) handlers \<Rightarrow> widget \<Rightarrow> (nat \<Rightarrow> bool) \<Rightarrow> 'e \<Rightarrow>
    app_container \<times> 's \<Rightarrow> app_container \<times> 's" where
  "propagateMouseMoveEvent handlers w over event = (\<lambda>(a, s).
     let a = traverseForHovered w over a;
         a = a\<lparr>mouseState := mayBeDragging (mouseState a)\<rparr>
     in (a, snd (tryHandleEvent handlers MouseMove_EH (lockContext a) event (mouseState a) s)))"

definition propagateMouseReleaseEvent :: "('e, 's) handlers \<Rightarrow> mouse_button \<Rightarrow> 'e \<Rightarrow>
    app_container \<times> 's \<Rightarrow> app_container \<times> 's" where
  "propagateMouseReleaseEvent handlers b event = (\<lambda>(a, s).
     let s = snd (tryHandleEvent handlers MouseRelease_EH (lockContext a) event (mouseState a) s);
         a = a\<lparr>mouseState := released b (mouseState a)\<rparr>
     in (a\<lparr>lockContext := None\<rparr>, s))"

datatype 'e input = MoveTo "nat \<Rightarrow> bool" 'e | Press mouse_button int 'e | Release mouse_button 'e | ScrollBy 'e

fun app_step :: "('e, 's) handlers \<Rightarrow> widget \<Rightarrow> 'e input \<Rightarrow> app_container \<times> 's \<Rightarrow> (app_container \<times> 's) option" where
  "app_step handlers w (MoveTo over e) x = Some (propagateMouseMoveEvent handlers w over e x)"
| "app_step handlers w (Press b now e) x = Some (propagateMousePressEvent handlers b now e x)"
| "app_step handlers w (Release b e) x = Some (propagateMouseReleaseEvent handlers b e x)"
| "app_step handlers w (ScrollBy e) x = propagateScrollEvent handlers w e x"

fun app_run :: "('e, 's) handlers \<Rightarrow> widget \<Rightarrow> 'e input list \<Rightarrow> app_container \<times> 's \<Rightarrow> (app_container \<times> 's) option" where
  "app_run handlers w [] x = Some x"
| "app_run handlers w (ev # evs) x = Option.bind (app_step handlers w ev x) (app_run handlers w evs)"

lemma bind_run_Nil [simp]: "Option.bind x (app_run handlers w []) = x"
  by (cases x) simp_all

lemma app_run_append:
  "app_run handlers w (xs @ ys) x = Option.bind (app_run handlers w xs x) (app_run handlers w ys)"
  by (induction xs arbitrary: x) (auto simp: Option.bind_eq_Some_conv split: Option.bind_splits)

section \<open>Scrolling\<close>

text \<open>The parent of a widget has the rest of its ancestors.\<close>

lemma ancestors_rest:
  "distinct (ids w) \<Longrightarrow> ancestors j w = Some (p # as) \<Longrightarrow> ancestors p w = Some as"
  "distinct (i # all_ids ws) \<Longrightarrow> inner_ancestors j ws = Some as' \<Longrightarrow> as' @ [i] = p # as \<Longrightarrow>
     p = i \<and> as = [] \<or> (\<exists>bs. as = bs @ [i] \<and> inner_ancestors p ws = Some bs \<and> p \<in> set (all_ids ws))"
proof (induction j w and j ws arbitrary: p as and i p as as' rule: ancestors_inner_ancestors.induct)
  case (2 j i ws)
  then show ?case by (cases "i = j") (fastforce split: if_splits)+
next
  case (4 j w ws)
  have d: "distinct (ids w)" "distinct (i # all_ids ws)" "set (ids w) \<inter> set (all_ids ws) = {}" using 4(3) by auto
  show ?case
  proof (cases "ancestors j w")
    case None
    with 4(4) have "inner_ancestors j ws = Some as'" by simp
    from 4(2) [OF None d(2) this 4(5)]
    show ?thesis
      using d(3) ancestors_None(1) [of p w] by auto
  next
    case (Some bs)
    with 4(4) have as': "as' = bs" by simp
    show ?thesis
    proof (cases bs)
      case Nil
      then show ?thesis using 4(5) as' by simp
    next
      case (Cons q qs)
      have "ancestors q w = Some qs" using 4(1) [OF d(1)] Some Cons by simp
      moreover from this have "q \<in> set (ids w)" using ancestors_None(1) [of q w] by auto
      ultimately show ?thesis using 4(5) as' Cons by simp
    qed
  qed
qed (auto split: if_splits)

lemma propagate_ancestors:
  assumes "distinct (ids w)" and "ancestors j w = Some as"
  shows "propagateEvent handlers (parent w) k (Some j) event m s =
    Some (case List.find (\<lambda>i. handlers k i \<noteq> None) (j # as) of
            None \<Rightarrow> s | Some i \<Rightarrow> the (handlers k i) event m s)"
  using assms(2)
proof (induction as arbitrary: j)
  case Nil
  then show ?case
    by (subst propagateEvent.simps, subst propagateEvent.simps) (auto simp: tryHandleEvent_def parent_def split: option.splits)
next
  case (Cons p as)
  have "ancestors p w = Some as" using ancestors_rest(1) [OF assms(1) Cons.prems] .
  moreover have "parent w j = Some p" using Cons.prems by (simp add: parent_def)
  ultimately show ?case using Cons.IH [of p]
    by (subst propagateEvent.simps) (auto simp: tryHandleEvent_def split: option.splits)
qed

text \<open>What was found deepest last is a widget of the tree.\<close>

definition pointers_ok :: "widget \<Rightarrow> app_container \<Rightarrow> bool" where
  "pointers_ok w a \<longleftrightarrow> (\<forall>j. deepestHoveredShape a = Some j \<longrightarrow> j \<in> set (ids w))"

lemma deepest_ids: "deepest (hover_path over w) = Some j \<Longrightarrow> j \<in> set (ids w)"
  using hover_path_ids(1) [of over w] last_in_set [of "hover_path over w"] by (auto simp: deepest_def split: if_splits)

lemma traverse_sel:
  assumes "distinct (ids w)"
  shows "deepestHoveredShape (traverseForHovered w over a) = deepest (hover_path over w)"
    and "lockContext (traverseForHovered w over a) = lockContext a"
    and "mouseState (traverseForHovered w over a) = mouseState a"
  using check_result(1) [OF assms, of over "hoverState a"]
  by (auto simp: traverseForHovered_def split_beta Let_def)

lemma traverse_logged:
  "hoverChanged (hoverState (traverseForHovered w over a)) =
     hoverChanged (hoverState a) @ drop (length (hoverChanged (hoverState a))) (hoverChanged (hoverState (traverseForHovered w over a)))
   \<and> isHovered (hoverState (traverseForHovered w over a)) =
     fold (\<lambda>(i, h) f. f(i := h)) (drop (length (hoverChanged (hoverState a))) (hoverChanged (hoverState (traverseForHovered w over a))))
       (isHovered (hoverState a))"
proof -
  have "hoverState (traverseForHovered w over a) = snd (checkIfMouseOver over w (hoverState a))"
    by (simp add: traverseForHovered_def split_beta Let_def)
  then show ?thesis using check_logged(1) [of "hoverState a" over w] by (auto simp: logged_def)
qed

lemma scroll_result:
  assumes "distinct (ids w)" and "pointers_ok w a"
  shows "propagateScrollEvent handlers w e (a, s) = Some (a, case deepestHoveredShape a of
      None \<Rightarrow> s
    | Some j \<Rightarrow> (case List.find (\<lambda>i. handlers Scroll_EH i \<noteq> None) (j # the (ancestors j w)) of
        None \<Rightarrow> s | Some i \<Rightarrow> the (handlers Scroll_EH i) e (mouseState a) s))"
proof (cases "deepestHoveredShape a")
  case None
  then show ?thesis by (simp add: propagateScrollEvent_def) (subst propagateEvent.simps, simp)
next
  case (Some j)
  then obtain as where "ancestors j w = Some as"
    using assms(2) ancestors_None(1) [of j w] by (auto simp: pointers_ok_def)
  from propagate_ancestors [OF assms(1) this, where handlers = handlers] Some this show ?thesis by (simp add: propagateScrollEvent_def)
qed

lemma app_run_total:
  assumes "distinct (ids w)" and "pointers_ok w a"
  shows "\<exists>a' s'. app_run handlers w evs (a, s) = Some (a', s') \<and> pointers_ok w a'"
  using assms(2)
proof (induction evs arbitrary: a s)
  case (Cons ev evs)
  have "\<exists>a' s'. app_step handlers w ev (a, s) = Some (a', s') \<and> pointers_ok w a'"
  proof (cases ev)
    case (MoveTo over e)
    then show ?thesis
      using traverse_sel(1) [OF assms(1)] deepest_ids
      by (auto simp: propagateMouseMoveEvent_def pointers_ok_def Let_def)
  next
    case (ScrollBy e)
    then show ?thesis using scroll_result [OF assms(1) Cons.prems, where handlers = handlers] Cons.prems by simp
  qed (use Cons.prems in \<open>auto simp: propagateMousePressEvent_def propagateMouseReleaseEvent_def pointers_ok_def Let_def\<close>)
  then show ?case using Cons.IH by fastforce
qed simp

text \<open>C26: After any events every scroll is routed in finitely many steps, and after a mouse move it goes to
  the innermost widget under the cursor that handles scrolls, or to nobody when neither it nor any of
  its ancestors does.\<close>

theorem scroll_goes_to_nearest_handler:
  assumes "distinct (ids w)"
  shows "\<exists>a m s'. app_run handlers w (evs @ [MoveTo over e, ScrollBy e']) (app_container_init, s) =
    Some (a, case deepest (hover_path over w) of
      None \<Rightarrow> s'
    | Some j \<Rightarrow> (case List.find (\<lambda>i. handlers Scroll_EH i \<noteq> None) (j # the (ancestors j w)) of
        None \<Rightarrow> s' | Some i \<Rightarrow> the (handlers Scroll_EH i) e' m s'))"
proof -
  have "pointers_ok w app_container_init" by (simp add: pointers_ok_def app_container_init_def)
  then obtain a s1 where r: "app_run handlers w (evs @ [MoveTo over e]) (app_container_init, s) = Some (a, s1)"
      "pointers_ok w a"
    using app_run_total [OF assms] by metis
  have "deepestHoveredShape a = deepest (hover_path over w)"
    using r(1) traverse_sel(1) [OF assms]
    by (auto simp: app_run_append propagateMouseMoveEvent_def Let_def Option.bind_eq_Some_conv)
  moreover have "app_run handlers w (evs @ [MoveTo over e, ScrollBy e']) (app_container_init, s) =
      propagateScrollEvent handlers w e' (a, s1)"
    using r(1) app_run_append [of handlers w "evs @ [MoveTo over e]" "[ScrollBy e']"] by simp
  ultimately have "app_run handlers w (evs @ [MoveTo over e, ScrollBy e']) (app_container_init, s) =
    Some (a, case deepest (hover_path over w) of
      None \<Rightarrow> s1
    | Some j \<Rightarrow> (case List.find (\<lambda>i. handlers Scroll_EH i \<noteq> None) (j # the (ancestors j w)) of
        None \<Rightarrow> s1 | Some i \<Rightarrow> the (handlers Scroll_EH i) e' (mouseState a) s1))"
    by (simp only: scroll_result [OF assms r(2)])
  then show ?thesis by (intro exI)
qed

theorem scroll_goes_to_nearest_handler_witness:
  "\<exists>a. app_run (\<lambda>k i. if k = Scroll_EH \<and> i = 1 then Some (\<lambda>e m s. e) else None)
     (Container 0 [Container 1 [Hoverable 2], Hoverable 3]) [MoveTo (\<lambda>i. i < 3) 4, ScrollBy 5]
     (app_container_init, 0 :: int) = Some (a, 5)"
proof -
  let ?h = "\<lambda>k i. if k = Scroll_EH \<and> i = 1 then Some (\<lambda>(e :: int) (m :: mouse_state) (s :: int). e) else None"
  let ?w = "Container 0 [Container 1 [Hoverable 2], Hoverable 3]"
  have d: "distinct (ids ?w)" and p: "deepest (hover_path (\<lambda>i. i < 3) ?w) = Some 2" by (simp_all add: deepest_def)
  have f: "List.find (\<lambda>i. ?h Scroll_EH i \<noteq> None) (2 # the (ancestors 2 ?w)) = Some 1" by simp
  have h: "the (?h Scroll_EH 1) 5 m s' = 5" for m s' by simp
  from scroll_goes_to_nearest_handler [OF d, of ?h "[]" "\<lambda>i. i < 3" 4 5 0] show ?thesis
    unfolding p option.case f h append_Nil by blast
qed

section \<open>Presses, moves and releases\<close>

definition give :: "('e, 's) handlers \<Rightarrow> nat option \<Rightarrow> (event_handler \<times> 'e \<times> mouse_state) list \<Rightarrow> 's \<Rightarrow> 's" where
  "give handlers target calls s = fold (\<lambda>(k, e, m) s. snd (tryHandleEvent handlers k target e m s)) calls s"

lemma give_append: "give handlers t (xs @ ys) s = give handlers t ys (give handlers t xs s)"
  by (simp add: give_def)

lemma moves_run:
  assumes "distinct (ids w)"
  shows "\<exists>a'. app_run handlers w (map (\<lambda>(over, e). MoveTo over e) moves) (a, s) =
      Some (a', give handlers (lockContext a) (map (\<lambda>(over, e). (MouseMove_EH, e, mayBeDragging (mouseState a))) moves) s)
    \<and> lockContext a' = lockContext a
    \<and> mouseState a' = (if moves = [] then mouseState a else mayBeDragging (mouseState a))"
proof (induction moves arbitrary: a s)
  case (Cons mv moves)
  obtain over e where mv: "mv = (over, e)" by (cases mv)
  have idem: "mayBeDragging (mayBeDragging m) = mayBeDragging m" for m by (simp add: mayBeDragging_def)
  let ?a = "(traverseForHovered w over a)\<lparr>mouseState := mayBeDragging (mouseState a)\<rparr>"
  let ?s = "snd (tryHandleEvent handlers MouseMove_EH (lockContext a) e (mayBeDragging (mouseState a)) s)"
  have "app_run handlers w (map (\<lambda>(over, e). MoveTo over e) (mv # moves)) (a, s) =
      app_run handlers w (map (\<lambda>(over, e). MoveTo over e) moves) (?a, ?s)"
    by (simp add: mv propagateMouseMoveEvent_def traverse_sel [OF assms] Let_def)
  with Cons.IH [of ?a ?s] show ?case
    by (auto simp: mv traverse_sel [OF assms] idem give_def)
qed (simp add: give_def)

lemma gesture_run:
  fixes now :: int and b :: mouse_button
  assumes "distinct (ids w)" and "lockContext a = None"
    and m1: "m1 = pressed b now (mayBeDragging (mouseState a))"
  shows "\<exists>a'. app_run handlers w
      ([MoveTo over e0, Press b now e1] @ map (\<lambda>(over, e). MoveTo over e) moves @ [Release b e2]) (a, s) =
    Some (a', give handlers (deepest (hover_path over w))
      ([(MousePress_EH, e1, m1)] @ map (\<lambda>(over, e). (MouseMove_EH, e, mayBeDragging m1)) moves
       @ [(MouseRelease_EH, e2, if moves = [] then m1 else mayBeDragging m1)]) s)
    \<and> lockContext a' = None
    \<and> mouseState a' = released b (if moves = [] then m1 else mayBeDragging m1)"
proof -
  let ?t = "deepest (hover_path over w)"
  let ?a = "(traverseForHovered w over a)\<lparr>mouseState := m1, lockContext := ?t\<rparr>"
  let ?s = "give handlers ?t [(MousePress_EH, e1, m1)] s"
  let ?m2 = "if moves = [] then m1 else mayBeDragging m1"
  have 1: "app_run handlers w [MoveTo over e0, Press b now e1] (a, s) = Some (?a, ?s)"
    by (simp add: propagateMouseMoveEvent_def propagateMousePressEvent_def traverse_sel [OF assms(1)] assms(2)
        m1 give_def Let_def)
  let ?moves = "map (\<lambda>(over, e). MoveTo over e) moves"
  let ?s' = "give handlers ?t (map (\<lambda>(over, e). (MouseMove_EH, e, mayBeDragging m1)) moves) ?s"
  obtain a' where 2: "app_run handlers w ?moves (?a, ?s) = Some (a', ?s')" "lockContext a' = ?t" "mouseState a' = ?m2"
    using moves_run [OF assms(1), where handlers = handlers and moves = moves and a = ?a and s = ?s] by auto
  have "app_run handlers w ([MoveTo over e0, Press b now e1] @ ?moves @ [Release b e2]) (a, s) =
      Some (propagateMouseReleaseEvent handlers b e2 (a', ?s'))"
    unfolding app_run_append 1 using 2(1) by simp
  with 2(2,3) show ?thesis
    by (auto simp: propagateMouseReleaseEvent_def give_append Let_def) (simp_all add: give_def)
qed

text \<open>C27: A press, any moves and the release of that button are all given to the widget that was innermost
  under the cursor when the button went down, wherever the cursor goes, to nobody else, and each at most
  once; the press sees the mouse state after the press, the moves one that may be dragging, the release
  the one before it is cleared. Afterwards no widget is locked.\<close>

theorem gesture_stays_with_pressed_widget:
  fixes now :: int and b :: mouse_button
  assumes "distinct (ids w)" and "lockContext a = None"
    and m1: "m1 = pressed b now (mayBeDragging (mouseState a))"
  shows "\<exists>a'. app_run handlers w
      ([MoveTo over e0, Press b now e1] @ map (\<lambda>(over, e). MoveTo over e) moves @ [Release b e2]) (a, s) =
    Some (a', give handlers (deepest (hover_path over w))
      ([(MousePress_EH, e1, m1)] @ map (\<lambda>(over, e). (MouseMove_EH, e, mayBeDragging m1)) moves
       @ [(MouseRelease_EH, e2, if moves = [] then m1 else mayBeDragging m1)]) s)
    \<and> lockContext a' = None
    \<and> mouseState a' = released b (if moves = [] then m1 else mayBeDragging m1)"
  using assms by (rule gesture_run)

lemma press_run:
  assumes "distinct (ids w)"
  shows "app_run handlers w [MoveTo over e0, Press b now e1] (a, s) =
    Some ((traverseForHovered w over a)\<lparr>mouseState := pressed b now (mayBeDragging (mouseState a)),
            lockContext := deepest (hover_path over w)\<rparr>,
          give handlers (deepest (hover_path over w)) [(MousePress_EH, e1, pressed b now (mayBeDragging (mouseState a)))]
            (give handlers (lockContext a) [(MouseMove_EH, e0, mayBeDragging (mouseState a))] s))"
  by (simp add: propagateMouseMoveEvent_def propagateMousePressEvent_def traverse_sel [OF assms] give_def Let_def)

lemma exI4: "P a' m1 m2 m3 m4 \<Longrightarrow> \<exists>a' m1 m2 m3 m4. P a' m1 m2 m3 m4"
  by blast

text \<open>C28: A second button pressed while the first is down takes the lock with it: with a move in between, the
  release of the first button is given to the widget the second was pressed on, and the release of the
  second to nobody, so the widget pressed first never sees its release.\<close>

theorem second_button_takes_lock:
  assumes "distinct (ids w)" and "lockContext a = None"
  shows "\<exists>a' m1 m2 m3 m4. app_run handlers w [MoveTo over e0, Press b now e1, MoveTo over' e2, Press b' now' e3,
      Release b e4, Release b' e5] (a, s) =
    Some (a', give handlers (deepest (hover_path over' w)) [(MousePress_EH, e3, m3), (MouseRelease_EH, e4, m4)]
      (give handlers (deepest (hover_path over w)) [(MousePress_EH, e1, m1), (MouseMove_EH, e2, m2)] s))
    \<and> lockContext a' = None"
proof -
  let ?m1 = "pressed b now (mayBeDragging (mouseState a))"
  let ?a1 = "(traverseForHovered w over a)\<lparr>mouseState := ?m1, lockContext := deepest (hover_path over w)\<rparr>"
  let ?m3 = "pressed b' now' (mayBeDragging ?m1)"
  let ?a2 = "(traverseForHovered w over' ?a1)\<lparr>mouseState := ?m3, lockContext := deepest (hover_path over' w)\<rparr>"
  let ?s1 = "give handlers (deepest (hover_path over w)) [(MousePress_EH, e1, ?m1)] s"
  let ?s2 = "give handlers (deepest (hover_path over' w)) [(MousePress_EH, e3, ?m3)]
      (give handlers (deepest (hover_path over w)) [(MouseMove_EH, e2, mayBeDragging ?m1)] ?s1)"
  have 1: "app_run handlers w [MoveTo over e0, Press b now e1] (a, s) = Some (?a1, ?s1)"
    using press_run [OF assms(1), where handlers = handlers and over = over and ?e0.0 = e0 and b = b and now = now and ?e1.0 = e1 and a = a and s = s]
      assms(2) by (simp add: give_def)
  have 2: "app_run handlers w [MoveTo over' e2, Press b' now' e3] (?a1, ?s1) = Some (?a2, ?s2)"
    using press_run [OF assms(1), where handlers = handlers and over = over' and ?e0.0 = e2 and b = b' and now = now' and ?e1.0 = e3 and a = ?a1 and s = ?s1]
    by simp
  have "app_run handlers w [MoveTo over e0, Press b now e1, MoveTo over' e2, Press b' now' e3, Release b e4, Release b' e5] (a, s) =
      app_run handlers w [Release b e4, Release b' e5] (?a2, ?s2)"
    using app_run_append [of handlers w "[MoveTo over e0, Press b now e1]" "[MoveTo over' e2, Press b' now' e3] @ [Release b e4, Release b' e5]" "(a, s)"]
      1 2 app_run_append [of handlers w "[MoveTo over' e2, Press b' now' e3]" "[Release b e4, Release b' e5]" "(?a1, ?s1)"]
    by (simp del: app_run.simps)
  also have "\<dots> = Some (?a2\<lparr>mouseState := released b' (released b ?m3), lockContext := None\<rparr>,
      give handlers (deepest (hover_path over' w)) [(MouseRelease_EH, e4, ?m3)] ?s2)"
    by (simp add: propagateMouseReleaseEvent_def give_def Let_def)
  also have "give handlers (deepest (hover_path over' w)) [(MouseRelease_EH, e4, ?m3)] ?s2 =
      give handlers (deepest (hover_path over' w)) [(MousePress_EH, e3, ?m3), (MouseRelease_EH, e4, ?m3)]
        (give handlers (deepest (hover_path over w)) [(MousePress_EH, e1, ?m1), (MouseMove_EH, e2, mayBeDragging ?m1)] s)"
    by (simp add: give_def)
  finally show ?thesis by - (rule exI4, rule conjI, assumption, simp)
qed

section \<open>Buttons\<close>

text \<open>\<open>Toggleable\<close> and \<open>Button\<close>; the calls of the callback, when one is set, are recorded.\<close>

record button_state =
  toggled :: bool
  preToggling :: bool
  toggleCb :: bool
  toggleCalls :: "bool list"

definition button_init :: button_state where
  "button_init = \<lparr>toggled = False, preToggling = False, toggleCb = False, toggleCalls = []\<rparr>"

definition setToogleCallback :: "button_state \<Rightarrow> button_state" where
  "setToogleCallback b = b\<lparr>toggleCb := True\<rparr>"

definition onToggled :: "bool \<Rightarrow> button_state \<Rightarrow> button_state" where
  "onToggled isToggled b = (if toggleCb b then b\<lparr>toggleCalls := toggleCalls b @ [isToggled]\<rparr> else b)"

definition toggle :: "button_state \<Rightarrow> button_state" where
  "toggle b = (let b = b\<lparr>toggled := \<not> toggled b\<rparr> in onToggled (toggled b) b)"

definition button_handlePressEvent :: "button_state \<Rightarrow> button_state" where
  "button_handlePressEvent b = b\<lparr>preToggling := True\<rparr>"

definition button_handleLockReleaseEvent :: "button_state \<Rightarrow> button_state" where
  "button_handleLockReleaseEvent b = (let b = b\<lparr>preToggling := False\<rparr> in toggle b)"

text \<open>A tree in which the widgets \<open>i\<close> with \<open>is_button i\<close> are buttons.\<close>

definition button_handlers :: "(nat \<Rightarrow> bool) \<Rightarrow> ('e, nat \<Rightarrow> button_state) handlers" where
  "button_handlers is_button k i = (if is_button i then (case k of
       MousePress_EH \<Rightarrow> Some (\<lambda>_ _ bs. bs(i := button_handlePressEvent (bs i)))
     | MouseRelease_EH \<Rightarrow> Some (\<lambda>_ _ bs. bs(i := button_handleLockReleaseEvent (bs i)))
     | _ \<Rightarrow> None) else None)"

text \<open>A click: where the button goes down, which and when, and the positions of the cursor until it is up.\<close>

type_synonym click = "(nat \<Rightarrow> bool) \<times> mouse_button \<times> int \<times> (nat \<Rightarrow> bool) list"

definition click_inputs :: "click \<Rightarrow> unit input list" where
  "click_inputs c = (case c of (over, b, now, moves) \<Rightarrow>
     [MoveTo over (), Press b now ()] @ map (\<lambda>over. MoveTo over ()) moves @ [Release b ()])"

lemma button_gives:
  "give (button_handlers is_button) t
     ([(MousePress_EH, (), m)] @ map (\<lambda>(over, e). (MouseMove_EH, e, m')) moves @ [(MouseRelease_EH, (), m'')]) bs =
   (case t of None \<Rightarrow> bs | Some i \<Rightarrow>
     if is_button i then bs(i := button_handleLockReleaseEvent (button_handlePressEvent (bs i))) else bs)"
proof -
  let ?h = "button_handlers is_button :: (unit, nat \<Rightarrow> button_state) handlers"
  have "give ?h t (map (\<lambda>(over, e). (MouseMove_EH, e, m')) moves) bs = bs" for bs
  proof (induction moves arbitrary: bs)
    case (Cons mv moves)
    have "snd (tryHandleEvent ?h MouseMove_EH t e m' bs) = bs" for e
      by (simp add: tryHandleEvent_def button_handlers_def split: option.split)
    with Cons show ?case by (simp add: give_def split_beta)
  qed (simp add: give_def)
  then show ?thesis
    unfolding give_append by (simp add: give_def tryHandleEvent_def button_handlers_def split: option.split)
qed

lemma click_run:
  assumes "distinct (ids w)" and "lockContext a = None"
  shows "\<exists>a'. app_run (button_handlers is_button) w (click_inputs c) (a, bs) =
      Some (a', case deepest (hover_path (fst c) w) of None \<Rightarrow> bs | Some i \<Rightarrow>
        if is_button i then bs(i := button_handleLockReleaseEvent (button_handlePressEvent (bs i))) else bs)
    \<and> lockContext a' = None"
proof -
  obtain over b now moves where c: "c = (over, b, now, moves)" by (metis prod_cases4)
  have e: "click_inputs c = [MoveTo over (), Press b now ()] @ map (\<lambda>(over, e). MoveTo over e) (map (\<lambda>over. (over, ())) moves)
      @ [Release b ()]" by (simp add: click_inputs_def c)
  show ?thesis
    using gesture_run [OF assms refl, where handlers = "button_handlers is_button" and over = over and b = b and now = now
        and moves = "map (\<lambda>over. (over, ())) moves" and s = bs and ?e0.0 = "()" and ?e1.0 = "()" and ?e2.0 = "()"]
    unfolding e [unfolded c] button_gives c fst_conv by blast
qed

text \<open>The clicks that went down on button \<open>i\<close>.\<close>

definition clicks_on :: "widget \<Rightarrow> nat \<Rightarrow> click list \<Rightarrow> nat" where
  "clicks_on w i cs = length (filter (\<lambda>c. deepest (hover_path (fst c) w) = Some i) cs)"

lemma button_click_sel:
  "toggled (button_handleLockReleaseEvent (button_handlePressEvent b)) = (\<not> toggled b)"
  "\<not> preToggling (button_handleLockReleaseEvent (button_handlePressEvent b))"
  "toggleCb (button_handleLockReleaseEvent (button_handlePressEvent b)) = toggleCb b"
  "toggleCalls (button_handleLockReleaseEvent (button_handlePressEvent b)) =
     (if toggleCb b then toggleCalls b @ [\<not> toggled b] else toggleCalls b)"
  by (simp_all add: button_handleLockReleaseEvent_def button_handlePressEvent_def toggle_def onToggled_def Let_def)

definition clicked :: "button_state \<Rightarrow> nat \<Rightarrow> button_state \<Rightarrow> bool" where
  "clicked b n b' \<longleftrightarrow> toggleCb b' \<and> (n > 0 \<longrightarrow> \<not> preToggling b') \<and> (n = 0 \<longrightarrow> b' = b)
     \<and> toggled b' = (toggled b \<noteq> odd n)
     \<and> toggleCalls b' = toggleCalls b @ map (\<lambda>k. toggled b \<noteq> even k) [0..<n]"

lemma clicked_Suc: "clicked b n b' \<Longrightarrow> clicked b (Suc n) (button_handleLockReleaseEvent (button_handlePressEvent b'))"
  by (auto simp: clicked_def button_click_sel)

lemma clicks_run:
  assumes "distinct (ids w)" and "lockContext a = None" and "is_button i" and "toggleCb (bs i)"
  shows "\<exists>a' bs'. app_run (button_handlers is_button) w (concat (map click_inputs cs)) (a, bs) = Some (a', bs')
    \<and> lockContext a' = None \<and> clicked (bs i) (clicks_on w i cs) (bs' i)"
proof (induction cs rule: rev_induct)
  case Nil
  show ?case using assms by (simp add: clicks_on_def clicked_def)
next
  case (snoc c cs)
  then obtain a1 bs1 where 1: "app_run (button_handlers is_button) w (concat (map click_inputs cs)) (a, bs) = Some (a1, bs1)"
    "lockContext a1 = None" "clicked (bs i) (clicks_on w i cs) (bs1 i)"
    by blast
  let ?t = "deepest (hover_path (fst c) w)"
  let ?bs2 = "case ?t of None \<Rightarrow> bs1 | Some i \<Rightarrow>
        if is_button i then bs1(i := button_handleLockReleaseEvent (button_handlePressEvent (bs1 i))) else bs1"
  obtain a2 where 2: "app_run (button_handlers is_button) w (click_inputs c) (a1, bs1) = Some (a2, ?bs2)" "lockContext a2 = None"
    using click_run [OF assms(1) 1(2)] by blast
  have "app_run (button_handlers is_button) w (concat (map click_inputs (cs @ [c]))) (a, bs) = Some (a2, ?bs2)"
    using 1(1) 2(1) by (simp add: app_run_append)
  moreover have "clicks_on w i (cs @ [c]) = (if ?t = Some i then Suc (clicks_on w i cs) else clicks_on w i cs)"
    by (simp add: clicks_on_def)
  moreover have "?bs2 i = (if ?t = Some i then button_handleLockReleaseEvent (button_handlePressEvent (bs1 i)) else bs1 i)"
    using assms(3) by (auto split: option.split)
  ultimately have "app_run (button_handlers is_button) w (concat (map click_inputs (cs @ [c]))) (a, bs) = Some (a2, ?bs2)"
    "clicked (bs i) (clicks_on w i (cs @ [c])) (?bs2 i)"
    using 1(3) clicked_Suc [OF 1(3)] by auto
  with 2(2) show ?case by blast
qed

text \<open>After any clicks, with any buttons of the mouse, a button of the application is toggled exactly when
  an odd number of them went down on it, even where the cursor was elsewhere when they came up; its
  callback was called once for each, with the values true, false, true and so on; and no button is left
  half pressed.\<close>

theorem buttons_count_clicks:
  assumes "distinct (ids w)" and "is_button i"
  shows "\<exists>a' bs'. app_run (button_handlers is_button) w (concat (map click_inputs cs))
      (app_container_init, \<lambda>_. setToogleCallback button_init) = Some (a', bs')
    \<and> toggled (bs' i) = odd (clicks_on w i cs) \<and> \<not> preToggling (bs' i)
    \<and> toggleCalls (bs' i) = map even [0..<clicks_on w i cs]"
proof -
  define bs :: "nat \<Rightarrow> button_state" where "bs = (\<lambda>_. setToogleCallback button_init)"
  have l: "lockContext app_container_init = None" and t: "toggleCb (bs i)"
    by (simp_all add: app_container_init_def setToogleCallback_def bs_def)
  obtain a' bs' where r: "app_run (button_handlers is_button) w (concat (map click_inputs cs)) (app_container_init, bs) = Some (a', bs')"
      and c: "clicked (bs i) (clicks_on w i cs) (bs' i)"
    using clicks_run [where is_button = is_button and i = i and bs = bs, OF assms(1) l assms(2) t] by blast
  have "toggled (bs' i) = odd (clicks_on w i cs) \<and> \<not> preToggling (bs' i) \<and> toggleCalls (bs' i) = map even [0..<clicks_on w i cs]"
    using c by (cases "clicks_on w i cs = 0") (simp_all add: clicked_def bs_def setToogleCallback_def button_init_def)
  with r show ?thesis unfolding bs_def by blast
qed

theorem buttons_count_clicks_witness:
  "\<exists>a' bs'. app_run (button_handlers (\<lambda>i. i = 1)) (Container 0 [Hoverable 1])
      (concat (map click_inputs [(\<lambda>i. True, LeftButton, 0, [\<lambda>i. i = 0]), (\<lambda>i. i = 0, LeftButton, 1, [])]))
      (app_container_init, \<lambda>_. setToogleCallback button_init) = Some (a', bs')
    \<and> toggled (bs' 1) \<and> toggleCalls (bs' 1) = [True]"
proof -
  let ?cs = "[(\<lambda>i. True, LeftButton, 0, [\<lambda>i. i = 0]), (\<lambda>i. i = 0, LeftButton, 1, [])] :: click list"
  have "clicks_on (Container 0 [Hoverable 1]) 1 ?cs = 1" by (simp add: clicks_on_def deepest_def)
  moreover have "distinct (ids (Container 0 [Hoverable 1]))" by simp
  ultimately show ?thesis
    using buttons_count_clicks [of "Container 0 [Hoverable 1]" "\<lambda>i. i = 1" 1 ?cs] by simp blast
qed

theorem second_button_takes_lock_witness:
  "\<exists>a' m1 m2 m3 m4. app_run (button_handlers (\<lambda>i. True)) (Container 0 [Hoverable 1])
      [MoveTo (\<lambda>i. True) (), Press LeftButton 0 (), MoveTo (\<lambda>i. i = 0) (), Press RightButton 1 (), Release LeftButton (),
       Release RightButton ()] (app_container_init, \<lambda>_. button_init) =
    Some (a', give (button_handlers (\<lambda>i. True)) (Some 0) [(MousePress_EH, (), m3), (MouseRelease_EH, (), m4)]
      (give (button_handlers (\<lambda>i. True)) (Some 1) [(MousePress_EH, (), m1), (MouseMove_EH, (), m2)] (\<lambda>_. button_init)))
    \<and> lockContext a' = None"
proof -
  have "distinct (ids (Container 0 [Hoverable 1]))" "lockContext app_container_init = None"
    by (simp_all add: app_container_init_def)
  moreover have "deepest (hover_path (\<lambda>i. True) (Container 0 [Hoverable 1])) = Some 1"
    "deepest (hover_path (\<lambda>i. i = 0) (Container 0 [Hoverable 1])) = Some 0"
    by (simp_all add: deepest_def)
  ultimately show ?thesis using second_button_takes_lock by metis
qed

theorem gesture_stays_with_pressed_widget_witness:
  "\<exists>a'. app_run (button_handlers (\<lambda>i. True)) (Container 0 [Hoverable 1])
      ([MoveTo (\<lambda>i. True) (), Press LeftButton 0 ()] @ map (\<lambda>(over, e). MoveTo over e) [(\<lambda>i :: nat. i = 0, ())] @ [Release LeftButton ()])
      (app_container_init, \<lambda>_. button_init) =
    Some (a', give (button_handlers (\<lambda>i. True)) (Some 1)
      ([(MousePress_EH, (), leftPressed 0 mouse_init)]
       @ map (\<lambda>(over, e). (MouseMove_EH, e, mayBeDragging (leftPressed 0 mouse_init))) [(\<lambda>i :: nat. i = 0, ())]
       @ [(MouseRelease_EH, (), mayBeDragging (leftPressed 0 mouse_init))]) (\<lambda>_. button_init))
    \<and> lockContext a' = None"
proof -
  let ?w = "Container 0 [Hoverable 1]"
  have d: "distinct (ids ?w)" and l: "lockContext app_container_init = None" by (simp_all add: app_container_init_def)
  have m: "leftPressed 0 mouse_init = pressed LeftButton 0 (mayBeDragging (mouseState app_container_init))"
    by (simp add: pressed_def app_container_init_def mayBeDragging_def mouse_init_def)
  have p: "deepest (hover_path (\<lambda>i. True) ?w) = Some 1" by (simp add: deepest_def)
  have i: "(if [(\<lambda>i :: nat. i = 0, ())] = [] then x else y) = y" for x y :: mouse_state by simp
  from gesture_stays_with_pressed_widget [OF d l m, of "button_handlers (\<lambda>i. True)" "\<lambda>i. True" "()" "()" "[(\<lambda>i :: nat. i = 0, ())]" "()"
      "\<lambda>_. button_init"]
  show ?thesis unfolding p i by blast
qed

end
