(* ===== verification/USApplication.thy ===== *)
theory USApplication
  imports Selection EventRouting
begin

text \<open>
  \<open>src/app/USApplication.cpp\<close>: the root of the widgets and its event handlers, which drive the map
  navigation and the selection. The application is widget 0 of \<open>us_tree\<close>; the handlers of the other
  widgets are the argument \<open>others\<close>, over a state \<open>'w\<close> of their own. This is the release build: in a
  debug build Dear ImGui may swallow an event first.
\<close>

record us_event =
  evButton :: mouse_button
  evPosition :: "int \<times> int"
  evRelative :: "int \<times> int"
  evOffset :: vector2
  evClock :: int

datatype cursor = ArrowCursor | ResizeAllCursor | HandCursor

record ('p, 'm, 'w) us_app =
  nav :: "('p, 'm) navigation"
  selectionRect :: selection
  cursor :: cursor
  framebufferSize :: "int \<times> int"
  widgets :: 'w

text \<open>The selector button, the panel with its scroller, the scroller's handle and the grid, the text.\<close>

definition us_tree :: widget where
  "us_tree = Container 0 [Hoverable 1, Container 2 [Container 3 [Hoverable 4], Hoverable 5], Hoverable 6]"

section \<open>Handlers\<close>

definition handleScrollEvent :: "'m magnum \<Rightarrow> 'p magnum_player \<Rightarrow> us_event \<Rightarrow> ('p, 'm, 'w) us_app \<Rightarrow> ('p, 'm, 'w) us_app" where
  "handleScrollEvent mg pl ev s =
     s\<lparr>nav := snd (mouseScrollEvent mg pl (evOffset ev) (evPosition ev) (framebufferSize s) (nav s))\<rparr>"

definition handlePressEvent :: "'m magnum \<Rightarrow> 'p magnum_player \<Rightarrow> us_event \<Rightarrow> mouse_state \<Rightarrow>
    ('p, 'm, 'w) us_app \<Rightarrow> ('p, 'm, 'w) us_app" where
  "handlePressEvent mg pl ev mouse s = (case evButton ev of
       LeftButton \<Rightarrow>
         let s = s\<lparr>nav := mousePressEvent pl (nav s)\<rparr>
         in if hasLeftDoubleClick mouse
            then s\<lparr>nav := mouseDoubleClickEvent mg pl (evPosition ev) (framebufferSize s) (nav s)\<rparr>
            else s
     | RightButton \<Rightarrow> s\<lparr>selectionRect := selection_start (evPosition ev) (framebufferSize s) (selectionRect s)\<rparr>
     | _ \<Rightarrow> s)"

definition handleLockReleaseEvent :: "'m magnum \<Rightarrow> 'p magnum_player \<Rightarrow> us_event \<Rightarrow> mouse_state \<Rightarrow>
    ('p, 'm, 'w) us_app \<Rightarrow> ('p, 'm, 'w) us_app" where
  "handleLockReleaseEvent mg pl ev mouse s = (case evButton ev of
       LeftButton \<Rightarrow>
         if isLeftClickDragging mouse
         then
           let s = s\<lparr>nav := mouseMoveReleaseEvent mg pl (evClock ev) (nav s)\<rparr>
           in s\<lparr>cursor := ArrowCursor\<rparr>
         else s
     | RightButton \<Rightarrow>
         if isSelecting (selectionRect s)
         then
           let s = s\<lparr>selectionRect := selection_end (evPosition ev) (framebufferSize s) (selectionRect s)\<rparr>
           in s\<lparr>nav := snapshotZoom mg pl (asRectangle (selectionRect s)) (nav s)\<rparr>
         else s
     | _ \<Rightarrow> s)"

definition handleLockMoveEvent :: "'m magnum \<Rightarrow> us_event \<Rightarrow> mouse_state \<Rightarrow> ('p, 'm, 'w) us_app \<Rightarrow> ('p, 'm, 'w) us_app" where
  "handleLockMoveEvent mg ev mouse s =
     (if isLeftClickDragging mouse
      then
        let s = s\<lparr>cursor := ResizeAllCursor\<rparr>
        in s\<lparr>nav := mouseMoveEvent mg (evClock ev) (evRelative ev) (framebufferSize s) (nav s)\<rparr>
      else if isSelecting (selectionRect s)
      then s\<lparr>selectionRect := selection_update (evPosition ev) (framebufferSize s) (selectionRect s)\<rparr>
      else s)"

text \<open>The application handles every kind of event.\<close>

definition us_handlers :: "'m magnum \<Rightarrow> 'p magnum_player \<Rightarrow> (us_event, 'w) handlers \<Rightarrow> (us_event, ('p, 'm, 'w) us_app) handlers" where
  "us_handlers mg pl others k i =
     (if i = 0
      then Some (case k of
        Scroll_EH \<Rightarrow> (\<lambda>ev mouse s. handleScrollEvent mg pl ev s)
      | MousePress_EH \<Rightarrow> handlePressEvent mg pl
      | MouseRelease_EH \<Rightarrow> handleLockReleaseEvent mg pl
      | MouseMove_EH \<Rightarrow> handleLockMoveEvent mg)
      else map_option (\<lambda>h ev mouse s. s\<lparr>widgets := h ev mouse (widgets s)\<rparr>) (others k i))"

section \<open>Events of the window\<close>

definition cursorPosition :: "int \<times> int \<Rightarrow> int \<times> int \<Rightarrow> vector2" where
  "cursorPosition position fb =
     (let fs = \<lparr>vx = f32_of_int (fst fb), vy = f32_of_int (snd fb)\<rparr>;
          pos = \<lparr>vx = f32_of_int (fst position), vy = f32_of_int (snd position)\<rparr>
      in vmul (vdiv (vsub pos (vdiv fs (vscalar (f32_lit 2)))) fs) \<lparr>vx = f32_lit 2, vy = f32_lit (- 2)\<rparr>)"

text \<open>\<open>contains i v\<close>: the geometry of widget \<open>i\<close> contains \<open>v\<close>.\<close>

definition us_mouseMoveEvent :: "'m magnum \<Rightarrow> 'p magnum_player \<Rightarrow> (us_event, 'w) handlers \<Rightarrow> (nat \<Rightarrow> vector2 \<Rightarrow> bool) \<Rightarrow>
    us_event \<Rightarrow> app_container \<times> ('p, 'm, 'w) us_app \<Rightarrow> app_container \<times> ('p, 'm, 'w) us_app" where
  "us_mouseMoveEvent mg pl others contains ev = (\<lambda>(a, s).
     let cursorPos = cursorPosition (evPosition ev) (framebufferSize s)
     in propagateMouseMoveEvent (us_handlers mg pl others) us_tree (\<lambda>i. contains i cursorPos) ev (a, s))"

definition us_mousePressEvent :: "'m magnum \<Rightarrow> 'p magnum_player \<Rightarrow> (us_event, 'w) handlers \<Rightarrow>
    int \<Rightarrow> us_event \<Rightarrow> app_container \<times> ('p, 'm, 'w) us_app \<Rightarrow> app_container \<times> ('p, 'm, 'w) us_app" where
  "us_mousePressEvent mg pl others now ev = propagateMousePressEvent (us_handlers mg pl others) (evButton ev) now ev"

definition us_mouseReleaseEvent :: "'m magnum \<Rightarrow> 'p magnum_player \<Rightarrow> (us_event, 'w) handlers \<Rightarrow>
    us_event \<Rightarrow> app_container \<times> ('p, 'm, 'w) us_app \<Rightarrow> app_container \<times> ('p, 'm, 'w) us_app" where
  "us_mouseReleaseEvent mg pl others ev = propagateMouseReleaseEvent (us_handlers mg pl others) (evButton ev) ev"

definition us_mouseScrollEvent :: "'m magnum \<Rightarrow> 'p magnum_player \<Rightarrow> (us_event, 'w) handlers \<Rightarrow>
    us_event \<Rightarrow> app_container \<times> ('p, 'm, 'w) us_app \<Rightarrow> (app_container \<times> ('p, 'm, 'w) us_app) option" where
  "us_mouseScrollEvent mg pl others ev = propagateScrollEvent (us_handlers mg pl others) us_tree ev"

definition us_keyReleaseEvent :: "'m magnum \<Rightarrow> 'p magnum_player \<Rightarrow> key \<Rightarrow> bool \<Rightarrow> ('p, 'm, 'w) us_app \<Rightarrow> ('p, 'm, 'w) us_app" where
  "us_keyReleaseEvent mg pl key isRepeated s = s\<lparr>nav := navigation_key mg pl key isRepeated False (nav s)\<rparr>"

definition us_keyPressEvent :: "'m magnum \<Rightarrow> 'p magnum_player \<Rightarrow> key \<Rightarrow> bool \<Rightarrow> ('p, 'm, 'w) us_app \<Rightarrow> ('p, 'm, 'w) us_app" where
  "us_keyPressEvent mg pl key isRepeated s =
     (let s = s\<lparr>nav := navigation_key mg pl key isRepeated True (nav s)\<rparr>;
          s = s\<lparr>nav := scale_keyPressEvent mg pl key (nav s)\<rparr>
      in case key of
           KeyEsc \<Rightarrow> s\<lparr>nav := resetWorldMatrix mg pl (nav s)\<rparr>
         | _ \<Rightarrow> s)"

text \<open>A resize also cancels a selection.\<close>

definition us_viewportEvent :: "int \<times> int \<Rightarrow> ('p, 'm, 'w) us_app \<Rightarrow> ('p, 'm, 'w) us_app" where
  "us_viewportEvent fb s = s\<lparr>framebufferSize := fb, selectionRect := resetSelection (selectionRect s)\<rparr>"

definition us_drawEvent :: "'m magnum \<Rightarrow> 'p magnum_player \<Rightarrow> f32 \<times> f32 \<Rightarrow> ('p, 'm, 'w) us_app \<Rightarrow> ('p, 'm, 'w) us_app" where
  "us_drawEvent mg pl frame s = s\<lparr>nav := navigation_frame mg pl frame (nav s)\<rparr>"

section \<open>Gestures on the map\<close>

lemma us_tree_distinct: "distinct (ids us_tree)"
  by (simp add: us_tree_def)

text \<open>The cursor is over the application and none of its widgets.\<close>

definition over_map :: "nat \<Rightarrow> bool" where
  "over_map i \<longleftrightarrow> i = 0"

lemma deepest_map: "deepest (hover_path over_map us_tree) = Some 0"
  by (simp add: us_tree_def over_map_def deepest_def)

lemma root_handles:
  "snd (tryHandleEvent (us_handlers mg pl others) MousePress_EH (Some 0) ev m s) = handlePressEvent mg pl ev m s"
  "snd (tryHandleEvent (us_handlers mg pl others) MouseRelease_EH (Some 0) ev m s) = handleLockReleaseEvent mg pl ev m s"
  "snd (tryHandleEvent (us_handlers mg pl others) MouseMove_EH (Some 0) ev m s) = handleLockMoveEvent mg ev m s"
  by (simp_all add: tryHandleEvent_def us_handlers_def)

lemma left_pressed_state:
  "\<not> isLeftClickDragging (leftPressed now m)" "isLeftClickDragging (mayBeDragging (leftPressed now m))"
  by (simp_all add: leftPressed_def mayBeDragging_def isLeftClickDragging_def Let_def)

lemma drag_moves:
  assumes "isLeftClickDragging m"
  shows "give (us_handlers mg pl others) (Some 0) (map (\<lambda>(over, e). (MouseMove_EH, e, m)) moves) s =
    (if moves = [] then s
     else s\<lparr>cursor := ResizeAllCursor,
            nav := fold (\<lambda>(over, e). mouseMoveEvent mg (evClock e) (evRelative e) (framebufferSize s)) moves (nav s)\<rparr>)"
proof (induction moves arbitrary: s)
  case (Cons mv moves)
  then show ?case
    using assms by (auto simp: give_def root_handles handleLockMoveEvent_def split_beta Let_def)
qed (simp add: give_def)

lemma mouse_moves_world:
  "world (fold (\<lambda>(over, e). mouseMoveEvent mg (evClock e) (evRelative e) fb) moves n) =
     fold (\<lambda>(over, e). translateToAbs mg (translatedVector (evRelative e) fb)) moves (world n)"
  "mm (mmh (fold (\<lambda>(over, e). mouseMoveEvent mg (evClock e) (evRelative e) fb) moves n)) =
     fold (\<lambda>(over, e). addToAccelerationBuffer (evClock e) (translatedVector (evRelative e) fb)) moves (mm (mmh n))"
  "kmh (fold (\<lambda>(over, e). mouseMoveEvent mg (evClock e) (evRelative e) fb) moves n) = kmh n"
  "msh (fold (\<lambda>(over, e). mouseMoveEvent mg (evClock e) (evRelative e) fb) moves n) = msh n"
  by (induction moves arbitrary: n) (auto simp: mouseMoveEvent_def Let_def)

lemma play_sel:
  "world (updateAnimationFromMoveVectorAndPlay mg pl v n) = world n"
  "mm (mmh (updateAnimationFromMoveVectorAndPlay mg pl v n)) = mm (mmh n)"
  "msh (updateAnimationFromMoveVectorAndPlay mg pl v n) = msh n"
  "kmh (updateAnimationFromMoveVectorAndPlay mg pl v n) = keyboard_stopAnim (kmh n)"
  "animFrom (animState (mAnim (mmh (updateAnimationFromMoveVectorAndPlay mg pl v n)))) = matTranslation mg (world n)"
  "animTo (animState (mAnim (mmh (updateAnimationFromMoveVectorAndPlay mg pl v n)))) = vadd (matTranslation mg (world n)) v"
  by (simp_all add: updateAnimationFromMoveVectorAndPlay_def updateAnimationAndPlay_def player_startAnim_def startAnim_def Let_def)

lemma press_left_sel:
  assumes "evButton ev = LeftButton"
  shows "world (nav (handlePressEvent mg pl ev m s)) = world (nav s)"
    and "mm (mmh (nav (handlePressEvent mg pl ev m s))) = mm (mouse_stopAnim pl (mmh (nav s)))"
    and "msh (nav (handlePressEvent mg pl ev m s)) = msh (nav s)"
    and "selectionRect (handlePressEvent mg pl ev m s) = selectionRect s"
    and "framebufferSize (handlePressEvent mg pl ev m s) = framebufferSize s"
    and "widgets (handlePressEvent mg pl ev m s) = widgets s"
  using assms by (simp_all add: handlePressEvent_def mousePressEvent_def mouseDoubleClickEvent_def play_sel Let_def)

lemma release_left_sel:
  assumes "evButton ev = LeftButton" and "isLeftClickDragging m"
  shows "handleLockReleaseEvent mg pl ev m s =
    s\<lparr>nav := mouseMoveReleaseEvent mg pl (evClock ev) (nav s), cursor := ArrowCursor\<rparr>"
  using assms by (simp add: handleLockReleaseEvent_def Let_def)

lemma keyboard_stop_idem [simp]: "keyboard_stopAnim (keyboard_stopAnim k) = keyboard_stopAnim k"
  by (simp add: keyboard_stopAnim_def)

lemma map_gesture:
  assumes "lockContext a = None"
    and m1: "m1 = pressed b now (mayBeDragging (mouseState a))"
  shows "\<exists>a'. app_run (us_handlers mg pl others) us_tree
      ([MoveTo over_map e0, Press b now e1] @ map (\<lambda>(over, e). MoveTo over e) moves @ [Release b e2]) (a, s) =
    Some (a', handleLockReleaseEvent mg pl e2 (if moves = [] then m1 else mayBeDragging m1)
      (give (us_handlers mg pl others) (Some 0) (map (\<lambda>(over, e). (MouseMove_EH, e, mayBeDragging m1)) moves)
        (handlePressEvent mg pl e1 m1 s)))
    \<and> lockContext a' = None"
proof -
  from gesture_run [OF us_tree_distinct assms(1) m1, of "us_handlers mg pl others" over_map e0 e1 moves e2 s]
  show ?thesis
    unfolding deepest_map give_append by (auto simp: give_def root_handles)
qed

text \<open>C29: Dragging the bare map with the left button moves the world by exactly the vectors of the mouse
  moves, wherever the cursor goes meanwhile, and on release sends it from there along the impulse that
  was sampled since the press; the keyboard's movement stops, and no widget notices.\<close>

theorem map_drag:
  assumes "lockContext a = None" and "evButton e1 = LeftButton" and "evButton e2 = LeftButton" and "moves \<noteq> []"
  shows "\<exists>a' s'. app_run (us_handlers mg pl others) us_tree
      ([MoveTo over_map e0, Press LeftButton now e1] @ map (\<lambda>(over, e). MoveTo over e) moves @ [Release LeftButton e2]) (a, s) =
      Some (a', s') \<and> lockContext a' = None
    \<and> world (nav s') = fold (\<lambda>(over, e). translateToAbs mg (translatedVector (evRelative e) (framebufferSize s))) moves (world (nav s))
    \<and> animFrom (animState (mAnim (mmh (nav s')))) = matTranslation mg (world (nav s'))
    \<and> animTo (animState (mAnim (mmh (nav s')))) = vadd (matTranslation mg (world (nav s')))
        (fst (computeAccelerationBuffer (evClock e2)
          (fold (\<lambda>(over, e). addToAccelerationBuffer (evClock e) (translatedVector (evRelative e) (framebufferSize s))) moves
            (mm (mouse_stopAnim pl (mmh (nav s)))))))
    \<and> kmh (nav s') = keyboard_stopAnim (kmh (nav s')) \<and> msh (nav s') = msh (nav s)
    \<and> cursor s' = ArrowCursor \<and> selectionRect s' = selectionRect s \<and> widgets s' = widgets s"
proof -
  let ?m = "mayBeDragging (leftPressed now (mayBeDragging (mouseState a)))"
  let ?s1 = "handlePressEvent mg pl e1 (leftPressed now (mayBeDragging (mouseState a))) s"
  let ?n2 = "fold (\<lambda>(over, e). mouseMoveEvent mg (evClock e) (evRelative e) (framebufferSize s)) moves (nav ?s1)"
  let ?s' = "?s1\<lparr>cursor := ArrowCursor, nav := mouseMoveReleaseEvent mg pl (evClock e2) ?n2\<rparr>"
  have drag: "isLeftClickDragging ?m" by (rule left_pressed_state(2))
  obtain a' where "app_run (us_handlers mg pl others) us_tree
      ([MoveTo over_map e0, Press LeftButton now e1] @ map (\<lambda>(over, e). MoveTo over e) moves @ [Release LeftButton e2]) (a, s) =
      Some (a', ?s')" "lockContext a' = None"
    using map_gesture [OF assms(1) refl, where b = LeftButton and now = now and mg = mg and pl = pl and others = others
      and ?e0.0 = e0 and ?e1.0 = e1 and moves = moves and ?e2.0 = e2 and s = s] assms(4)
    by (auto simp: pressed_def drag_moves [OF drag] release_left_sel [OF assms(3) drag] press_left_sel [OF assms(2)])
  then show ?thesis
    by (intro exI [of _ a'] exI [of _ ?s'])
      (simp add: mouseMoveReleaseEvent_def split_beta Let_def play_sel mouse_moves_world press_left_sel [OF assms(2)])
qed

definition left_event :: "int \<times> int \<Rightarrow> int \<times> int \<Rightarrow> int \<Rightarrow> us_event" where
  "left_event pos rel clock = \<lparr>evButton = LeftButton, evPosition = pos, evRelative = rel, evOffset = vzero, evClock = clock\<rparr>"

definition us_init :: "'m magnum \<Rightarrow> 'p \<Rightarrow> 'w \<Rightarrow> ('p, 'm, 'w) us_app" where
  "us_init mg idle ws = \<lparr>nav = navigation_init mg idle, selectionRect = selection_init, cursor = ArrowCursor,
     framebufferSize = (800, 600), widgets = ws\<rparr>"

theorem map_drag_witness:
  "\<exists>a' s'. app_run (us_handlers plain_magnum (countdown_player 3) (\<lambda>_ _. None)) us_tree
      ([MoveTo over_map (left_event (0, 0) (0, 0) 0), Press LeftButton 0 (left_event (0, 0) (0, 0) 0)]
       @ map (\<lambda>(over, e). MoveTo over e) [(over_map, left_event (300, 0) (300, 0) 0)]
       @ [Release LeftButton (left_event (300, 0) (0, 0) 0)]) (app_container_init, us_init plain_magnum 0 ()) = Some (a', s')
    \<and> world (nav s') = translateToAbs plain_magnum (translatedVector (300, 0) (800, 600)) (vzero, vscalar (f32_lit 1))"
proof -
  have l: "lockContext app_container_init = None" by (simp add: app_container_init_def)
  have b: "evButton (left_event p r c) = LeftButton" for p r c by (simp add: left_event_def)
  have ne: "[(over_map, left_event (300, 0) (300, 0) 0)] \<noteq> []" by simp
  have i: "framebufferSize (us_init plain_magnum 0 ()) = (800, 600)"
    "world (nav (us_init plain_magnum 0 ())) = (vzero, vscalar (f32_lit 1))"
    by (simp_all add: us_init_def navigation_init_def plain_magnum_def)
  have f: "fold f [(over_map, left_event (300, 0) (300, 0) 0)] w = f (over_map, left_event (300, 0) (300, 0) 0) w"
    for f and w :: "vector2 \<times> vector2" by simp
  have r: "evRelative (left_event (300, 0) (300, 0) 0) = (300, 0)" by (simp add: left_event_def)
  show ?thesis
    using map_drag [OF l b b ne, where mg = plain_magnum and pl = "countdown_player 3" and others = "\<lambda>_ _. None"
        and ?e0.0 = "left_event (0, 0) (0, 0) 0" and now = 0 and s = "us_init plain_magnum 0 ()"]
    unfolding i f prod.case r by blast
qed

section \<open>Selecting\<close>

lemma update_selecting: "isSelecting (selection_update p fb r) = isSelecting r"
  by (simp add: selection_update_def updatefromPoint_def Let_def)

lemma updates_selecting:
  "isSelecting (fold (\<lambda>(over, e). selection_update (evPosition e) fb) moves r) = isSelecting r"
  by (induction moves arbitrary: r) (simp_all add: update_selecting split_beta)

lemma fold_positions:
  "fold (\<lambda>m. selection_update m fb) (map (evPosition \<circ> snd) moves) r =
     fold (\<lambda>(over, e). selection_update (evPosition e) fb) moves r"
  by (induction moves arbitrary: r) (simp_all add: split_beta)

lemma select_moves:
  assumes "\<not> isLeftClickDragging m" and "isSelecting (selectionRect s)"
  shows "give (us_handlers mg pl others) (Some 0) (map (\<lambda>(over, e). (MouseMove_EH, e, m)) moves) s =
    s\<lparr>selectionRect := fold (\<lambda>(over, e). selection_update (evPosition e) (framebufferSize s)) moves (selectionRect s)\<rparr>"
  using assms(2)
proof (induction moves arbitrary: s)
  case (Cons mv moves)
  then show ?case
    using assms(1) by (simp add: give_def root_handles handleLockMoveEvent_def split_beta update_selecting)
qed (simp add: give_def)

lemma not_dragging_right:
  assumes "\<not> lPressed m" and "\<not> lMoved m"
  shows "\<not> isLeftClickDragging (pressed RightButton now (mayBeDragging m))"
    and "\<not> isLeftClickDragging (mayBeDragging (pressed RightButton now (mayBeDragging m)))"
  using assms by (simp_all add: pressed_def rightPressed_def mayBeDragging_def isLeftClickDragging_def)


definition right_event :: "int \<times> int \<Rightarrow> us_event" where
  "right_event pos = \<lparr>evButton = RightButton, evPosition = pos, evRelative = (0, 0), evOffset = vzero, evClock = 0\<rparr>"


lemma fold_skip [simp]: "fold (\<lambda>x s. s) xs s = s"
  by (induction xs) auto

lemma run_then: "app_run handlers w xs x = Some y \<Longrightarrow> app_run handlers w (xs @ ys) x = app_run handlers w ys y"
  by (simp add: app_run_append)

text \<open>A left click while the rectangle is being drawn takes the lock: the release of the right button then
  reaches nobody, so no zoom starts and the selection stays in progress, and drawn, with no button down,
  through any further moves of the mouse.\<close>

theorem selection_left_in_progress:
  assumes "lockContext a = None" and "evButton e1 = RightButton" and "evButton e2 = LeftButton" and "evButton e3 = LeftButton"
  shows "\<exists>a' s'. app_run (us_handlers mg pl others) us_tree
      ([MoveTo over_map e0, Press RightButton t1 e1, Press LeftButton t2 e2, Release LeftButton e3, Release RightButton e4]
       @ map (\<lambda>(over, e). MoveTo over e) moves) (a, s) = Some (a', s')
    \<and> isSelecting (selectionRect s') \<and> msh (nav s') = msh (nav s)
    \<and> \<not> lPressed (mouseState a') \<and> \<not> rPressed (mouseState a')"
proof -
  let ?h = "us_handlers mg pl others"
  let ?m1 = "pressed RightButton t1 (mayBeDragging (mouseState a))"
  let ?m2 = "leftPressed t2 ?m1"
  let ?a1 = "(traverseForHovered us_tree over_map a)\<lparr>mouseState := ?m1, lockContext := Some 0\<rparr>"
  let ?s1 = "s\<lparr>selectionRect := selection_start (evPosition e1) (framebufferSize s) (selectionRect s)\<rparr>"
  let ?s2 = "handlePressEvent mg pl e2 ?m2 ?s1"
  let ?a2 = "?a1\<lparr>mouseState := released RightButton (leftReleased ?m2), lockContext := None\<rparr>"
  have 1: "app_run ?h us_tree [MoveTo over_map e0, Press RightButton t1 e1] (a, s) = Some (?a1, ?s1)"
    using press_run [OF us_tree_distinct, where handlers = ?h and over = over_map and ?e0.0 = e0 and b = RightButton
        and now = t1 and ?e1.0 = e1 and a = a and s = s] assms(1,2)
    by (simp add: deepest_map give_def root_handles handlePressEvent_def)
  have d: "deepestHoveredShape (traverseForHovered us_tree over_map a) = Some 0"
    using traverse_sel(1) [OF us_tree_distinct] deepest_map by simp
  have 2: "app_run ?h us_tree [Press LeftButton t2 e2, Release LeftButton e3, Release RightButton e4] (?a1, ?s1) = Some (?a2, ?s2)"
    by (simp add: propagateMousePressEvent_def propagateMouseReleaseEvent_def d root_handles pressed_def released_def
        handleLockReleaseEvent_def left_pressed_state(1) assms(4) Let_def)
  obtain a' where 3: "app_run ?h us_tree (map (\<lambda>(over, e). MoveTo over e) moves) (?a2, ?s2) = Some (a', ?s2)"
    "mouseState a' = (if moves = [] then mouseState ?a2 else mayBeDragging (mouseState ?a2))"
    using moves_run [OF us_tree_distinct, where handlers = ?h and moves = moves and a = ?a2 and s = ?s2]
    by (auto simp: give_def split_beta comp_def fold_map)
  have "app_run ?h us_tree ([MoveTo over_map e0, Press RightButton t1 e1, Press LeftButton t2 e2, Release LeftButton e3,
      Release RightButton e4] @ map (\<lambda>(over, e). MoveTo over e) moves) (a, s) = Some (a', ?s2)"
    using run_then [OF 1, of "[Press LeftButton t2 e2, Release LeftButton e3, Release RightButton e4]
        @ map (\<lambda>(over, e). MoveTo over e) moves"] run_then [OF 2, of "map (\<lambda>(over, e). MoveTo over e) moves"] 3(1)
    by (simp del: app_run.simps)
  moreover have "isSelecting (selectionRect ?s2)" "msh (nav ?s2) = msh (nav s)"
    by (simp_all add: press_left_sel [OF assms(3)] selection_start_def Let_def)
  moreover have "\<not> lPressed (mouseState a')" "\<not> rPressed (mouseState a')"
    using 3(2) by (simp_all add: released_def rightReleased_def leftReleased_def mayBeDragging_def)
  ultimately show ?thesis by blast
qed

theorem selection_left_in_progress_witness:
  "\<exists>a' s'. app_run (us_handlers plain_magnum (countdown_player 3) (\<lambda>_ _. None)) us_tree
      ([MoveTo over_map (right_event (100, 100)), Press RightButton 0 (right_event (100, 100)),
        Press LeftButton 0 (left_event (100, 100) (0, 0) 0), Release LeftButton (left_event (100, 100) (0, 0) 0),
        Release RightButton (right_event (300, 300))] @ map (\<lambda>(over, e). MoveTo over e) [])
      (app_container_init, us_init plain_magnum 0 ()) = Some (a', s') \<and> isSelecting (selectionRect s')"
proof -
  have l: "lockContext app_container_init = None" by (simp add: app_container_init_def)
  have b: "evButton (right_event p) = RightButton" "evButton (left_event q r c) = LeftButton" for p q r c
    by (simp_all add: right_event_def left_event_def)
  show ?thesis
    using selection_left_in_progress [OF l b(1) b(2) b(2), where mg = plain_magnum and pl = "countdown_player 3"
        and others = "\<lambda>_ _. None" and s = "us_init plain_magnum 0 ()" and moves = "[]"] by blast
qed

text \<open>A resize cancels a selection: the release then does nothing.\<close>

lemma resize_cancels_selection:
  "evButton ev = RightButton \<Longrightarrow> handleLockReleaseEvent mg pl ev m (us_viewportEvent fb s) = us_viewportEvent fb s"
  by (simp add: handleLockReleaseEvent_def us_viewportEvent_def resetSelection_def)

end
