(* ===== verification/Shapes.thy ===== *)
theory Shapes
  imports MapNavigation
begin

text \<open>
  \<open>src/app/widgets/base/Constraints.hpp\<close> and \<open>Shape.hpp\<close>, and the geometry of \<open>Hoverable.hpp\<close>: the size of
  the window, the rectangle a widget occupies in it, in OpenGL coordinates from -1 to 1 with y upwards,
  and that rectangle in pixels. Magnum's projection, its point transform and its
  test of a point against a range are the record \<open>view\<close>.
\<close>

datatype StickTo = StickLeft | StickTop | StickRight | StickBottom

record 'm view =
  projection :: "vector2 \<Rightarrow> 'm"
  transformPoint :: "'m \<Rightarrow> vector2 \<Rightarrow> vector2"
  rangeContains :: "range2 \<Rightarrow> vector2 \<Rightarrow> bool"

section \<open>Constraints\<close>

record 'm constraints =
  ws :: vector2
  pixelProjMatrix :: 'm
  projMatrix :: 'm
  pixelSize :: vector2

definition aspectRatio :: "vector2 \<Rightarrow> f32" where
  "aspectRatio v = fdiv (vx v) (vy v)"

definition vector2_of_px :: "int \<times> int \<Rightarrow> vector2" where
  "vector2_of_px v = \<lparr>vx = f32_of_int (fst v), vy = f32_of_int (snd v)\<rparr>"

definition constraints_of :: "'m view \<Rightarrow> int \<times> int \<Rightarrow> 'm constraints" where
  "constraints_of vw windowSize =
     (let w = vector2_of_px windowSize
      in \<lparr>ws = w,
          pixelProjMatrix = projection vw w,
          projMatrix = projection vw (vmul \<lparr>vx = aspectRatio w, vy = f32_lit 1\<rparr> (vscalar (f32_lit 2))),
          pixelSize = vdiv (vscalar (f32_lit 1)) w\<rparr>)"

section \<open>Shape\<close>

definition range_size :: "range2 \<Rightarrow> vector2" where
  "range_size r = vsub (rmax r) (rmin r)"

definition range_padded :: "vector2 \<Rightarrow> range2 \<Rightarrow> range2" where
  "range_padded pad r = \<lparr>rmin = vsub (rmin r) pad, rmax = vadd (rmax r) pad\<rparr>"

definition vectorIntoPixel :: "'m constraints \<Rightarrow> vector2 \<Rightarrow> vector2" where
  "vectorIntoPixel con vector = vdiv (vdiv (vadd vector (vscalar (f32_lit 1))) (vscalar (f32_lit 2))) (pixelSize con)"

definition shapeIntoPixel :: "'m constraints \<Rightarrow> range2 \<Rightarrow> range2" where
  "shapeIntoPixel con shape = \<lparr>rmin = vectorIntoPixel con (rmin shape), rmax = vectorIntoPixel con (rmax shape)\<rparr>"

text \<open>The corners of a range, from the bottom left one round to the top left one, as the meshes have them.\<close>

definition topLeft :: "range2 \<Rightarrow> vector2" where
  "topLeft r = \<lparr>vx = vx (rmin r), vy = vy (rmax r)\<rparr>"

definition bottomRight :: "range2 \<Rightarrow> vector2" where
  "bottomRight r = \<lparr>vx = vx (rmax r), vy = vy (rmin r)\<rparr>"

definition corners :: "range2 \<Rightarrow> vector2 list" where
  "corners r = [rmin r, bottomRight r, rmax r, topLeft r]"

text \<open>Magnum's colours, kept as the literal or the components the code has.\<close>

datatype color4 = NoColor | Rgbaf int | Rgbf int | RgbAlpha int f32 | Components f32 f32 f32

section \<open>Geometry\<close>

text \<open>A widget's rectangle, and the rectangle its matrix moves it to.\<close>

record placed =
  shape :: range2
  geometry :: range2

definition updateShape :: "range2 \<Rightarrow> placed \<Rightarrow> placed" where
  "updateShape r w = w\<lparr>shape := r\<rparr>"

definition updateGeometry :: "'m view \<Rightarrow> 'm \<Rightarrow> placed \<Rightarrow> placed" where
  "updateGeometry vw matrix w =
     w\<lparr>geometry := \<lparr>rmin = transformPoint vw matrix (rmin (shape w)), rmax = transformPoint vw matrix (rmax (shape w))\<rparr>\<rparr>"

definition no_range :: range2 where
  "no_range = \<lparr>rmin = vzero, rmax = vzero\<rparr>"

definition unplaced :: placed where
  "unplaced = \<lparr>shape = no_range, geometry = no_range\<rparr>"

section \<open>Numbers\<close>

lemma f32_of_int_not_NaN [simp]: "f32_of_int n \<noteq> NaN" "f32_lit q \<noteq> NaN"
  by (simp_all add: f32_of_int_def f32_lit_def)

lemma f32_of_int_0 [simp]: "f32_of_int 0 = Zero False" "f32_lit 0 = Zero False"
  by (simp_all add: f32_of_int_def f32_lit_def round_f32_def)

lemma fle_not_less: "fle x y \<Longrightarrow> \<not> fless y x"
  by (simp add: fle_def)

lemma fless_0_Num: "fless (Zero s) y \<Longrightarrow> y = Inf False \<or> (\<exists>q. y = Num q \<and> 0 < q)"
  by (cases y) auto

text \<open>A product or quotient of finite numbers, up to the sign of a zero.\<close>

lemma fmul_finite:
  "finite_f32 x \<Longrightarrow> finite_f32 y \<Longrightarrow> \<exists>s. fmul x y = round_f32 s (f32_val x * f32_val y)"
  by (cases x; cases y) (auto simp: round_f32_def)

lemma fdiv_finite:
  "finite_f32 x \<Longrightarrow> y = Num q \<Longrightarrow> \<exists>s. fdiv x y = round_f32 s (f32_val x / q)"
  by (cases x) (auto simp: round_f32_def)

text \<open>The part of a positive whole is between 0 and 1, that part of a gap between 0 and the gap.\<close>

lemma fdiv_unit:
  assumes "fle (Zero False) x" and "fle x (Num q)" and "0 < q"
  shows "fle (Zero False) (fdiv x (Num q)) \<and> fle (fdiv x (Num q)) (f32_lit 1)"
proof -
  have fin: "finite_f32 x" using assms by (cases x) (auto simp: fle_def)
  then obtain s where d: "fdiv x (Num q) = round_f32 s (f32_val x / q)" using fdiv_finite by blast
  have q: "0 \<le> f32_val x / q" "f32_val x / q \<le> 1" using assms fin by (simp_all add: fle_finite)
  have "fle (round_f32 False 0) (round_f32 s (f32_val x / q))" using q(1) by (rule round_f32_mono)
  moreover have "fle (round_f32 s (f32_val x / q)) (f32_lit 1)" unfolding f32_lit_def using q(2) by (rule round_f32_mono)
  ultimately show ?thesis by (simp add: d round_f32_def)
qed

lemma f32_lit_1: "f32_lit 1 = Num 1"
  by code_simp

lemma fmul_part:
  assumes "fle (Zero False) x" and "fle x (f32_lit 1)" and "f32_ok g" and "finite_f32 g" and "0 \<le> f32_val g"
  shows "fle (fneg g) (fmul (fneg g) x) \<and> fle (fmul (fneg g) x) (Zero False)"
proof -
  have fin: "finite_f32 x" using assms(1,2) by (cases x) (auto simp: fle_def f32_lit_1)
  have x: "0 \<le> f32_val x" "f32_val x \<le> 1" using assms(1,2) fin by (simp_all add: fle_finite f32_lit_1)
  obtain s where m: "fmul (fneg g) x = round_f32 s (- f32_val g * f32_val x)"
    using fmul_finite [of "fneg g" x] fin assms(4) by auto
  have "- f32_val g * f32_val x \<le> 0" using x assms(5) by simp
  then have "fle (round_f32 s (- f32_val g * f32_val x)) (round_f32 False 0)" by (rule round_f32_mono)
  moreover have "fle (fneg g) (round_f32 s (- f32_val g * f32_val x))"
    using assms(3,4,5) x by (intro round_f32_ge) (simp_all add: mult_left_le)
  ultimately show ?thesis by (simp add: m round_f32_def)
qed

end
