(* ===== verification/Scrolling.thy ===== *)
theory Scrolling
  imports Shapes
begin

text \<open>
  \<open>src/app/widgets/scroll/\<close>: the panel whose content is scrolled by the wheel or by its scroller's
  handle (\<open>Scrollable.hpp\<close>, \<open>Scissorable\<close>, \<open>ScrollerHandle\<close>, \<open>Scroller\<close>, \<open>ScrollablePanel\<close>), and
  \<open>src/app/widgets/atomSelector/AtomSelectorGrid.hpp\<close>, the content. The panel keeps two animated
  positions, of the content and of the handle; the lemmas show that they stay in range and agree. What
  is uploaded to the graphics card is left out, and the scissor, which the code computes but does not use.
\<close>

datatype GrowableAxis = Width | Height

section \<open>Scrollable\<close>

definition getAxisFunction :: "StickTo \<Rightarrow> f32 \<Rightarrow> vector2" where
  "getAxisFunction parentStickness = (case parentStickness of
       StickLeft \<Rightarrow> y_axis | StickRight \<Rightarrow> y_axis | StickTop \<Rightarrow> x_axis | StickBottom \<Rightarrow> x_axis)"

definition getGrowableAxis :: "StickTo \<Rightarrow> GrowableAxis" where
  "getGrowableAxis parentStickness = (case parentStickness of
       StickLeft \<Rightarrow> Height | StickRight \<Rightarrow> Height | StickTop \<Rightarrow> Width | StickBottom \<Rightarrow> Width)"

record ('p, 'm) scrollable =
  scrollAnim :: "('p, f32) player_animator"
  scrllMatrix :: 'm
  axisFn :: "f32 \<Rightarrow> vector2"
  growableAxis :: GrowableAxis

text \<open>An animator as it is constructed; \<open>z\<close> is a default-constructed \<open>AnimType\<close>.\<close>

definition resting :: "'p \<Rightarrow> 'a \<Rightarrow> ('p, 'a) player_animator" where
  "resting idle z = \<lparr>animPlayer = idle, animState = \<lparr>animFrom = z, animTo = z, current = z, previous = z\<rparr>\<rparr>"

text \<open>\<open>State<float>\<close> has no initializer: its members start as \<open>junk\<close>.\<close>

definition scrollable_init :: "'m magnum \<Rightarrow> 'p \<Rightarrow> (nat \<Rightarrow> f32) \<Rightarrow> StickTo \<Rightarrow> ('p, 'm) scrollable" where
  "scrollable_init mg idle junk parentStickness =
     \<lparr>scrollAnim = \<lparr>animPlayer = idle, animState = \<lparr>animFrom = junk 0, animTo = junk 1, current = junk 2, previous = junk 3\<rparr>\<rparr>,
      scrllMatrix = identityMatrix mg, axisFn = getAxisFunction parentStickness, growableAxis = getGrowableAxis parentStickness\<rparr>"

definition extractScrollableSize :: "GrowableAxis \<Rightarrow> vector2 \<Rightarrow> f32" where
  "extractScrollableSize axis vect = (case axis of Width \<Rightarrow> vx vect | Height \<Rightarrow> vy vect)"

definition extractScrollableSize_px :: "GrowableAxis \<Rightarrow> int \<times> int \<Rightarrow> f32" where
  "extractScrollableSize_px axis vect = (case axis of Width \<Rightarrow> f32_of_int (fst vect) | Height \<Rightarrow> f32_of_int (snd vect))"

definition scrollTranslate :: "'m magnum \<Rightarrow> ('p, 'm, 'z) scrollable_scheme \<Rightarrow> f32 \<Rightarrow> 'm" where
  "scrollTranslate mg sc v = translation mg (axisFn sc v)"

definition animateScrollByTr :: "'p magnum_player \<Rightarrow> f32 \<Rightarrow> f32 \<Rightarrow> ('p, 'm, 'z) scrollable_scheme \<Rightarrow> ('p, 'm, 'z) scrollable_scheme" where
  "animateScrollByTr pl t tr sc =
     (let ca = current (animState (scrollAnim sc))
      in sc\<lparr>scrollAnim := fst (updateAnimationAndPlay pl t [] (f32_lit 0) ca tr (scrollAnim sc, ()))\<rparr>)"

definition scroll_onAnimationProgress :: "'m magnum \<Rightarrow> ('p, 'm, 'z) scrollable_scheme \<Rightarrow> ('p, 'm, 'z) scrollable_scheme" where
  "scroll_onAnimationProgress mg sc = sc\<lparr>scrllMatrix := scrollTranslate mg sc (current (animState (scrollAnim sc)))\<rparr>"

section \<open>Scissorable\<close>

record ('p, 'm) scissorable = "('p, 'm) scrollable" +
  translationFactor :: f32
  canvasSize :: f32
  contentSize :: f32

definition scrollTick :: f32 where "scrollTick = f32_lit 1"

definition scrollByContentSize :: "'m magnum \<Rightarrow> 'p magnum_player \<Rightarrow> f32 \<Rightarrow> f32 \<Rightarrow> bool \<Rightarrow> ('p, 'm, 'z) scissorable_scheme \<Rightarrow>
    f32 \<times> ('p, 'm, 'z) scissorable_scheme" where
  "scrollByContentSize mg pl t contentSizeTick animate c =
     (let c = c\<lparr>translationFactor := fadd (translationFactor c) contentSizeTick\<rparr>;
          maxTranslate = fsub (contentSize c) (canvasSize c);
          c = (if fless (translationFactor c) (f32_of_int 0) then c\<lparr>translationFactor := f32_of_int 0\<rparr>
               else if fless maxTranslate (translationFactor c) then c\<lparr>translationFactor := maxTranslate\<rparr>
               else c);
          c = (if animate then animateScrollByTr pl t (translationFactor c) c
               else
                 let c = c\<lparr>scrollAnim := setAnimationKeyframe pl (translationFactor c) (scrollAnim c)\<rparr>
                 in scroll_onAnimationProgress mg c)
      in (fdiv (translationFactor c) maxTranslate, c))"

definition scrollByOffset :: "'m magnum \<Rightarrow> 'p magnum_player \<Rightarrow> f32 \<Rightarrow> vector2 \<Rightarrow> ('p, 'm, 'z) scissorable_scheme \<Rightarrow>
    f32 \<times> ('p, 'm, 'z) scissorable_scheme" where
  "scrollByOffset mg pl t scrollOffset c =
     (let step = fmul (vy scrollOffset) scrollTick in scrollByContentSize mg pl t (fneg step) True c)"

definition scrollByPercentTick :: "'m magnum \<Rightarrow> 'p magnum_player \<Rightarrow> f32 \<Rightarrow> f32 \<Rightarrow> ('p, 'm, 'z) scissorable_scheme \<Rightarrow>
    f32 \<times> ('p, 'm, 'z) scissorable_scheme" where
  "scrollByPercentTick mg pl t prc c =
     (let step = fmul (fsub (contentSize c) (canvasSize c)) prc in scrollByContentSize mg pl t step False c)"

section \<open>AtomSelectorGrid\<close>

record ('p, 'm) grid = "('p, 'm) scissorable" +
  gridPlaced :: placed
  gridParent :: "'m option"
  gridVertices :: "(vector2 \<times> color4) list"

definition grid_matrix :: "'m magnum \<Rightarrow> ('p, 'm) grid \<Rightarrow> 'm" where
  "grid_matrix mg g = (case gridParent g of Some parentMatrix \<Rightarrow> mat_mult mg parentMatrix (scrllMatrix g) | None \<Rightarrow> identityMatrix mg)"

definition grid_updateGeometry :: "'m magnum \<Rightarrow> 'm view \<Rightarrow> ('p, 'm) grid \<Rightarrow> ('p, 'm) grid" where
  "grid_updateGeometry mg vw g = g\<lparr>gridPlaced := updateGeometry vw (grid_matrix mg g) (gridPlaced g)\<rparr>"

definition grid_matrixUpdateRequested :: "'m magnum \<Rightarrow> 'm view \<Rightarrow> 'm \<Rightarrow> ('p, 'm) grid \<Rightarrow> ('p, 'm) grid" where
  "grid_matrixUpdateRequested mg vw parentMatrix g = grid_updateGeometry mg vw (g\<lparr>gridParent := Some parentMatrix\<rparr>)"

definition scrollCanvasChanged :: "range2 \<Rightarrow> ('p, 'm, 'z) scissorable_scheme \<Rightarrow> ('p, 'm, 'z) scissorable_scheme" where
  "scrollCanvasChanged canvas c = c\<lparr>canvasSize := extractScrollableSize (growableAxis c) (range_size canvas)\<rparr>"

text \<open>\<open>_scrollContentChanged\<close> up to its call of the scroller, with the ratio it passes.\<close>

definition scrollContentChanged :: "range2 \<Rightarrow> ('p, 'm, 'z) scissorable_scheme \<Rightarrow> f32 \<times> ('p, 'm, 'z) scissorable_scheme" where
  "scrollContentChanged r c =
     (let c = c\<lparr>contentSize := extractScrollableSize (growableAxis c) (range_size r)\<rparr>
      in (fdiv (canvasSize c) (contentSize c), c))"

definition grid_availableSpaceChanged :: "'m magnum \<Rightarrow> 'm view \<Rightarrow> range2 \<Rightarrow> ('p, 'm) grid \<Rightarrow> f32 \<times> ('p, 'm) grid" where
  "grid_availableSpaceChanged mg vw availableSpace g =
     (let g = scrollCanvasChanged availableSpace g;
          availableSpace = (case growableAxis g of
              Width \<Rightarrow> availableSpace\<lparr>rmax := (rmax availableSpace)\<lparr>vx := fmul (vx (rmax availableSpace)) (f32_lit (15 / 2))\<rparr>\<rparr>
            | Height \<Rightarrow> availableSpace\<lparr>rmin := (rmin availableSpace)\<lparr>vy := fmul (vy (rmin availableSpace)) (f32_lit (15 / 2))\<rparr>\<rparr>);
          g = g\<lparr>gridPlaced := updateShape availableSpace (gridPlaced g)\<rparr>;
          r = shape (gridPlaced g);
          g = g\<lparr>gridVertices := [(rmin r, Rgbaf 0xFF000099), (bottomRight r, Rgbaf 0xFF000099),
                                (rmax r, Rgbaf 0x00FF0099), (topLeft r, Rgbaf 0x00FF0099)]\<rparr>;
          g = grid_updateGeometry mg vw g
      in scrollContentChanged availableSpace g)"

section \<open>ScrollerHandle\<close>

text \<open>The handle is a button as well, which \<open>EventRouting\<close> models; here is its position.\<close>

record ('p, 'm) scroller_handle = "('p, 'm) scrollable" +
  translationGap :: f32
  handlePlaced :: placed
  handleMatrix :: 'm
  handleParent :: "'m option"
  geomScrollerPx :: range2
  verticesScroller :: "vector2 list"

definition handle_updateGeometry :: "'m magnum \<Rightarrow> 'm view \<Rightarrow> 'm constraints \<Rightarrow> ('p, 'm) scroller_handle \<Rightarrow> ('p, 'm) scroller_handle" where
  "handle_updateGeometry mg vw con h =
     (let h = (case handleParent h of None \<Rightarrow> h | Some m \<Rightarrow> h\<lparr>handleMatrix := mat_mult mg m (scrllMatrix h)\<rparr>);
          h = h\<lparr>handlePlaced := updateGeometry vw (handleMatrix h) (handlePlaced h)\<rparr>
      in h\<lparr>geomScrollerPx := shapeIntoPixel con (geometry (handlePlaced h))\<rparr>)"

definition handle_onAnimationProgress :: "'m magnum \<Rightarrow> 'm view \<Rightarrow> 'm constraints \<Rightarrow> ('p, 'm) scroller_handle \<Rightarrow> ('p, 'm) scroller_handle" where
  "handle_onAnimationProgress mg vw con h = handle_updateGeometry mg vw con (scroll_onAnimationProgress mg h)"

definition handle_matrixUpdateRequested :: "'m magnum \<Rightarrow> 'm view \<Rightarrow> 'm constraints \<Rightarrow> 'm \<Rightarrow> ('p, 'm) scroller_handle \<Rightarrow> ('p, 'm) scroller_handle" where
  "handle_matrixUpdateRequested mg vw con m h = handle_updateGeometry mg vw con (h\<lparr>handleParent := Some m\<rparr>)"

definition handle_availableSpaceChanged :: "range2 \<Rightarrow> ('p, 'm) scroller_handle \<Rightarrow> ('p, 'm) scroller_handle" where
  "handle_availableSpaceChanged availableSpace h = h\<lparr>handlePlaced := updateShape availableSpace (handlePlaced h)\<rparr>"

definition animateByPercentage :: "'p magnum_player \<Rightarrow> f32 \<Rightarrow> f32 \<Rightarrow> ('p, 'm) scroller_handle \<Rightarrow> ('p, 'm) scroller_handle" where
  "animateByPercentage pl t percentTranslate h =
     (let tr = fmul (fneg (translationGap h)) percentTranslate in animateScrollByTr pl t tr h)"

definition inplaceByPercentage :: "'m magnum \<Rightarrow> 'm view \<Rightarrow> 'm constraints \<Rightarrow> 'p magnum_player \<Rightarrow> f32 \<Rightarrow>
    ('p, 'm) scroller_handle \<Rightarrow> ('p, 'm) scroller_handle" where
  "inplaceByPercentage mg vw con pl percentTranslate h =
     (let tr = fmul (fneg (translationGap h)) percentTranslate;
          h = h\<lparr>scrollAnim := setAnimationKeyframe pl tr (scrollAnim h)\<rparr>
      in handle_onAnimationProgress mg vw con h)"

definition updateSize :: "'m magnum \<Rightarrow> 'm view \<Rightarrow> 'm constraints \<Rightarrow> f32 \<Rightarrow> f32 \<Rightarrow> ('p, 'm) scroller_handle \<Rightarrow> ('p, 'm) scroller_handle" where
  "updateSize mg vw con handleSize trGap h =
     (let h = h\<lparr>translationGap := trGap\<rparr>;
          r = shape (handlePlaced h);
          r = (case growableAxis h of
                 Height \<Rightarrow> r\<lparr>rmin := (rmin r)\<lparr>vy := fsub (vy (rmax r)) handleSize\<rparr>\<rparr>
               | Width \<Rightarrow> r\<lparr>rmax := (rmax r)\<lparr>vx := fadd (vx (rmin r)) handleSize\<rparr>\<rparr>);
          h = h\<lparr>verticesScroller := corners r\<rparr>
      in handle_updateGeometry mg vw con (h\<lparr>handlePlaced := updateShape r (handlePlaced h)\<rparr>))"

section \<open>Scroller\<close>

record ('p, 'm) scroller =
  scStickness :: StickTo
  scMatrix :: 'm
  scPlaced :: placed
  geomPhPx :: range2
  handle :: "('p, 'm) scroller_handle"
  contentBigEnough :: bool
  verticesPh :: "vector2 list"

definition THICKNESS_PX :: f32 where "THICKNESS_PX = f32_lit 20"
definition PADDING_PX :: f32 where "PADDING_PX = f32_lit 10"

definition stickynessFromPanel :: "StickTo \<Rightarrow> StickTo" where
  "stickynessFromPanel st = (case st of
       StickLeft \<Rightarrow> StickRight | StickTop \<Rightarrow> StickBottom | StickRight \<Rightarrow> StickRight | StickBottom \<Rightarrow> StickBottom)"

definition scroller_updateGeometry :: "'m view \<Rightarrow> 'm constraints \<Rightarrow> ('p, 'm) scroller \<Rightarrow> ('p, 'm) scroller" where
  "scroller_updateGeometry vw con s =
     (let s = s\<lparr>scPlaced := updateGeometry vw (scMatrix s) (scPlaced s)\<rparr>
      in s\<lparr>geomPhPx := shapeIntoPixel con (geometry (scPlaced s))\<rparr>)"

definition scroller_matrixUpdateRequested :: "'m view \<Rightarrow> 'm constraints \<Rightarrow> 'm \<Rightarrow> ('p, 'm) scroller \<Rightarrow> ('p, 'm) scroller" where
  "scroller_matrixUpdateRequested vw con m s = scroller_updateGeometry vw con (s\<lparr>scMatrix := m\<rparr>)"

definition onContentRatioChanged :: "'m magnum \<Rightarrow> 'm view \<Rightarrow> 'm constraints \<Rightarrow> f32 \<Rightarrow> ('p, 'm) scroller \<Rightarrow> ('p, 'm) scroller" where
  "onContentRatioChanged mg vw con contentRatio s =
     (let size = range_size (shape (scPlaced s));
          phSize = (case scStickness s of
              StickLeft \<Rightarrow> vy size | StickRight \<Rightarrow> vy size | StickTop \<Rightarrow> vx size | StickBottom \<Rightarrow> vx size);
          s = s\<lparr>contentBigEnough := fless contentRatio (f32_lit 1)\<rparr>
      in if \<not> contentBigEnough s then s
         else
           let handleSize = fmul phSize contentRatio
           in s\<lparr>handle := updateSize mg vw con handleSize (fsub phSize handleSize) (handle s)\<rparr>)"

text \<open>The placeholder and what it leaves of the panel.\<close>

definition placeholder :: "'m constraints \<Rightarrow> StickTo \<Rightarrow> range2 \<Rightarrow> range2 \<times> range2" where
  "placeholder con stickness availableSpace =
     (let px = pixelSize con;
          size = fadd THICKNESS_PX (fmul PADDING_PX (f32_of_int 2));
          ph = availableSpace
      in case stickness of
           StickLeft \<Rightarrow>
             let ph = ph\<lparr>rmax := (rmax ph)\<lparr>vx := fadd (vx (rmin ph)) (fmul (vx px) size)\<rparr>\<rparr>
             in (ph, availableSpace\<lparr>rmin := (rmin availableSpace)\<lparr>vx := vx (rmax ph)\<rparr>\<rparr>)
         | StickTop \<Rightarrow>
             let ph = ph\<lparr>rmin := (rmin ph)\<lparr>vy := fsub (vy (rmax ph)) (fmul (vy px) size)\<rparr>\<rparr>
             in (ph, availableSpace\<lparr>rmax := (rmax availableSpace)\<lparr>vy := vy (rmin ph)\<rparr>\<rparr>)
         | StickRight \<Rightarrow>
             let ph = ph\<lparr>rmin := (rmin ph)\<lparr>vx := fsub (vx (rmax ph)) (fmul (vx px) size)\<rparr>\<rparr>
             in (ph, availableSpace\<lparr>rmax := (rmax availableSpace)\<lparr>vx := vx (rmin ph)\<rparr>\<rparr>)
         | StickBottom \<Rightarrow>
             let ph = ph\<lparr>rmax := (rmax ph)\<lparr>vy := fadd (vy (rmin ph)) (fmul (vy px) size)\<rparr>\<rparr>
             in (ph, availableSpace\<lparr>rmin := (rmin availableSpace)\<lparr>vy := vy (rmax ph)\<rparr>\<rparr>))"

definition scroller_availableSpaceChanged :: "'m view \<Rightarrow> 'm constraints \<Rightarrow> range2 \<Rightarrow> ('p, 'm) scroller \<Rightarrow> range2 \<times> ('p, 'm) scroller" where
  "scroller_availableSpaceChanged vw con availableSpace s =
     (let (ph, availableSpace) = placeholder con (scStickness s) availableSpace;
          px = pixelSize con;
          s = s\<lparr>scPlaced := updateShape
                (range_padded \<lparr>vx = fneg (fmul (vx px) PADDING_PX), vy = fneg (fmul (vy px) PADDING_PX)\<rparr> ph) (scPlaced s)\<rparr>;
          r = shape (scPlaced s);
          s = s\<lparr>verticesPh := [rmin r, topLeft r, rmax r, bottomRight r]\<rparr>
      in (availableSpace, scroller_updateGeometry vw con s))"

section \<open>ScrollablePanel\<close>

record ('p, 'm) panel =
  stickness :: StickTo
  thickness :: f32
  panelAnim :: "('p, vector2) player_animator"
  panelMatrix :: 'm
  panelToggled :: bool
  panelPlaced :: placed
  setupDone :: bool
  panelVertices :: "vector2 list"
  scroller :: "('p, 'm) scroller"
  content :: "('p, 'm) grid"

definition collapsedTransform :: "('p, 'm) panel \<Rightarrow> vector2" where
  "collapsedTransform p = (case stickness p of
       StickLeft \<Rightarrow> \<lparr>vx = fneg (thickness p), vy = f32_lit 0\<rparr>
     | StickTop \<Rightarrow> \<lparr>vx = f32_lit 0, vy = thickness p\<rparr>
     | StickRight \<Rightarrow> \<lparr>vx = thickness p, vy = f32_lit 0\<rparr>
     | StickBottom \<Rightarrow> \<lparr>vx = f32_lit 0, vy = fneg (thickness p)\<rparr>)"

definition definePanelPosition :: "'m magnum \<Rightarrow> vector2 \<Rightarrow> ('p, 'm) panel \<Rightarrow> ('p, 'm) panel" where
  "definePanelPosition mg pos p = p\<lparr>panelMatrix := translation mg pos\<rparr>"

text \<open>The panel after its constructor and the constructor of the grid that binds itself to it.\<close>

definition handle_init :: "'m magnum \<Rightarrow> 'p \<Rightarrow> (nat \<Rightarrow> f32) \<Rightarrow> StickTo \<Rightarrow> ('p, 'm) scroller_handle" where
  "handle_init mg idle junk st = scrollable.extend (scrollable_init mg idle junk st)
     \<lparr>translationGap = f32_lit 0, handlePlaced = unplaced, handleMatrix = identityMatrix mg, handleParent = None, geomScrollerPx = no_range,
      verticesScroller = replicate 4 vzero\<rparr>"

text \<open>The canvas and content sizes have no initializer either.\<close>

definition panel_init :: "'m magnum \<Rightarrow> 'p \<Rightarrow> (nat \<Rightarrow> f32) \<Rightarrow> StickTo \<Rightarrow> f32 \<Rightarrow> ('p, 'm) panel" where
  "panel_init mg idle junk st th =
     (let scst = stickynessFromPanel st;
          p = \<lparr>stickness = st, thickness = th, panelAnim = resting idle vzero, panelMatrix = identityMatrix mg, panelToggled = False,
               panelPlaced = unplaced, setupDone = False, panelVertices = [],
               scroller = \<lparr>scStickness = scst, scMatrix = identityMatrix mg, scPlaced = unplaced, geomPhPx = no_range,
                           handle = handle_init mg idle junk scst, contentBigEnough = False,
                           verticesPh = replicate 4 vzero\<rparr>,
               content = scrollable.extend (scrollable_init mg idle (\<lambda>i. junk (4 + i)) st)
                 \<lparr>translationFactor = f32_lit 0, canvasSize = junk 8, contentSize = junk 9, gridPlaced = unplaced, gridParent = None,
                  gridVertices = replicate 4 (vzero, NoColor)\<rparr>\<rparr>
      in definePanelPosition mg (collapsedTransform p) p)"

definition panel_updateGeometry :: "'m view \<Rightarrow> ('p, 'm) panel \<Rightarrow> ('p, 'm) panel" where
  "panel_updateGeometry vw p = p\<lparr>panelPlaced := updateGeometry vw (panelMatrix p) (panelPlaced p)\<rparr>"

definition panel_shape :: "StickTo \<Rightarrow> f32 \<Rightarrow> range2 \<Rightarrow> range2" where
  "panel_shape st th masterShape = (case st of
       StickLeft \<Rightarrow> \<lparr>rmin = rmin masterShape, rmax = \<lparr>vx = fadd (vx (rmin masterShape)) th, vy = vy (rmax masterShape)\<rparr>\<rparr>
     | StickTop \<Rightarrow> \<lparr>rmin = \<lparr>vx = vx (rmin masterShape), vy = fsub (vy (rmax masterShape)) th\<rparr>, rmax = rmax masterShape\<rparr>
     | StickRight \<Rightarrow> \<lparr>rmin = \<lparr>vx = fsub (vx (rmax masterShape)) th, vy = vy (rmin masterShape)\<rparr>, rmax = rmax masterShape\<rparr>
     | StickBottom \<Rightarrow> \<lparr>rmin = rmin masterShape, rmax = \<lparr>vx = vx (rmax masterShape), vy = fadd (vy (rmin masterShape)) th\<rparr>\<rparr>)"

definition panel_availableSpaceChanged :: "range2 \<Rightarrow> ('p, 'm) panel \<Rightarrow> ('p, 'm) panel" where
  "panel_availableSpaceChanged availableSpace p =
     (if setupDone p then p
      else
        let p = p\<lparr>panelPlaced := updateShape (panel_shape (stickness p) (thickness p) availableSpace) (panelPlaced p)\<rparr>
        in p\<lparr>panelVertices := corners (shape (panelPlaced p)), setupDone := True\<rparr>)"

text \<open>\<open>onViewportChange\<close>: the panel's own shape, then the scroller and in it the handle, then the grid, each
  with the space the one before it left; the grid tells the scroller the new ratio.\<close>

definition panel_onViewportChange :: "'m magnum \<Rightarrow> 'm view \<Rightarrow> 'm constraints \<Rightarrow> range2 \<Rightarrow> ('p, 'm) panel \<Rightarrow> ('p, 'm) panel" where
  "panel_onViewportChange mg vw con shapeAllowedSpace p =
     (let p = panel_availableSpaceChanged shapeAllowedSpace p;
          space = shape (panelPlaced p);
          (space, s) = scroller_availableSpaceChanged vw con space (scroller p);
          s = s\<lparr>handle := handle_availableSpaceChanged (shape (scPlaced s)) (handle s)\<rparr>;
          (contentRatio, g) = grid_availableSpaceChanged mg vw space (content p);
          s = onContentRatioChanged mg vw con contentRatio s
      in panel_updateGeometry vw (p\<lparr>scroller := s, content := g\<rparr>))"

definition panel_propagateMatrixChanges :: "'m magnum \<Rightarrow> 'm view \<Rightarrow> 'm constraints \<Rightarrow> ('p, 'm) panel \<Rightarrow> ('p, 'm) panel" where
  "panel_propagateMatrixChanges mg vw con p =
     (let p = panel_updateGeometry vw p;
          m = panelMatrix p;
          s = scroller_matrixUpdateRequested vw con m (scroller p);
          s = s\<lparr>handle := handle_matrixUpdateRequested mg vw con m (handle s)\<rparr>
      in p\<lparr>scroller := s, content := grid_matrixUpdateRequested mg vw m (content p)\<rparr>)"

definition panel_onAnimationProgress :: "'m magnum \<Rightarrow> 'm view \<Rightarrow> 'm constraints \<Rightarrow> ('p, 'm) panel \<Rightarrow> ('p, 'm) panel" where
  "panel_onAnimationProgress mg vw con p =
     panel_propagateMatrixChanges mg vw con (definePanelPosition mg (current (animState (panelAnim p))) p)"

definition panel_onToggled :: "'p magnum_player \<Rightarrow> f32 \<Rightarrow> bool \<Rightarrow> ('p, 'm) panel \<Rightarrow> ('p, 'm) panel" where
  "panel_onToggled pl t isToggled p =
     (if isToggled
      then p\<lparr>panelAnim := fst (updateAnimationAndPlay pl t [] vzero (collapsedTransform p) vzero (panelAnim p, ()))\<rparr>
      else p\<lparr>panelAnim := fst (updateAnimationAndPlay pl t [] vzero vzero (collapsedTransform p) (panelAnim p, ()))\<rparr>)"

definition panel_toggle :: "'p magnum_player \<Rightarrow> f32 \<Rightarrow> ('p, 'm) panel \<Rightarrow> ('p, 'm) panel" where
  "panel_toggle pl t p =
     (let p = p\<lparr>panelToggled := \<not> panelToggled p\<rparr> in panel_onToggled pl t (panelToggled p) p)"

definition panel_handleScrollEvent :: "'m magnum \<Rightarrow> 'p magnum_player \<Rightarrow> f32 \<Rightarrow> vector2 \<Rightarrow> ('p, 'm) panel \<Rightarrow> ('p, 'm) panel" where
  "panel_handleScrollEvent mg pl t scrollOffset p =
     (let (prc, c) = scrollByOffset mg pl t scrollOffset (content p);
          s = scroller p
      in p\<lparr>content := c, scroller := s\<lparr>handle := animateByPercentage pl t prc (handle s)\<rparr>\<rparr>)"

definition scrollFromHandle :: "'m magnum \<Rightarrow> 'm view \<Rightarrow> 'm constraints \<Rightarrow> 'p magnum_player \<Rightarrow> f32 \<Rightarrow> f32 \<Rightarrow> ('p, 'm) panel \<Rightarrow> ('p, 'm) panel" where
  "scrollFromHandle mg vw con pl t prcHandleTick p =
     (let (prc, c) = scrollByPercentTick mg pl t prcHandleTick (content p);
          s = scroller p
      in p\<lparr>content := c, scroller := s\<lparr>handle := inplaceByPercentage mg vw con pl prc (handle s)\<rparr>\<rparr>)"

text \<open>The handle's \<open>handleLockMoveEvent\<close>, which calls back into its panel.\<close>

definition handle_handleLockMoveEvent :: "'m magnum \<Rightarrow> 'm view \<Rightarrow> 'm constraints \<Rightarrow> 'p magnum_player \<Rightarrow> f32 \<Rightarrow> int \<times> int \<Rightarrow>
    ('p, 'm) panel \<Rightarrow> ('p, 'm) panel" where
  "handle_handleLockMoveEvent mg vw con pl t relativePosition p =
     (let axis = growableAxis (handle (scroller p));
          pixelSizeMove = extractScrollableSize_px axis relativePosition
      in if \<not> f32_true pixelSizeMove then p
         else
           let scrollPixelSize = extractScrollableSize axis (pixelSize con);
               tickSize = fmul (fmul pixelSizeMove scrollPixelSize) (f32_lit 2);
               prcHandleTick = fdiv tickSize (translationGap (handle (scroller p)))
           in scrollFromHandle mg vw con pl t prcHandleTick p)"

section \<open>Frames\<close>

text \<open>One frame of the three animators, in the order they were constructed.\<close>

definition panel_advance :: "'m magnum \<Rightarrow> 'm view \<Rightarrow> 'm constraints \<Rightarrow> 'p magnum_player \<Rightarrow> f32 \<Rightarrow> ('p, 'm) panel \<Rightarrow> ('p, 'm) panel" where
  "panel_advance mg vw con pl t p =
     (let (a, p) = player_advance pl (defaultAnimationCallback (lerp2 mg) (cubicOut mg))
            (\<lambda>a p. panel_onAnimationProgress mg vw con (p\<lparr>panelAnim := a\<rparr>)) t (panelAnim p, p)
      in p\<lparr>panelAnim := a\<rparr>)"

definition handle_advance :: "'m magnum \<Rightarrow> 'm view \<Rightarrow> 'm constraints \<Rightarrow> 'p magnum_player \<Rightarrow> f32 \<Rightarrow>
    ('p, 'm) scroller_handle \<Rightarrow> ('p, 'm) scroller_handle" where
  "handle_advance mg vw con pl t h =
     (let (a, h) = player_advance pl (defaultAnimationCallback (lerp mg) (cubicOut mg))
            (\<lambda>a h. handle_onAnimationProgress mg vw con (h\<lparr>scrollAnim := a\<rparr>)) t (scrollAnim h, h)
      in h\<lparr>scrollAnim := a\<rparr>)"

definition grid_advance :: "'m magnum \<Rightarrow> 'p magnum_player \<Rightarrow> f32 \<Rightarrow> ('p, 'm) grid \<Rightarrow> ('p, 'm) grid" where
  "grid_advance mg pl t g =
     (let (a, g) = player_advance pl (defaultAnimationCallback (lerp mg) (cubicOut mg))
            (\<lambda>a g. scroll_onAnimationProgress mg (g\<lparr>scrollAnim := a\<rparr>)) t (scrollAnim g, g)
      in g\<lparr>scrollAnim := a\<rparr>)"

definition panel_frame :: "'m magnum \<Rightarrow> 'm view \<Rightarrow> 'm constraints \<Rightarrow> 'p magnum_player \<Rightarrow> f32 \<Rightarrow> ('p, 'm) panel \<Rightarrow> ('p, 'm) panel" where
  "panel_frame mg vw con pl t p =
     (let p = panel_advance mg vw con pl t p;
          p = p\<lparr>scroller := (scroller p)\<lparr>handle := handle_advance mg vw con pl t (handle (scroller p))\<rparr>\<rparr>
      in p\<lparr>content := grid_advance mg pl t (content p)\<rparr>)"

datatype panel_input = Wheel f32 vector2 | DragHandle f32 "int \<times> int" | Toggle f32 | PanelFrame f32

fun panel_exec :: "'m magnum \<Rightarrow> 'm view \<Rightarrow> 'm constraints \<Rightarrow> 'p magnum_player \<Rightarrow> panel_input \<Rightarrow> ('p, 'm) panel \<Rightarrow> ('p, 'm) panel" where
  "panel_exec mg vw con pl (Wheel t scrollOffset) p = panel_handleScrollEvent mg pl t scrollOffset p"
| "panel_exec mg vw con pl (DragHandle t relativePosition) p = handle_handleLockMoveEvent mg vw con pl t relativePosition p"
| "panel_exec mg vw con pl (Toggle t) p = panel_toggle pl t p"
| "panel_exec mg vw con pl (PanelFrame t) p = panel_frame mg vw con pl t p"

section \<open>The two positions stay in range and agree\<close>

definition travel :: "('p, 'm, 'z) scissorable_scheme \<Rightarrow> f32" where
  "travel c = fsub (contentSize c) (canvasSize c)"

definition scroll_target :: "('p, 'm, 'z) scrollable_scheme \<Rightarrow> f32" where
  "scroll_target sc = animTo (animState (scrollAnim sc))"

definition gap :: "('p, 'm) panel \<Rightarrow> f32" where
  "gap p = translationGap (handle (scroller p))"

text \<open>The content has moved by the factor, between nothing and all there is to move; the handle is on its
  way to the same part of its gap, downwards.\<close>

definition in_range :: "('p, 'm) panel \<Rightarrow> bool" where
  "in_range p \<longleftrightarrow> fle (f32_lit 0) (translationFactor (content p)) \<and> fle (translationFactor (content p)) (travel (content p))"

definition in_sync :: "('p, 'm) panel \<Rightarrow> bool" where
  "in_sync p \<longleftrightarrow> in_range p
     \<and> feq (scroll_target (content p)) (translationFactor (content p))
     \<and> feq (scroll_target (handle (scroller p)))
           (fmul (fneg (gap p)) (fdiv (translationFactor (content p)) (travel (content p))))"

lemma feq_refl: "x \<noteq> NaN \<Longrightarrow> feq x x"
  by (simp add: feq_def fle_refl)

lemma scroll_target_simps [simp]:
  "scroll_target (animateScrollByTr pl t tr sc) = tr"
  "scroll_target (sc\<lparr>scrollAnim := setAnimationKeyframe pl tr a\<rparr>) = tr"
  "scroll_target (scroll_onAnimationProgress mg sc) = scroll_target sc"
  "scroll_target (handle_onAnimationProgress mg vw con h) = scroll_target h"
  "translationGap (animateScrollByTr pl t tr h) = translationGap h"
  "translationGap (handle_onAnimationProgress mg vw con h) = translationGap h"
  by (simp_all add: scroll_target_def animateScrollByTr_def updateAnimationAndPlay_def player_startAnim_def setAnimationKeyframe_def
      scroll_onAnimationProgress_def handle_onAnimationProgress_def handle_updateGeometry_def Let_def split: option.split)

lemma scissorable_simps [simp]:
  "translationFactor (animateScrollByTr pl t tr c) = translationFactor c"
  "travel (animateScrollByTr pl t tr c) = travel c"
  "translationFactor (scroll_onAnimationProgress mg c) = translationFactor c"
  "travel (scroll_onAnimationProgress mg c) = travel c"
  "travel (c\<lparr>translationFactor := x\<rparr>) = travel c"
  "travel (c\<lparr>translationFactor := x, scrollAnim := a\<rparr>) = travel c"
  by (simp_all add: travel_def animateScrollByTr_def scroll_onAnimationProgress_def Let_def)

lemma scrollByContentSize_ok:
  assumes "travel c = Num q" and "0 < q" and "fle (Zero False) (translationFactor c)" and "fle (translationFactor c) (Num q)"
    and "tick \<noteq> NaN"
  shows "case scrollByContentSize mg pl t tick animate c of (prc, c') \<Rightarrow>
      fle (Zero False) (translationFactor c') \<and> fle (translationFactor c') (Num q) \<and> travel c' = Num q
      \<and> scroll_target c' = translationFactor c' \<and> prc = fdiv (translationFactor c') (Num q)"
proof -
  have fin: "finite_f32 (translationFactor c)" using assms(3,4) by (cases "translationFactor c") (auto simp: fle_def)
  let ?x = "fadd (translationFactor c) tick"
  let ?y = "if fless ?x (Zero False) then Zero False else if fless (Num q) ?x then Num q else ?x"
  have "?x \<noteq> NaN" using fin assms(5) by (cases "translationFactor c"; cases tick) auto
  then have y: "fle (Zero False) ?y" "fle ?y (Num q)" using assms(2) by (auto simp: fle_def)
  have m: "fsub (contentSize c) (canvasSize c) = Num q" using assms(1) by (simp add: travel_def)
  have "scrollByContentSize mg pl t tick animate c =
      (fdiv ?y (Num q),
       if animate then animateScrollByTr pl t ?y (c\<lparr>translationFactor := ?y\<rparr>)
       else scroll_onAnimationProgress mg (c\<lparr>translationFactor := ?y, scrollAnim := setAnimationKeyframe pl ?y (scrollAnim c)\<rparr>))"
    by (simp add: scrollByContentSize_def m Let_def del: fdiv.simps)
  then show ?thesis using y assms(1) by (simp del: fdiv.simps)
qed

lemma in_sync_scrolled:
  assumes "travel (content p) = Num q" and "0 < q" and "in_range p" and "tick \<noteq> NaN"
    and "scrollByContentSize mg pl t tick animate (content p) = (prc, c)"
    and "scroll_target h = fmul (fneg (gap p)) prc" and "translationGap h = gap p" and "finite_f32 (gap p)"
  shows "in_range (p\<lparr>content := c, scroller := (scroller p)\<lparr>handle := h\<rparr>\<rparr>)
    \<and> in_sync (p\<lparr>content := c, scroller := (scroller p)\<lparr>handle := h\<rparr>\<rparr>) \<and> travel c = Num q"
proof -
  have "fle (Zero False) (translationFactor (content p))" "fle (translationFactor (content p)) (Num q)"
    using assms(1,3) by (simp_all add: in_range_def)
  from scrollByContentSize_ok [OF assms(1,2) this assms(4), of mg pl t animate]
  have c: "fle (Zero False) (translationFactor c)" "fle (translationFactor c) (Num q)" "travel c = Num q"
    "scroll_target c = translationFactor c" "prc = fdiv (translationFactor c) (Num q)"
    by (simp_all add: assms(5))
  have "finite_f32 prc"
    using fdiv_unit [OF c(1,2) assms(2)] fle_between_finite [of "Zero False" prc "f32_lit 1"] by (simp add: c(5) f32_lit_1)
  then have "fmul (fneg (gap p)) prc \<noteq> NaN" using fmul_finite [of "fneg (gap p)" prc] assms(8) by (metis fneg_ok(2) round_f32_not_NaN)
  then have "feq (scroll_target h) (fmul (fneg (gap p)) (fdiv (translationFactor c) (Num q)))"
    by (simp add: assms(6) c(5) feq_refl del: fdiv.simps)
  moreover have "feq (translationFactor c) (translationFactor c)" using c(1) by (intro feq_refl) (auto simp: fle_def)
  ultimately show ?thesis using c assms(7) by (simp add: in_sync_def in_range_def gap_def del: fdiv.simps)
qed

lemma frame_simps [simp]:
  "scroll_target (handle_advance mg vw con pl t h) = scroll_target h"
  "translationGap (handle_advance mg vw con pl t h) = translationGap h"
  "scroll_target (grid_advance mg pl t g) = scroll_target g"
  "translationFactor (grid_advance mg pl t g) = translationFactor g"
  "travel (grid_advance mg pl t g) = travel g"
  by (simp_all add: handle_advance_def grid_advance_def player_advance_def scroll_target_def defaultAnimationCallback_def travel_def
      handle_onAnimationProgress_def handle_updateGeometry_def scroll_onAnimationProgress_def split_beta Let_def split: option.split)

text \<open>What moving the panel itself keeps.\<close>

definition keeps_scroll :: "('p, 'm) panel \<Rightarrow> ('p, 'm) panel \<Rightarrow> bool" where
  "keeps_scroll p p' \<longleftrightarrow> travel (content p') = travel (content p) \<and> translationFactor (content p') = translationFactor (content p)
     \<and> scroll_target (content p') = scroll_target (content p)
     \<and> scroll_target (handle (scroller p')) = scroll_target (handle (scroller p)) \<and> gap p' = gap p
     \<and> growableAxis (handle (scroller p')) = growableAxis (handle (scroller p))"

lemma keeps_sync:
  "keeps_scroll p p' \<Longrightarrow> in_range p' = in_range p \<and> in_sync p' = in_sync p \<and> travel (content p') = travel (content p) \<and> gap p' = gap p
     \<and> growableAxis (handle (scroller p')) = growableAxis (handle (scroller p))"
  by (simp add: keeps_scroll_def in_sync_def in_range_def)

lemma keeps_matrix: "keeps_scroll p (panel_propagateMatrixChanges mg vw con (definePanelPosition mg pos p))"
  by (simp add: keeps_scroll_def panel_propagateMatrixChanges_def definePanelPosition_def gap_def travel_def scroll_target_def
      panel_updateGeometry_def scroller_matrixUpdateRequested_def scroller_updateGeometry_def handle_matrixUpdateRequested_def
      handle_updateGeometry_def grid_matrixUpdateRequested_def grid_updateGeometry_def Let_def)

lemma keeps_anim: "keeps_scroll (p\<lparr>panelAnim := a\<rparr>) p' = keeps_scroll p p'" "keeps_scroll p (p'\<lparr>panelAnim := a\<rparr>) = keeps_scroll p p'"
    "keeps_scroll p p"
  by (simp_all add: keeps_scroll_def gap_def)

lemma keeps_advance: "keeps_scroll p (panel_advance mg vw con pl t p)"
proof -
  have "keeps_scroll (p\<lparr>panelAnim := a\<rparr>) (panel_onAnimationProgress mg vw con (p\<lparr>panelAnim := a\<rparr>))" for a
    unfolding panel_onAnimationProgress_def by (rule keeps_matrix)
  then show ?thesis by (simp add: panel_advance_def player_advance_def keeps_anim split_beta Let_def split: option.split)
qed

lemma keeps_frame: "keeps_scroll p (panel_frame mg vw con pl t p)"
  using keeps_advance [of p mg vw con pl t]
  by (simp add: keeps_scroll_def panel_frame_def gap_def Let_def) (simp add: handle_advance_def player_advance_def split_beta Let_def
      handle_onAnimationProgress_def handle_updateGeometry_def scroll_onAnimationProgress_def split: option.split)

lemma keeps_toggle: "keeps_scroll p (panel_toggle pl t p)"
  by (simp add: keeps_scroll_def panel_toggle_def panel_onToggled_def gap_def Let_def)

section \<open>Every input keeps them so\<close>

lemma nonzero_times_not_NaN: "x \<noteq> NaN \<Longrightarrow> f32_true x \<Longrightarrow> fless (Zero s) y \<Longrightarrow> fmul x y \<noteq> NaN"
  by (cases x; cases y) (auto simp: f32_true_def)

lemma not_NaN_Num: "x \<noteq> NaN \<Longrightarrow> q \<noteq> 0 \<Longrightarrow> fmul x (Num q) \<noteq> NaN \<and> fdiv x (Num q) \<noteq> NaN \<and> fmul (Num q) x \<noteq> NaN"
  by (cases x) auto

lemma fneg_NaN [simp]: "fneg x = NaN \<longleftrightarrow> x = NaN"
  by (cases x) auto

lemma handle_moves:
  "scroll_target (animateByPercentage pl t prc h) = fmul (fneg (translationGap h)) prc"
  "translationGap (animateByPercentage pl t prc h) = translationGap h"
  "growableAxis (animateByPercentage pl t prc h) = growableAxis h"
  "scroll_target (inplaceByPercentage mg vw con pl prc h) = fmul (fneg (translationGap h)) prc"
  "translationGap (inplaceByPercentage mg vw con pl prc h) = translationGap h"
  "growableAxis (inplaceByPercentage mg vw con pl prc h) = growableAxis h"
  by (simp_all add: animateByPercentage_def inplaceByPercentage_def)
    (simp_all add: animateScrollByTr_def handle_onAnimationProgress_def handle_updateGeometry_def scroll_onAnimationProgress_def Let_def
      split: option.split)

definition offset_ok :: "panel_input \<Rightarrow> bool" where
  "offset_ok i = (case i of Wheel t scrollOffset \<Rightarrow> vy scrollOffset \<noteq> NaN | _ \<Rightarrow> True)"

text \<open>A laid out panel: there is something to scroll, and room for the handle to move.\<close>

definition scrolls :: "'m constraints \<Rightarrow> ('p, 'm) panel \<Rightarrow> bool" where
  "scrolls con p \<longleftrightarrow> fless (f32_lit 0) (travel (content p)) \<and> finite_f32 (travel (content p))
     \<and> fless (f32_lit 0) (gap p) \<and> finite_f32 (gap p)
     \<and> fless (f32_lit 0) (extractScrollableSize (growableAxis (handle (scroller p))) (pixelSize con))"

text \<open>The inputs that scroll.\<close>

definition moves_content :: "GrowableAxis \<Rightarrow> panel_input \<Rightarrow> bool" where
  "moves_content axis i = (case i of
       Wheel t scrollOffset \<Rightarrow> True
     | DragHandle t relativePosition \<Rightarrow> f32_true (extractScrollableSize_px axis relativePosition)
     | _ \<Rightarrow> False)"

lemma panel_exec_sync:
  assumes "travel (content p) = Num q" "0 < q" "gap p = Num g" "0 < g" "in_range p" "offset_ok i"
    and "fless (f32_lit 0) (extractScrollableSize (growableAxis (handle (scroller p))) (pixelSize con))"
  shows "in_range (panel_exec mg vw con pl i p)
     \<and> (in_sync p \<or> moves_content (growableAxis (handle (scroller p))) i \<longrightarrow> in_sync (panel_exec mg vw con pl i p))
     \<and> travel (content (panel_exec mg vw con pl i p)) = Num q
     \<and> gap (panel_exec mg vw con pl i p) = Num g
     \<and> growableAxis (handle (scroller (panel_exec mg vw con pl i p))) = growableAxis (handle (scroller p))"
proof (cases i)
  case (Wheel t scrollOffset)
  let ?tick = "fneg (fmul (vy scrollOffset) scrollTick)"
  obtain prc c where s: "scrollByContentSize mg pl t ?tick True (content p) = (prc, c)" by fastforce
  have "?tick \<noteq> NaN" using assms(6) Wheel not_NaN_Num by (simp add: offset_ok_def scrollTick_def f32_lit_1)
  from in_sync_scrolled [OF assms(1,2,5) this s, of "animateByPercentage pl t prc (handle (scroller p))"]
  show ?thesis using assms(3)
    by (simp add: Wheel panel_handleScrollEvent_def scrollByOffset_def s gap_def handle_moves Let_def)
next
  case (DragHandle t relativePosition)
  let ?h = "handle (scroller p)"
  let ?m = "extractScrollableSize_px (growableAxis ?h) relativePosition"
  let ?s = "extractScrollableSize (growableAxis ?h) (pixelSize con)"
  let ?prc = "fdiv (fmul (fmul ?m ?s) (f32_lit 2)) (translationGap ?h)"
  show ?thesis
  proof (cases "f32_true ?m")
    case True
    have "?m \<noteq> NaN" by (simp add: extractScrollableSize_px_def split: GrowableAxis.split)
    then have "fmul ?m ?s \<noteq> NaN" using True assms(7) nonzero_times_not_NaN by (metis f32_of_int_0(2))
    moreover have "f32_lit 2 = Num 2" by code_simp
    ultimately have "fmul (fmul ?m ?s) (f32_lit 2) \<noteq> NaN" using not_NaN_Num by simp
    then have "?prc \<noteq> NaN" using not_NaN_Num assms(3,4) by (simp add: gap_def)
    then have tick: "fmul (fsub (contentSize (content p)) (canvasSize (content p))) ?prc \<noteq> NaN"
      using not_NaN_Num assms(1,2) by (simp add: travel_def)
    obtain prc c where s: "scrollByContentSize mg pl t (fmul (fsub (contentSize (content p)) (canvasSize (content p))) ?prc) False
        (content p) = (prc, c)" by fastforce
    have "handle_handleLockMoveEvent mg vw con pl t relativePosition p =
        p\<lparr>content := c, scroller := (scroller p)\<lparr>handle := inplaceByPercentage mg vw con pl prc ?h\<rparr>\<rparr>"
      using True by (simp add: handle_handleLockMoveEvent_def scrollFromHandle_def scrollByPercentTick_def s Let_def)
    with in_sync_scrolled [OF assms(1,2,5) tick s, of "inplaceByPercentage mg vw con pl prc ?h"]
    show ?thesis using assms(3) by (simp add: DragHandle gap_def handle_moves)
  next
    case False
    then show ?thesis using assms(1,3,5) by (simp add: DragHandle handle_handleLockMoveEvent_def moves_content_def Let_def)
  qed
next
  case (Toggle t)
  then show ?thesis using keeps_sync [OF keeps_toggle [of p pl t]] assms(1,3,5) by (simp add: moves_content_def)
next
  case (PanelFrame t)
  then show ?thesis using keeps_sync [OF keeps_frame [of p mg vw con pl t]] assms(1,3,5) by (simp add: moves_content_def)
qed

lemma panel_run_sync:
  assumes "travel (content p) = Num q" "0 < q" "gap p = Num g" "0 < g" "in_range p" "list_all offset_ok is"
    and "fless (f32_lit 0) (extractScrollableSize (growableAxis (handle (scroller p))) (pixelSize con))"
  shows "in_range (fold (panel_exec mg vw con pl) is p)
     \<and> (in_sync p \<or> list_ex (moves_content (growableAxis (handle (scroller p)))) is \<longrightarrow> in_sync (fold (panel_exec mg vw con pl) is p))
     \<and> travel (content (fold (panel_exec mg vw con pl) is p)) = Num q
     \<and> gap (fold (panel_exec mg vw con pl) is p) = Num g
     \<and> growableAxis (handle (scroller (fold (panel_exec mg vw con pl) is p))) = growableAxis (handle (scroller p))"
  using assms(1,3,5,6,7)
proof (induction "is" arbitrary: p)
  case (Cons i "is")
  from Cons.prems have "offset_ok i" "list_all offset_ok is" by simp_all
  with panel_exec_sync [OF Cons.prems(1) assms(2) Cons.prems(2) assms(4) Cons.prems(3), of i con mg vw pl] Cons.prems(5)
    Cons.IH [of "panel_exec mg vw con pl i p"]
  show ?case by auto
qed simp

lemma scrolls_Num:
  assumes "scrolls con p"
  shows "\<exists>q g. travel (content p) = Num q \<and> 0 < q \<and> gap p = Num g \<and> 0 < g"
  using assms by (cases "travel (content p)"; cases "gap p") (auto simp: scrolls_def)

lemma fresh_range:
  assumes "scrolls con p" and "translationFactor (content p) = Zero False"
  shows "in_range p"
proof -
  obtain q g where "travel (content p) = Num q" "0 < q" using scrolls_Num [OF assms(1)] by blast
  then show ?thesis using assms(2) by (auto simp: in_range_def fle_def)
qed

lemma layout_grid:
  "scroll_target (snd (grid_availableSpaceChanged mg vw space g)) = scroll_target g"
  "translationFactor (snd (grid_availableSpaceChanged mg vw space g)) = translationFactor g"
  by (simp_all add: grid_availableSpaceChanged_def scrollContentChanged_def scrollCanvasChanged_def grid_updateGeometry_def
      scroll_target_def Let_def)

lemma layout_scroller:
  "handle (snd (scroller_availableSpaceChanged vw con space s)) = handle s"
  "scroll_target (handle_availableSpaceChanged space' h) = scroll_target h"
  "scroll_target (updateSize mg vw con hs tg h) = scroll_target h"
  "scroll_target (handle (onContentRatioChanged mg vw con r s)) = scroll_target (handle s)"
  by (simp_all add: scroller_availableSpaceChanged_def scroller_updateGeometry_def handle_availableSpaceChanged_def
      updateSize_def handle_updateGeometry_def scroll_target_def onContentRatioChanged_def split_beta Let_def split: option.split)

lemma panel_layout:
  "content (panel_onViewportChange mg vw con space p) =
     snd (grid_availableSpaceChanged mg vw (fst (scroller_availableSpaceChanged vw con
       (shape (panelPlaced (panel_availableSpaceChanged space p))) (scroller (panel_availableSpaceChanged space p))))
       (content (panel_availableSpaceChanged space p)))"
  "scroll_target (handle (scroller (panel_onViewportChange mg vw con space p))) = scroll_target (handle (scroller p))"
  by (simp_all add: panel_onViewportChange_def panel_updateGeometry_def layout_scroller split_beta Let_def)
    (simp add: panel_availableSpaceChanged_def)

lemma panel_available [simp]:
  "content (panel_availableSpaceChanged space p) = content p" "scroller (panel_availableSpaceChanged space p) = scroller p"
  by (simp_all add: panel_availableSpaceChanged_def)

lemma panel_init_parts:
  "content (panel_init mg idle junk st th) = scrollable.extend (scrollable_init mg idle (\<lambda>i. junk (4 + i)) st)
     \<lparr>translationFactor = f32_lit 0, canvasSize = junk 8, contentSize = junk 9, gridPlaced = unplaced, gridParent = None,
                  gridVertices = replicate 4 (vzero, NoColor)\<rparr>"
  "handle (scroller (panel_init mg idle junk st th)) = handle_init mg idle junk (stickynessFromPanel st)"
  by (simp_all add: panel_init_def definePanelPosition_def Let_def del: f32_of_int_0)

lemma layout_at_start:
  "translationFactor (content (panel_onViewportChange mg vw con space (panel_init mg idle junk st th))) = Zero False"
  unfolding panel_layout layout_grid panel_available panel_init_parts
  by (simp add: scrollable.extend_def)

lemma ratio_gap: "f32_ok (translationGap (handle s)) \<Longrightarrow> f32_ok (translationGap (handle (onContentRatioChanged mg vw con r s)))"
  by (simp add: onContentRatioChanged_def updateSize_def handle_updateGeometry_def Let_def split: option.split)

lemma layout_gap_ok: "f32_ok (gap (panel_onViewportChange mg vw con space (panel_init mg idle junk st th)))"
proof -
  have "f32_ok (translationGap (handle (scroller (panel_init mg idle junk st th))))"
    by (simp add: panel_init_parts handle_init_def scrollable.extend_def)
  then show ?thesis
    unfolding panel_onViewportChange_def gap_def panel_updateGeometry_def Let_def split_beta
    by (simp add: ratio_gap layout_scroller handle_availableSpaceChanged_def)
qed

text \<open>C33: A panel laid out in a window, whose content is bigger than its canvas: whatever the wheel, drags of
  the handle, toggles and frames do to it, the content is never scrolled past its ends; and once it has
  been scrolled, the handle's target is the same part of its way as the content's, and lies between its
  ends.\<close>

theorem panel_in_sync:
  assumes "p = fold (panel_exec mg vw con pl) is (panel_onViewportChange mg vw con space (panel_init mg idle junk st th))"
    and "scrolls con (panel_onViewportChange mg vw con space (panel_init mg idle junk st th))" and "list_all offset_ok is"
  shows "in_range p
    \<and> (list_ex (moves_content (growableAxis (handle (scroller p)))) is \<longrightarrow>
       in_sync p \<and> fle (fneg (gap p)) (scroll_target (handle (scroller p))) \<and> fle (scroll_target (handle (scroller p))) (f32_lit 0))"
proof -
  let ?p = "panel_onViewportChange mg vw con space (panel_init mg idle junk st th)"
  obtain q g where q: "travel (content ?p) = Num q" "0 < q" "gap ?p = Num g" "0 < g" using scrolls_Num [OF assms(2)] by blast
  have "in_range ?p" using assms(2) layout_at_start by (rule fresh_range)
  moreover have "fless (f32_lit 0) (extractScrollableSize (growableAxis (handle (scroller ?p))) (pixelSize con))"
    using assms(2) by (simp add: scrolls_def)
  ultimately have "in_range p \<and> (list_ex (moves_content (growableAxis (handle (scroller ?p)))) is \<longrightarrow> in_sync p)
      \<and> travel (content p) = Num q \<and> gap p = Num g \<and> growableAxis (handle (scroller p)) = growableAxis (handle (scroller ?p))"
    using panel_run_sync [OF q _ assms(3), where mg = mg and vw = vw and con = con and pl = pl] unfolding assms(1) by blast
  then have p: "in_range p" "travel (content p) = Num q" "gap p = Num g"
    "list_ex (moves_content (growableAxis (handle (scroller p)))) is \<Longrightarrow> in_sync p" by simp_all
  let ?part = "fdiv (translationFactor (content p)) (Num q)"
  have "fle (Zero False) ?part" "fle ?part (f32_lit 1)"
    using p(1) fdiv_unit [of "translationFactor (content p)" q] q(2) by (simp_all add: in_range_def p(2) del: fdiv.simps)
  moreover have "f32_ok (Num g)" using layout_gap_ok [of mg vw con space idle junk st th] by (simp add: q(3))
  ultimately have le: "fle (fneg (Num g)) (fmul (fneg (Num g)) ?part)" "fle (fmul (fneg (Num g)) ?part) (Zero False)"
    using fmul_part [of ?part "Num g"] q(4) by (simp_all del: fmul.simps fneg.simps fdiv.simps)
  have "feq (scroll_target (handle (scroller p))) (fmul (fneg (Num g)) ?part)" if "in_sync p"
    using that by (simp add: in_sync_def p(2,3) del: fmul.simps fneg.simps fdiv.simps)
  then show ?thesis using p(1,4) le fle_trans by (auto simp: p(3) feq_def simp del: fmul.simps fneg.simps fdiv.simps)
qed

end
