(* ===== verification/PanelLayout.thy ===== *)
theory PanelLayout
  imports Scrolling
begin

text \<open>
  The panel as \<open>src/app/USApplication.h\<close> has it, on the left, laid out in a window: the sizes its layout
  computes in \<open>float\<close>, for every height of the window, and the inputs that leave content and handle out
  of step.
\<close>

text \<open>A stand-in for the projection and the point transform, for \<open>plain_magnum\<close>. A range is closed below and
  open above, as in Magnum.\<close>

definition plain_contains :: "range2 \<Rightarrow> vector2 \<Rightarrow> bool" where
  "plain_contains r v \<longleftrightarrow>
     fle (vx (rmin r)) (vx v) \<and> fle (vy (rmin r)) (vy v) \<and> fless (vx v) (vx (rmax r)) \<and> fless (vy v) (vy (rmax r))"

definition plain_view :: "(vector2 \<times> vector2) view" where
  "plain_view = \<lparr>projection = (\<lambda>v. (vzero, vdiv (vscalar (f32_lit 2)) v)), transformPoint = (\<lambda>(t, s) v. vadd t (vmul s v)),
     rangeContains = plain_contains\<rparr>"

text \<open>The application's panel, in a window of 1280 by 720 pixels.\<close>

definition whole_window :: range2 where
  "whole_window = \<lparr>rmin = vscalar (f32_lit (- 1)), rmax = vscalar (f32_lit 1)\<rparr>"

definition us_panel :: "int \<times> int \<Rightarrow> (nat, vector2 \<times> vector2) panel" where
  "us_panel windowSize = panel_onViewportChange plain_magnum plain_view (constraints_of plain_view windowSize) whole_window
     (panel_init plain_magnum 0 (\<lambda>_. NaN) StickLeft (f32_lit (3 / 5)))"

lemma grid_layout:
  assumes "growableAxis g = Height"
  shows "travel (snd (grid_availableSpaceChanged mg vw space g)) =
      fsub (fsub (vy (rmax space)) (fmul (vy (rmin space)) (f32_lit (15 / 2)))) (fsub (vy (rmax space)) (vy (rmin space)))"
    and "fst (grid_availableSpaceChanged mg vw space g) =
      fdiv (fsub (vy (rmax space)) (vy (rmin space))) (fsub (vy (rmax space)) (fmul (vy (rmin space)) (f32_lit (15 / 2))))"
  using assms
  by (simp_all add: grid_availableSpaceChanged_def scrollCanvasChanged_def scrollContentChanged_def grid_updateGeometry_def
      extractScrollableSize_def range_size_def vsub_def travel_def Let_def)

lemma scroller_layout:
  assumes "scStickness s = StickRight"
  shows "vy (rmin (fst (scroller_availableSpaceChanged vw con space s))) = vy (rmin space)"
    and "vy (rmax (fst (scroller_availableSpaceChanged vw con space s))) = vy (rmax space)"
    and "vy (rmin (shape (scPlaced (snd (scroller_availableSpaceChanged vw con space s))))) =
      fsub (vy (rmin space)) (fneg (fmul (vy (pixelSize con)) PADDING_PX))"
    and "vy (rmax (shape (scPlaced (snd (scroller_availableSpaceChanged vw con space s))))) =
      fadd (vy (rmax space)) (fneg (fmul (vy (pixelSize con)) PADDING_PX))"
    and "scStickness (snd (scroller_availableSpaceChanged vw con space s)) = StickRight"
  using assms
  by (simp_all add: scroller_availableSpaceChanged_def placeholder_def scroller_updateGeometry_def updateShape_def updateGeometry_def
      range_padded_def vsub_def vadd_def Let_def)

lemma ratio_layout:
  assumes "scStickness s = StickRight"
  shows "translationGap (handle (onContentRatioChanged mg vw con r s)) =
     (let ph = vy (range_size (shape (scPlaced s)))
      in if fless r (f32_lit 1) then fsub ph (fmul ph r) else translationGap (handle s))"
    and "growableAxis (handle (onContentRatioChanged mg vw con r s)) = growableAxis (handle s)"
  using assms
  by (simp_all add: onContentRatioChanged_def updateSize_def handle_updateGeometry_def Let_def split: option.split)

text \<open>The length of the placeholder, and what is left of it by a handle for \<open>2 / 8.5\<close> of the content.\<close>

definition placeholder_length :: "f32 \<Rightarrow> f32" where
  "placeholder_length px =
     (let pad = fneg (fmul px PADDING_PX) in fsub (fadd (f32_lit 1) pad) (fsub (f32_lit (- 1)) pad))"

lemma first_shape:
  "scStickness (scroller (panel_init mg idle junk st th)) = stickynessFromPanel st"
  "shape (panelPlaced (panel_availableSpaceChanged space (panel_init mg idle junk st th))) = panel_shape st th space"
  by (simp_all add: panel_availableSpaceChanged_def updateShape_def panel_init_def definePanelPosition_def Let_def del: f32_of_int_0)

lemma left_shape:
  "vy (rmin (panel_shape StickLeft th space)) = vy (rmin space)" "vy (rmax (panel_shape StickLeft th space)) = vy (rmax space)"
  "stickynessFromPanel StickLeft = StickRight" "getGrowableAxis StickLeft = Height" "getGrowableAxis StickRight = Height"
  by (simp_all add: panel_shape_def stickynessFromPanel_def getGrowableAxis_def)

definition left_gap :: "f32 \<Rightarrow> f32 \<Rightarrow> f32" where
  "left_gap px old =
     (let ph = placeholder_length px;
          r = fdiv (fsub (f32_lit 1) (f32_lit (- 1))) (fsub (f32_lit 1) (fmul (f32_lit (- 1)) (f32_lit (15 / 2))))
      in if fless r (f32_lit 1) then fsub ph (fmul ph r) else old)"

lemma layout_gap:
  assumes "growableAxis (content p) = Height" and "scStickness (scroller p) = StickRight"
    and "vy (rmin (shape (panelPlaced (panel_availableSpaceChanged space p)))) = f32_lit (- 1)"
    and "vy (rmax (shape (panelPlaced (panel_availableSpaceChanged space p)))) = f32_lit 1"
  shows "gap (panel_onViewportChange mg vw con space p) = left_gap (vy (pixelSize con)) (gap p)"
  by (simp add: panel_onViewportChange_def gap_def panel_updateGeometry_def grid_layout scroller_layout ratio_layout assms split_beta Let_def
      layout_scroller handle_availableSpaceChanged_def placeholder_length_def range_size_def vsub_def left_gap_def)

lemma us_panel_layout:
  "travel (content (us_panel w)) = fsub (fsub (f32_lit 1) (fmul (f32_lit (- 1)) (f32_lit (15 / 2)))) (fsub (f32_lit 1) (f32_lit (- 1)))"
  "gap (us_panel w) = left_gap (vy (pixelSize (constraints_of plain_view w))) (f32_lit 0)"
  "growableAxis (handle (scroller (us_panel w))) = Height"
proof -
  show "gap (us_panel w) = left_gap (vy (pixelSize (constraints_of plain_view w))) (f32_lit 0)"
    unfolding us_panel_def
    by (subst layout_gap)
      (simp_all add: panel_init_parts scrollable.extend_def scrollable_init_def first_shape left_shape whole_window_def vscalar_def
        gap_def handle_init_def del: f32_of_int_0)
qed (simp_all add: us_panel_def panel_layout panel_onViewportChange_def panel_updateGeometry_def
    grid_layout scroller_layout ratio_layout split_beta Let_def panel_init_parts scrollable.extend_def scrollable_init_def
    first_shape left_shape handle_init_def layout_scroller handle_availableSpaceChanged_def whole_window_def vscalar_def del: f32_of_int_0)

section \<open>The application's panel scrolls\<close>

text \<open>The panel's numbers: the length of the placeholder falls with the size of a pixel.\<close>

lemma panel_numbers:
  "fsub (f32_lit 1) (f32_lit (- 1)) = Num 2"
  "fsub (f32_lit 1) (fmul (f32_lit (- 1)) (f32_lit (15 / 2))) = Num (17 / 2)"
  "fsub (Num (17 / 2)) (Num 2) = Num (13 / 2)"
  "fle (fdiv (Num 2) (Num (17 / 2))) (Num (1 / 4))" "fle (Num (1 / 8)) (fdiv (Num 2) (Num (17 / 2)))"
  "PADDING_PX = Num 10" "f32_lit 1 = Num 1" "f32_lit (- 1) = Num (- 1)"
  "fle (fmul (fdiv (Num 1) (f32_of_int 11)) (Num 10)) (Num (15 / 16))"
  by code_simp+

lemma fmul_le_mono:
  assumes "finite_f32 x" "finite_f32 x'" "finite_f32 y" "finite_f32 y'" "0 \<le> f32_val x" "0 \<le> f32_val y" "fle x x'" "fle y y'"
  shows "fle (fmul x y) (fmul x' y')"
proof -
  obtain s t where "fmul x y = round_f32 s (f32_val x * f32_val y)" "fmul x' y' = round_f32 t (f32_val x' * f32_val y')"
    using fmul_finite assms(1-4) by meson
  moreover have "f32_val x * f32_val y \<le> f32_val x' * f32_val y'"
    using assms by (simp add: fle_finite mult_mono)
  ultimately show ?thesis by (simp add: round_f32_mono)
qed

lemma pixel_small:
  assumes "11 \<le> h" and "h \<le> 2 ^ 24"
  shows "fle (Num (2 powi (- 24))) (fdiv (Num 1) (f32_of_int h)) \<and> fle (fmul (fdiv (Num 1) (f32_of_int h)) (Num 10)) (Num (15 / 16))"
proof -
  have m: "fle (f32_of_int 11) (f32_of_int h)" "fle (f32_of_int h) (f32_of_int (2 ^ 24))"
    unfolding f32_of_int_def using assms by (simp_all only: round_f32_mono of_int_le_iff)
  have c: "f32_of_int 11 = Num 11" "f32_of_int (2 ^ 24) = Num (2 ^ 24)" by code_simp+
  obtain q where q: "f32_of_int h = Num q" "11 \<le> q" "q \<le> 2 ^ 24"
    using m unfolding c by (cases "f32_of_int h") (auto simp: fle_def)
  have d: "fdiv (Num 1) (Num a) = round_f32 (a < 0) (1 / a)" for a by simp
  have i: "1 / q \<le> 1 / 11" "1 / 2 ^ 24 \<le> 1 / q" using q(2,3) by (simp_all add: frac_le)
  have le: "fle (round_f32 (q < 0) (1 / q)) (round_f32 (11 < (0 :: rat)) (1 / 11))" using i(1) by (rule round_f32_mono)
  have "fle (round_f32 False (1 / 2 ^ 24)) (round_f32 (q < 0) (1 / q))" using i(2) by (rule round_f32_mono)
  moreover have "round_f32 False (1 / 2 ^ 24) = Num (2 powi (- 24))" by code_simp
  ultimately have lo: "fle (Num (2 powi (- 24))) (fdiv (Num 1) (Num q))" by (simp only: d)
  have n11: "finite_f32 (fdiv (Num 1) (Num 11))" by code_simp
  have "fle (fdiv (Num 1) (Num q)) (fdiv (Num 1) (Num 11))" using le by (simp only: d)
  moreover have "finite_f32 (fdiv (Num 1) (Num q))" using lo calculation n11 fle_between_finite by (metis finite_f32.simps(4))
  moreover have "0 \<le> f32_val (fdiv (Num 1) (Num q))"
    using lo calculation(2) by (simp add: fle_finite power_int_minus del: fdiv.simps) 
  ultimately have "fle (fmul (fdiv (Num 1) (Num q)) (Num 10)) (fmul (fdiv (Num 1) (Num 11)) (Num 10))"
    using n11 by (intro fmul_le_mono) (simp_all add: fle_refl del: fdiv.simps)
  with panel_numbers(9) have "fle (fmul (fdiv (Num 1) (Num q)) (Num 10)) (Num (15 / 16))"
    unfolding c using fle_trans by blast
  with lo show ?thesis unfolding q(1) by blast
qed

lemma fneg_le: "fle x y \<Longrightarrow> fle (fneg y) (fneg x)"
  by (cases x; cases y) (auto simp: fle_def)

lemma fsub_le_mono:
  assumes "finite_f32 x" "finite_f32 x'" "finite_f32 y" "finite_f32 y'" "fle x x'" "fle y' y"
  shows "fle (fsub x y) (fsub x' y')"
  unfolding fsub_def using assms by (intro fadd_le_mono) (simp_all add: fneg_le)

lemma placeholder_range:
  assumes "fle (Zero False) (fmul px (Num 10))" and "fle (fmul px (Num 10)) (Num (15 / 16))"
  shows "fle (Num (1 / 8)) (placeholder_length px) \<and> fle (placeholder_length px) (Num 2)"
proof -
  let ?p = "fmul px (Num 10)"
  have fin: "finite_f32 ?p" using fle_between_finite [OF assms] by simp
  have n: "fadd (Num 1) (fneg (Num (15 / 16))) = Num (1 / 16)" "fadd (Num 1) (fneg (Zero False)) = Num 1"
    "fsub (Num (- 1)) (fneg (Num (15 / 16))) = Num (- 1 / 16)" "fsub (Num (- 1)) (fneg (Zero False)) = Num (- 1)"
    "fsub (Num (1 / 16)) (Num (- 1 / 16)) = Num (1 / 8)" "fsub (Num 1) (Num (- 1)) = Num 2" by code_simp+
  have f0: "finite_f32 (fneg ?p)" "finite_f32 (fneg (Num (15 / 16)))" "finite_f32 (fneg (Zero False))"
    "fle (fneg ?p) (fneg (Zero False))" "fle (fneg (Num (15 / 16))) (fneg ?p)" "finite_f32 (Num a)" "fle (Num a) (Num a)" for a
    using fneg_le [OF assms(1)] fneg_le [OF assms(2)] fin by (simp_all add: fle_refl)
  have "fle (fadd (Num 1) (fneg (Num (15 / 16)))) (fadd (Num 1) (fneg ?p))"
    "fle (fadd (Num 1) (fneg ?p)) (fadd (Num 1) (fneg (Zero False)))"
    by (rule fadd_le_mono; rule f0)+
  then have hi: "fle (Num (1 / 16)) (fadd (Num 1) (fneg ?p))" "fle (fadd (Num 1) (fneg ?p)) (Num 1)" by (simp_all only: n)
  have "fle (fsub (Num (- 1)) (fneg (Zero False))) (fsub (Num (- 1)) (fneg ?p))"
    "fle (fsub (Num (- 1)) (fneg ?p)) (fsub (Num (- 1)) (fneg (Num (15 / 16))))"
    by (rule fsub_le_mono; rule f0)+
  then have lo: "fle (Num (- 1)) (fsub (Num (- 1)) (fneg ?p))" "fle (fsub (Num (- 1)) (fneg ?p)) (Num (- 1 / 16))" by (simp_all only: n)
  have f: "finite_f32 (fadd (Num 1) (fneg ?p))" "finite_f32 (fsub (Num (- 1)) (fneg ?p))"
    using fle_between_finite [OF hi] fle_between_finite [OF lo] by simp_all
  have "fle (fsub (Num (1 / 16)) (Num (- 1 / 16))) (fsub (fadd (Num 1) (fneg ?p)) (fsub (Num (- 1)) (fneg ?p)))"
    "fle (fsub (fadd (Num 1) (fneg ?p)) (fsub (Num (- 1)) (fneg ?p))) (fsub (Num 1) (Num (- 1)))"
    by (rule fsub_le_mono; use f hi lo in simp)+
  then show ?thesis by (simp only: placeholder_length_def panel_numbers Let_def n)
qed

text \<open>A handle for at most a quarter of the content leaves something of its placeholder.\<close>

lemma gap_positive:
  assumes "f32_ok ph" and "fle (Num (1 / 8)) ph" and "fle ph (Num 2)" and "fle (Num (1 / 8)) r" and "fle r (Num (1 / 4))"
  shows "fless (Zero False) (fsub ph (fmul ph r)) \<and> finite_f32 (fsub ph (fmul ph r))"
proof -
  have fin: "finite_f32 ph" "finite_f32 r" using fle_between_finite [OF assms(2,3)] fle_between_finite [OF assms(4,5)] by simp_all
  let ?v = "f32_val ph" and ?r = "f32_val r"
  have v: "1 / 8 \<le> ?v" "?v \<le> 2" "1 / 8 \<le> ?r" "?r \<le> 1 / 4" using assms fin by (simp_all add: fle_finite)
  obtain s where m: "fmul ph r = round_f32 s (?v * ?r)" using fmul_finite [OF fin] by blast
  have prod: "0 \<le> ?v * ?r" "?v * ?r \<le> ?v * (1 / 4)" using v by (simp_all add: mult_left_mono)
  have ok: "f32_ok (Num (1 / 16))" "f32_ok (Num (1 / 8))" "f32_ok (Num (1 / 4))" "f32_ok (Num (1 / 2))" by code_simp+
  have "\<exists>b\<in>{1 / 8, 1 / 4, 1 / 2, 1 :: rat}. b \<le> ?v \<and> ?v \<le> 2 * b" using v by (simp; linarith)
  then obtain b where b: "b \<in> {1 / 8, 1 / 4, 1 / 2, 1 :: rat}" "b \<le> ?v" "?v \<le> 2 * b" by blast
  have "b / 2 = 1 / 16 \<or> b / 2 = 1 / 8 \<or> b / 2 = 1 / 4 \<or> b / 2 = 1 / 2" using b(1) by auto
  then have "f32_ok (Num (b / 2))" by (elim disjE) (simp_all only: ok)
  moreover have "?v * ?r \<le> b / 2" using prod b(3) by simp
  ultimately have x: "fle (fmul ph r) (Num (b / 2))" unfolding m by (intro round_f32_le) simp_all
  have "fle (round_f32 False 0) (fmul ph r)" unfolding m using prod(1) by (rule round_f32_mono)
  then have x0: "fle (Zero False) (fmul ph r)" by (simp add: round_f32_def)
  have fx: "finite_f32 (fmul ph r)" using fle_between_finite [OF x0 x] by simp
  have xv: "0 \<le> f32_val (fmul ph r)" "f32_val (fmul ph r) \<le> b / 2" using x x0 fx by (simp_all add: fle_finite)
  have le: "fle (fsub ph (fmul ph r)) ph" using fin(1) assms(1) fx xv(1) by (rule fsub_nonneg_le)
  obtain t where t: "fsub ph (fmul ph r) = round_f32 t (?v - f32_val (fmul ph r))"
    using fadd_finite [of ph "fneg (fmul ph r)"] fin fx by (auto simp: fsub_def)
  have "fle (round_f32 False (1 / 16)) (round_f32 t (?v - f32_val (fmul ph r)))"
    using b xv(2) by (intro round_f32_mono) auto
  moreover have "round_f32 False (1 / 16) = Num (1 / 16)" by code_simp
  ultimately have ge: "fle (Num (1 / 16)) (fsub ph (fmul ph r))" by (simp only: t)
  have "finite_f32 (fsub ph (fmul ph r))" using fle_between_finite [OF ge le] fin by simp
  with ge show ?thesis by (auto simp: fle_finite fless_finite)
qed

lemma us_panel_gap:
  assumes "11 \<le> snd w" and "snd w \<le> 2 ^ 24"
  shows "fless (Zero False) (gap (us_panel w)) \<and> finite_f32 (gap (us_panel w))"
    and "fless (Zero False) (vy (pixelSize (constraints_of plain_view w)))"
proof -
  let ?px = "fdiv (Num 1) (f32_of_int (snd w))"
  let ?r = "fdiv (Num 2) (Num (17 / 2))"
  have px: "vy (pixelSize (constraints_of plain_view w)) = ?px"
    by (simp add: constraints_of_def vdiv_def vscalar_def vector2_of_px_def panel_numbers Let_def)
  have small: "fle (Num (2 powi (- 24))) ?px" "fle (fmul ?px (Num 10)) (Num (15 / 16))" using pixel_small [OF assms] by blast+
  have pos: "fless (Zero False) ?px" using small(1) by (cases ?px) (auto simp: fle_def power_int_minus)
  then show "fless (Zero False) (vy (pixelSize (constraints_of plain_view w)))" by (simp only: px)
  from pos have "fle (Zero False) (fmul ?px (Num 10))"
  proof (cases ?px)
    case (Num q)
    with pos have "fle (round_f32 False 0) (round_f32 (q < 0) (q * 10))" by (intro round_f32_mono) simp
    then show ?thesis unfolding Num by (simp add: round_f32_def)
  qed (auto simp: fle_def)
  with small(2) have ph: "fle (Num (1 / 8)) (placeholder_length ?px)" "fle (placeholder_length ?px) (Num 2)"
    using placeholder_range by blast+
  have "f32_ok (placeholder_length ?px)" by (simp add: placeholder_length_def Let_def)
  from gap_positive [OF this ph panel_numbers(5,4)]
  have "fless (Zero False) (fsub (placeholder_length ?px) (fmul (placeholder_length ?px) ?r))
      \<and> finite_f32 (fsub (placeholder_length ?px) (fmul (placeholder_length ?px) ?r))" .
  moreover have "fless ?r (Num 1)" by code_simp
  ultimately show "fless (Zero False) (gap (us_panel w)) \<and> finite_f32 (gap (us_panel w))"
    unfolding us_panel_layout left_gap_def panel_numbers(1,2) px Let_def by (simp add: panel_numbers del: fdiv.simps)
qed

lemma us_panel_travel: "travel (content (us_panel w)) = Num (13 / 2)" "f32_lit (13 / 2) = Num (13 / 2)"
  unfolding us_panel_layout panel_numbers(1-3) by (rule refl) code_simp

text \<open>In every window between 11 and \<open>2 ^ 24\<close> pixels high the application's panel has room for its
  handle, and its content can be scrolled by 6.5, so that it always stays in sync.\<close>

theorem us_panel_scrolls:
  assumes "11 \<le> snd w" and "snd w \<le> 2 ^ 24"
  shows "scrolls (constraints_of plain_view w) (us_panel w) \<and> travel (content (us_panel w)) = f32_lit (13 / 2)"
  using us_panel_gap [OF assms] by (simp add: scrolls_def us_panel_travel us_panel_layout(3) extractScrollableSize_def)

theorem us_panel_scrolls_witness: "scrolls (constraints_of plain_view (1280, 720)) (us_panel (1280, 720))"
  using us_panel_scrolls [of "(1280, 720)"] by simp

text \<open>The same, for the proofs that rest on it.\<close>

lemma us_panel_scrolls_720: "scrolls (constraints_of plain_view (1280, 720)) (us_panel (1280, 720))"
  using us_panel_gap [of "(1280, 720)"]
  by (simp add: scrolls_def us_panel_travel us_panel_layout(3) extractScrollableSize_def)

theorem panel_in_sync_witness:
  "in_sync (fold (panel_exec plain_magnum plain_view (constraints_of plain_view (1280, 720)) (countdown_player 3))
     [Wheel (f32_lit 0) (y_axis (f32_lit (- 3))), PanelFrame (f32_lit (1 / 10)), DragHandle (f32_lit 1) (0, 700), Toggle (f32_lit 1)]
     (us_panel (1280, 720)))"
proof -
  have "list_all offset_ok [Wheel (f32_lit 0) (y_axis (f32_lit (- 3))), PanelFrame (f32_lit (1 / 10)), DragHandle (f32_lit 1) (0, 700),
      Toggle (f32_lit 1)]"
    by (simp add: offset_ok_def y_axis_def)
  moreover have "list_ex (moves_content axis) (Wheel t offset # rest)" for axis t offset rest by (simp add: moves_content_def)
  ultimately show ?thesis
    using panel_in_sync [OF refl us_panel_scrolls_720 [unfolded us_panel_def], where pl = "countdown_player 3"]
    unfolding us_panel_def by blast
qed

section \<open>Where they do not\<close>

text \<open>A second wheel event before the next frame: \<open>current\<close> was reset when the first started its
  animation, so the content jumps to the top and moves from there.\<close>

theorem wheel_twice_jumps_to_top:
  "animFrom (animState (scrollAnim (content (panel_handleScrollEvent mg pl t' scrollOffset'
     (panel_handleScrollEvent mg pl t scrollOffset p))))) = f32_lit 0"
  by (simp add: panel_handleScrollEvent_def scrollByOffset_def scrollByContentSize_def animateScrollByTr_def
      updateAnimationAndPlay_def player_startAnim_def startAnim_def split_beta Let_def)

text \<open>The first wheel event starts its animation from a value that was never set.\<close>

theorem first_wheel_from_junk:
  "animFrom (animState (scrollAnim (content (panel_handleScrollEvent mg pl t scrollOffset
     (panel_onViewportChange mg vw con space (panel_init mg idle junk st th)))))) = junk 6"
proof -
  have g: "scrollAnim (snd (grid_availableSpaceChanged mg vw r g)) = scrollAnim g" for r and g :: "('a, 'b) grid"
    by (simp add: grid_availableSpaceChanged_def scrollContentChanged_def scrollCanvasChanged_def grid_updateGeometry_def Let_def)
  have "scrollAnim (content (panel_onViewportChange mg vw con space (panel_init mg idle junk st th))) =
      scrollAnim (scrollable_init mg idle (\<lambda>i. junk (4 + i)) st)"
    unfolding panel_layout g by (simp add: panel_init_parts scrollable.extend_def)
  then show ?thesis
    by (simp add: panel_handleScrollEvent_def scrollByOffset_def scrollByContentSize_def animateScrollByTr_def
        updateAnimationAndPlay_def player_startAnim_def startAnim_def scrollable_init_def split_beta Let_def)
qed

text \<open>Content as big as its canvas: the part scrolled is \<open>0 / 0\<close>, and so is where the handle goes.\<close>

theorem scroll_without_travel:
  assumes "travel (content p) = Zero False" and "translationFactor (content p) = Zero False" and "vy scrollOffset \<noteq> NaN"
  shows "scroll_target (handle (scroller (panel_handleScrollEvent mg pl t scrollOffset p))) = NaN"
proof -
  let ?tick = "fneg (fmul (vy scrollOffset) scrollTick)"
  have "?tick \<noteq> NaN" using assms(3) not_NaN_Num by (simp add: scrollTick_def f32_lit_1)
  then have nan: "fadd (Zero False) ?tick \<noteq> NaN" by (cases ?tick) auto
  have m: "fsub (contentSize (content p)) (canvasSize (content p)) = Zero False" using assms(1) by (simp add: travel_def)
  have z: "fdiv (Zero False) (Zero False) = NaN" by simp
  have "fdiv (if fless (fadd (Zero False) ?tick) (Zero False) then Zero False
      else if fless (Zero False) (fadd (Zero False) ?tick) then Zero False else fadd (Zero False) ?tick) (Zero False) = NaN"
    using nan fadd_ok [of "Zero False" ?tick] by (cases "fadd (Zero False) ?tick") auto
  then have "fst (scrollByContentSize mg pl t ?tick True (content p)) = NaN"
    by (simp add: scrollByContentSize_def assms(2) m z Let_def del: fdiv.simps split: if_splits)
  moreover have "fmul x NaN = NaN" for x by (cases x) simp_all
  ultimately show ?thesis
    by (simp add: panel_handleScrollEvent_def scrollByOffset_def split_beta handle_moves Let_def)
qed

theorem scroll_without_travel_witness:
  "scroll_target (handle (scroller (panel_handleScrollEvent plain_magnum (countdown_player 3) (f32_lit 0) (y_axis (f32_lit 1))
     (panel_init plain_magnum 0 (\<lambda>_. f32_lit 2) StickLeft (f32_lit (3 / 5)))))) = NaN"
proof (rule scroll_without_travel)
  have "fsub (f32_lit 2) (f32_lit 2) = Zero False" by code_simp
  then show "travel (content (panel_init plain_magnum (0 :: nat) (\<lambda>_. f32_lit 2) StickLeft (f32_lit (3 / 5)))) = Zero False"
    by (simp add: panel_init_parts travel_def scrollable.extend_def)
qed (simp_all add: panel_init_parts scrollable.extend_def y_axis_def)

text \<open>A resize gives the handle a new gap but leaves its target: the panel scrolled to its end in a window
  of 720 pixels, made 100 pixels high, has its handle past the end of the placeholder.\<close>

definition scrolled_down :: "(nat, vector2 \<times> vector2) panel" where
  "scrolled_down = panel_handleScrollEvent plain_magnum (countdown_player 3) (f32_lit 0) (y_axis (f32_lit (- 7))) (us_panel (1280, 720))"

definition resized :: "(nat, vector2 \<times> vector2) panel" where
  "resized = panel_onViewportChange plain_magnum plain_view (constraints_of plain_view (1280, 100)) whole_window scrolled_down"

text \<open>Down is where the handle's gap ends.\<close>

lemma scrolled_down_parts:
  "translationFactor (content scrolled_down) = Num (13 / 2)"
  "scroll_target (handle (scroller scrolled_down)) = fmul (fneg (gap (us_panel (1280, 720)))) (Num 1)"
  "panelPlaced scrolled_down = panelPlaced (us_panel (1280, 720))" "setupDone scrolled_down = setupDone (us_panel (1280, 720))"
  "growableAxis (content scrolled_down) = growableAxis (content (us_panel (1280, 720)))"
  "scStickness (scroller scrolled_down) = scStickness (scroller (us_panel (1280, 720)))"
proof -
  have f: "translationFactor (content (us_panel (1280, 720))) = Zero False"
    unfolding us_panel_def by (rule layout_at_start)
  have t: "fsub (contentSize (content (us_panel (1280, 720)))) (canvasSize (content (us_panel (1280, 720)))) = Num (13 / 2)"
    using us_panel_travel(1) [of "(1280, 720)"] by (simp add: travel_def)
  have n: "fadd (Zero False) (fneg (fmul (vy (y_axis (f32_lit (- 7)))) scrollTick)) = Num 7" "fdiv (Num (13 / 2)) (Num (13 / 2)) = Num 1"
    by code_simp+
  have s: "\<exists>c. scrollByOffset plain_magnum (countdown_player 3) (f32_lit 0) (y_axis (f32_lit (- 7))) (content (us_panel (1280, 720))) = (Num 1, c)
      \<and> translationFactor c = Num (13 / 2) \<and> growableAxis c = growableAxis (content (us_panel (1280, 720)))"
    by (simp add: scrollByOffset_def scrollByContentSize_def f t n Let_def del: fdiv.simps) (simp add: animateScrollByTr_def Let_def)
  then show "translationFactor (content scrolled_down) = Num (13 / 2)"
    "scroll_target (handle (scroller scrolled_down)) = fmul (fneg (gap (us_panel (1280, 720)))) (Num 1)"
    "panelPlaced scrolled_down = panelPlaced (us_panel (1280, 720))" "setupDone scrolled_down = setupDone (us_panel (1280, 720))"
    "growableAxis (content scrolled_down) = growableAxis (content (us_panel (1280, 720)))"
    "scStickness (scroller scrolled_down) = scStickness (scroller (us_panel (1280, 720)))"
    by (auto simp: scrolled_down_def panel_handleScrollEvent_def handle_moves gap_def Let_def)
qed

lemma panel_layout_keeps:
  "shape (panelPlaced (panel_onViewportChange mg vw con space p)) = shape (panelPlaced (panel_availableSpaceChanged space p))"
  "setupDone (panel_onViewportChange mg vw con space p)"
  "growableAxis (content (panel_onViewportChange mg vw con space p)) = growableAxis (content p)"
  "scStickness (scroller (panel_onViewportChange mg vw con space p)) = scStickness (scroller p)"
proof -
  have g: "growableAxis (snd (grid_availableSpaceChanged mg vw r g)) = growableAxis g" for r and g :: "('a, 'b) grid"
    by (simp add: grid_availableSpaceChanged_def scrollContentChanged_def scrollCanvasChanged_def grid_updateGeometry_def Let_def)
  have s: "scStickness (onContentRatioChanged mg vw con c s) = scStickness s"
    "scStickness (snd (scroller_availableSpaceChanged vw con r s)) = scStickness s" for c r and s :: "('a, 'b) scroller"
    by (simp_all add: onContentRatioChanged_def scroller_availableSpaceChanged_def scroller_updateGeometry_def split_beta Let_def)
  show "shape (panelPlaced (panel_onViewportChange mg vw con space p)) = shape (panelPlaced (panel_availableSpaceChanged space p))"
    "growableAxis (content (panel_onViewportChange mg vw con space p)) = growableAxis (content p)"
    "scStickness (scroller (panel_onViewportChange mg vw con space p)) = scStickness (scroller p)"
    by (simp_all add: panel_onViewportChange_def panel_updateGeometry_def updateGeometry_def g s split_beta Let_def)
  show "setupDone (panel_onViewportChange mg vw con space p)"
    by (simp add: panel_onViewportChange_def panel_updateGeometry_def panel_availableSpaceChanged_def split_beta Let_def)
qed

lemma us_panel_set_up:
  "growableAxis (content (us_panel w)) = Height" "scStickness (scroller (us_panel w)) = StickRight" "setupDone (us_panel w)"
  "vy (rmin (shape (panelPlaced (us_panel w)))) = f32_lit (- 1)" "vy (rmax (shape (panelPlaced (us_panel w)))) = f32_lit 1"
  by (simp_all add: us_panel_def panel_layout_keeps first_shape left_shape panel_init_parts scrollable.extend_def scrollable_init_def
      whole_window_def vscalar_def)

lemma resized_gap: "gap resized = left_gap (vy (pixelSize (constraints_of plain_view (1280, 100)))) (gap scrolled_down)"
  unfolding resized_def
  by (rule layout_gap) (simp_all add: scrolled_down_parts us_panel_set_up panel_availableSpaceChanged_def)

lemma part_number: "fdiv (Num 2) (Num (17 / 2)) = Num (15790321 / 67108864)" "fless (Num (15790321 / 67108864)) (Num 1)"
  by code_simp+

lemma left_gap_number: "left_gap px g = fsub (placeholder_length px) (fmul (placeholder_length px) (Num (15790321 / 67108864)))"
  unfolding left_gap_def Let_def panel_numbers(1,2) part_number(1)
  unfolding panel_numbers(7) by (simp only: part_number(2) if_True)

lemma length_numbers:
  "placeholder_length (fdiv (Num 1) (f32_of_int 720)) = Num (16544199 / 8388608)"
  "placeholder_length (fdiv (Num 1) (f32_of_int 100)) = Num (7549747 / 4194304)"
proof -
  have 1: "fdiv (Num 1) (f32_of_int 720) = Num (11930465 / 8589934592)" "fdiv (Num 1) (f32_of_int 100) = Num (5368709 / 536870912)"
    by code_simp+
  have 2: "fmul (Num (11930465 / 8589934592)) (Num 10) = Num (14913081 / 1073741824)"
    "fmul (Num (5368709 / 536870912)) (Num 10) = Num (3355443 / 33554432)" by code_simp+
  have 3: "fadd (Num 1) (fneg (Num (14913081 / 1073741824))) = Num (16544199 / 16777216)"
    "fsub (Num (- 1)) (fneg (Num (14913081 / 1073741824))) = Num (- 16544199 / 16777216)"
    "fsub (Num (16544199 / 16777216)) (Num (- 16544199 / 16777216)) = Num (16544199 / 8388608)" by code_simp+
  have 4: "fadd (Num 1) (fneg (Num (3355443 / 33554432))) = Num (7549747 / 8388608)"
    "fsub (Num (- 1)) (fneg (Num (3355443 / 33554432))) = Num (- 7549747 / 8388608)"
    "fsub (Num (7549747 / 8388608)) (Num (- 7549747 / 8388608)) = Num (7549747 / 4194304)" by code_simp+
  show "placeholder_length (fdiv (Num 1) (f32_of_int 720)) = Num (16544199 / 8388608)"
    unfolding placeholder_length_def 1 panel_numbers 2 Let_def 3 ..
  show "placeholder_length (fdiv (Num 1) (f32_of_int 100)) = Num (7549747 / 4194304)"
    unfolding placeholder_length_def 1 panel_numbers 2 Let_def 4 ..
qed

lemma gap_numbers:
  "left_gap (vy (pixelSize (constraints_of plain_view (1280, 720)))) g = Num (6325723 / 4194304)"
  "left_gap (vy (pixelSize (constraints_of plain_view (1280, 100)))) g = Num (721667 / 524288)"
proof -
  have px: "vy (pixelSize (constraints_of plain_view w)) = fdiv (Num 1) (f32_of_int (snd w))" for w
    by (simp add: constraints_of_def vdiv_def vscalar_def vector2_of_px_def panel_numbers Let_def)
  have 1: "fmul (Num (16544199 / 8388608)) (Num (15790321 / 67108864)) = Num (15571011 / 33554432)"
    "fsub (Num (16544199 / 8388608)) (Num (15571011 / 33554432)) = Num (6325723 / 4194304)"
    "fmul (Num (7549747 / 4194304)) (Num (15790321 / 67108864)) = Num (14211289 / 33554432)"
    "fsub (Num (7549747 / 4194304)) (Num (14211289 / 33554432)) = Num (721667 / 524288)" by code_simp+
  show "left_gap (vy (pixelSize (constraints_of plain_view (1280, 720)))) g = Num (6325723 / 4194304)"
    "left_gap (vy (pixelSize (constraints_of plain_view (1280, 100)))) g = Num (721667 / 524288)"
    unfolding left_gap_number px snd_conv length_numbers 1 by (rule refl)+
qed

theorem resize_leaves_handle:
  "scroll_target (handle (scroller scrolled_down)) = fneg (gap scrolled_down)
   \<and> fless (scroll_target (handle (scroller resized))) (fneg (gap resized))"
proof -
  have g: "gap scrolled_down = gap (us_panel (1280, 720))"
    by (simp add: scrolled_down_def panel_handleScrollEvent_def gap_def handle_moves split_beta Let_def)
  have t: "scroll_target (handle (scroller resized)) = scroll_target (handle (scroller scrolled_down))"
    unfolding resized_def by (rule panel_layout)
  have n: "fmul (fneg (Num (6325723 / 4194304))) (Num 1) = fneg (Num (6325723 / 4194304))"
    "fless (fneg (Num (6325723 / 4194304))) (fneg (Num (721667 / 524288)))" by code_simp+
  show ?thesis
    unfolding t resized_gap g scrolled_down_parts us_panel_layout(2) gap_numbers n(1) using n(2) by blast
qed

end
