(* ===== verification/Selector.thy ===== *)
theory Selector
  imports USApplication PanelLayout
begin

text \<open>
  \<open>src/app/widgets/atomSelector/AtomSelectorButton.hpp\<close>, the button that shows and hides the panel,
  the two together as \<open>src/app/USApplication.cpp\<close> wires them, and the text of
  \<open>src/app/widgets/text/ShortcutsText.hpp\<close>, which grows under the cursor. The lemmas show that the button,
  its looks and the panel stay in step. Meshes and shaders are left out.
\<close>

section \<open>AtomSelectorButton\<close>

datatype button_color = White | Black

record ('p, 'm) selector_button =
  button :: button_state
  buttonHovered :: bool
  buttonAnim :: "('p, vector2) player_animator"
  responsiveMatrix :: 'm
  moveAnim :: 'm
  buttonMatrix :: 'm
  currentColor :: button_color
  buttonPlaced :: placed
  buttonSetup :: bool
  buttonVertices :: "vector2 list"

definition updateCurrentColor :: "('p, 'm) selector_button \<Rightarrow> ('p, 'm) selector_button" where
  "updateCurrentColor b = b\<lparr>currentColor := (if buttonHovered b \<or> toggled (button b) then White else Black)\<rparr>"

definition halfButtonSizeHeightAxis :: "('p, 'm) selector_button \<Rightarrow> vector2" where
  "halfButtonSizeHeightAxis b = y_axis (fmul (vy (range_size (shape (buttonPlaced b)))) (f32_lit (1 / 2)))"

definition updateAnimationYTarget :: "'m magnum \<Rightarrow> 'p magnum_player \<Rightarrow> f32 \<Rightarrow> ('p, 'm) selector_button \<Rightarrow> ('p, 'm) selector_button" where
  "updateAnimationYTarget mg pl t b =
     (let target = (if toggled (button b) then vmul (halfButtonSizeHeightAxis b) (vscalar (f32_lit 2))
                    else if buttonHovered b then vmul (halfButtonSizeHeightAxis b) (vscalar (f32_lit (1 / 2)))
                    else vzero)
      in b\<lparr>buttonAnim := fst (updateAnimationAndPlay pl t [] vzero (matTranslation mg (moveAnim b)) target (buttonAnim b, ()))\<rparr>)"

definition button_updateGeometry :: "'m magnum \<Rightarrow> 'm view \<Rightarrow> ('p, 'm) selector_button \<Rightarrow> ('p, 'm) selector_button" where
  "button_updateGeometry mg vw b =
     (let b = b\<lparr>buttonMatrix := mat_mult mg (responsiveMatrix b) (moveAnim b)\<rparr>
      in b\<lparr>buttonPlaced := updateGeometry vw (buttonMatrix b) (buttonPlaced b)\<rparr>)"

definition selector_button_init :: "'m magnum \<Rightarrow> 'p \<Rightarrow> ('p, 'm) selector_button" where
  "selector_button_init mg idle = updateCurrentColor
     \<lparr>button = button_init, buttonHovered = False, buttonAnim = resting idle vzero, responsiveMatrix = identityMatrix mg,
      moveAnim = identityMatrix mg, buttonMatrix = identityMatrix mg, currentColor = Black, buttonPlaced = unplaced, buttonSetup = False,
      buttonVertices = []\<rparr>"

definition button_availableSpaceChanged :: "'m magnum \<Rightarrow> 'm view \<Rightarrow> ('p, 'm) selector_button \<Rightarrow> ('p, 'm) selector_button" where
  "button_availableSpaceChanged mg vw b =
     (if buttonSetup b then b
      else
        let vertices = [vscalar (f32_lit 0), \<lparr>vx = f32_lit (1 / 10), vy = f32_lit 0\<rparr>, vscalar (f32_lit (1 / 10)),
              \<lparr>vx = f32_lit 0, vy = f32_lit (1 / 10)\<rparr>];
            b = b\<lparr>buttonVertices := vertices\<rparr>;
            b = b\<lparr>buttonPlaced := updateShape \<lparr>rmin = vertices ! 0, rmax = vertices ! 2\<rparr> (buttonPlaced b)\<rparr>
        in (button_updateGeometry mg vw b)\<lparr>buttonSetup := True\<rparr>)"

definition button_onViewportChange :: "'m magnum \<Rightarrow> 'm view \<Rightarrow> 'm constraints \<Rightarrow> ('p, 'm) selector_button \<Rightarrow> ('p, 'm) selector_button" where
  "button_onViewportChange mg vw con b =
     (let b = button_availableSpaceChanged mg vw b;
          pixelLeftPadding = f32_lit 15;
          half = halfButtonSizeHeightAxis b;
          b = b\<lparr>responsiveMatrix :=
            mat_mult mg (mat_mult mg (mat_mult mg
              (translation mg (vscalar (f32_lit (- 1))))
              (translation mg (x_axis (fmul (fmul (vx (pixelSize con)) (f32_lit 2)) pixelLeftPadding))))
              (translation mg \<lparr>vx = fneg (vx half), vy = fneg (vy half)\<rparr>))
              (projMatrix con)\<rparr>
      in button_updateGeometry mg vw b)"

text \<open>A change of \<open>_isHovered\<close> and the callback.\<close>

definition button_onHoverChanged :: "'m magnum \<Rightarrow> 'p magnum_player \<Rightarrow> f32 \<Rightarrow> bool \<Rightarrow> cursor \<times> ('p, 'm) selector_button \<Rightarrow>
    cursor \<times> ('p, 'm) selector_button" where
  "button_onHoverChanged mg pl t hovered = (\<lambda>(c, b).
     let b = b\<lparr>buttonHovered := hovered\<rparr>
     in if preToggling (button b) then (c, b)
        else
          let c = (if hovered then HandCursor else ArrowCursor);
              b = updateCurrentColor b
          in (c, updateAnimationYTarget mg pl t b))"

definition selector_handlePressEvent :: "('p, 'm) selector_button \<Rightarrow> ('p, 'm) selector_button" where
  "selector_handlePressEvent b = b\<lparr>button := button_handlePressEvent (button b)\<rparr>"

text \<open>\<open>handleLockReleaseEvent\<close> with the button's own \<open>_onToggled\<close>.\<close>

definition selector_handleLockReleaseEvent :: "'m magnum \<Rightarrow> 'p magnum_player \<Rightarrow> f32 \<Rightarrow> ('p, 'm) selector_button \<Rightarrow> ('p, 'm) selector_button" where
  "selector_handleLockReleaseEvent mg pl t b =
     (let b = b\<lparr>button := button_handleLockReleaseEvent (button b)\<rparr>;
          b = updateCurrentColor b
      in updateAnimationYTarget mg pl t b)"

definition button_onAnimationProgress :: "'m magnum \<Rightarrow> 'm view \<Rightarrow> ('p, 'm) selector_button \<Rightarrow> ('p, 'm) selector_button" where
  "button_onAnimationProgress mg vw b =
     button_updateGeometry mg vw (b\<lparr>moveAnim := translation mg (current (animState (buttonAnim b)))\<rparr>)"

definition button_advance :: "'m magnum \<Rightarrow> 'm view \<Rightarrow> 'p magnum_player \<Rightarrow> f32 \<Rightarrow> ('p, 'm) selector_button \<Rightarrow> ('p, 'm) selector_button" where
  "button_advance mg vw pl t b =
     (let (a, b) = player_advance pl (defaultAnimationCallback (lerp2 mg) (cubicOut mg))
            (\<lambda>a b. button_onAnimationProgress mg vw (b\<lparr>buttonAnim := a\<rparr>)) t (buttonAnim b, b)
      in b\<lparr>buttonAnim := a\<rparr>)"

section \<open>The button and the panel\<close>

record ('p, 'm) selector =
  asButton :: "('p, 'm) selector_button"
  asPanel :: "('p, 'm) panel"
  selCursor :: cursor
  selCon :: "'m constraints"

text \<open>The callback the application gives the button.\<close>

definition selector_init :: "'m magnum \<Rightarrow> 'm constraints \<Rightarrow> 'p \<Rightarrow> (nat \<Rightarrow> f32) \<Rightarrow> ('p, 'm) selector" where
  "selector_init mg con idle junk =
     (let b = selector_button_init mg idle
      in \<lparr>asButton = b\<lparr>button := setToogleCallback (button b)\<rparr>,
          asPanel = panel_init mg idle junk StickLeft (f32_lit (3 / 5)), selCursor = ArrowCursor, selCon = con\<rparr>)"

definition selector_release :: "'m magnum \<Rightarrow> 'p magnum_player \<Rightarrow> f32 \<Rightarrow> ('p, 'm, 'z) selector_scheme \<Rightarrow> ('p, 'm, 'z) selector_scheme" where
  "selector_release mg pl t s =
     (let calls = toggleCalls (button (asButton s));
          b = selector_handleLockReleaseEvent mg pl t (asButton s)
      in s\<lparr>asButton := b,
           asPanel := fold (\<lambda>_. panel_toggle pl t) (drop (length calls) (toggleCalls (button b))) (asPanel s)\<rparr>)"

definition selector_onViewportChange :: "'m magnum \<Rightarrow> 'm view \<Rightarrow> int \<times> int \<Rightarrow> range2 \<Rightarrow> ('p, 'm, 'z) selector_scheme \<Rightarrow> ('p, 'm, 'z) selector_scheme" where
  "selector_onViewportChange mg vw windowSize space s =
     (let con = constraints_of vw windowSize
      in s\<lparr>selCon := con, asButton := button_onViewportChange mg vw con (asButton s),
           asPanel := panel_onViewportChange mg vw con space (asPanel s)\<rparr>)"

definition selector_frame :: "'m magnum \<Rightarrow> 'm view \<Rightarrow> 'p magnum_player \<Rightarrow> f32 \<Rightarrow> ('p, 'm, 'z) selector_scheme \<Rightarrow> ('p, 'm, 'z) selector_scheme" where
  "selector_frame mg vw pl t s =
     s\<lparr>asButton := button_advance mg vw pl t (asButton s), asPanel := panel_frame mg vw (selCon s) pl t (asPanel s)\<rparr>"

datatype selector_input = Over f32 bool | PressIt | ReleaseIt f32 | ScrollIt f32 vector2 | DragIt f32 "int \<times> int" | Resize "int \<times> int" | DrawFrame f32

fun selector_exec :: "'m magnum \<Rightarrow> 'm view \<Rightarrow> 'p magnum_player \<Rightarrow> range2 \<Rightarrow> selector_input \<Rightarrow> ('p, 'm, 'z) selector_scheme \<Rightarrow> ('p, 'm, 'z) selector_scheme" where
  "selector_exec mg vw pl space (Over t h) s =
     (let (c, b) = button_onHoverChanged mg pl t h (selCursor s, asButton s) in s\<lparr>selCursor := c, asButton := b\<rparr>)"
| "selector_exec mg vw pl space PressIt s = s\<lparr>asButton := selector_handlePressEvent (asButton s)\<rparr>"
| "selector_exec mg vw pl space (ReleaseIt t) s = selector_release mg pl t s"
| "selector_exec mg vw pl space (ScrollIt t offset) s = s\<lparr>asPanel := panel_handleScrollEvent mg pl t offset (asPanel s)\<rparr>"
| "selector_exec mg vw pl space (DragIt t relative) s = s\<lparr>asPanel := handle_handleLockMoveEvent mg vw (selCon s) pl t relative (asPanel s)\<rparr>"
| "selector_exec mg vw pl space (Resize windowSize) s = selector_onViewportChange mg vw windowSize space s"
| "selector_exec mg vw pl space (DrawFrame t) s = selector_frame mg vw pl t s"

section \<open>They stay in step\<close>

definition button_target :: "('p, 'm) selector_button \<Rightarrow> vector2" where
  "button_target b = (if toggled (button b) then vmul (halfButtonSizeHeightAxis b) (vscalar (f32_lit 2))
     else if buttonHovered b then vmul (halfButtonSizeHeightAxis b) (vscalar (f32_lit (1 / 2))) else vzero)"

text \<open>Unless it is being pressed, the button is white when it is hovered or toggled and moves to where its
  state puts it.\<close>

definition looks_right :: "('p, 'm) selector_button \<Rightarrow> bool" where
  "looks_right b \<longleftrightarrow> preToggling (button b)
     \<or> currentColor b = (if buttonHovered b \<or> toggled (button b) then White else Black) \<and> animTo (animState (buttonAnim b)) = button_target b"

text \<open>The panel is shown exactly when the button is toggled, and moves to where that puts it.\<close>

definition follows :: "('p, 'm) selector_button \<Rightarrow> ('p, 'm) panel \<Rightarrow> bool" where
  "follows b p \<longleftrightarrow> panelToggled p = toggled (button b)
     \<and> (toggleCalls (button b) = [] \<or> animTo (animState (panelAnim p)) = (if toggled (button b) then vzero else collapsedTransform p))"

lemma animTo_play [simp]:
  "animTo (animState (fst (updateAnimationAndPlay pl t ex z f to (a, s)))) = to"
  by (simp add: updateAnimationAndPlay_def player_startAnim_def Let_def)

lemma half_cong: "shape (buttonPlaced b) = shape (buttonPlaced b') \<Longrightarrow> halfButtonSizeHeightAxis b = halfButtonSizeHeightAxis b'"
  by (simp add: halfButtonSizeHeightAxis_def)

text \<open>What frames and resizes keep of the button.\<close>

definition same_button :: "('p, 'm) selector_button \<Rightarrow> ('p, 'm) selector_button \<Rightarrow> bool" where
  "same_button b b' \<longleftrightarrow> button b' = button b \<and> buttonHovered b' = buttonHovered b \<and> currentColor b' = currentColor b
     \<and> animTo (animState (buttonAnim b')) = animTo (animState (buttonAnim b)) \<and> shape (buttonPlaced b') = shape (buttonPlaced b)
     \<and> buttonSetup b' = buttonSetup b"

lemma same_looks: "same_button b b' \<Longrightarrow> looks_right b' = looks_right b"
  using half_cong [of b' b] by (simp add: same_button_def looks_right_def button_target_def)

lemma same_advance: "same_button b (button_advance mg vw pl t b)"
  by (simp add: same_button_def button_advance_def player_advance_def button_onAnimationProgress_def button_updateGeometry_def
      updateGeometry_def defaultAnimationCallback_def split_beta Let_def split: option.split)

lemma same_viewport: "buttonSetup b \<Longrightarrow> same_button b (button_onViewportChange mg vw con b)"
  by (simp add: same_button_def button_onViewportChange_def button_availableSpaceChanged_def button_updateGeometry_def
      updateGeometry_def Let_def)

definition same_panel :: "('p, 'm) panel \<Rightarrow> ('p, 'm) panel \<Rightarrow> bool" where
  "same_panel p p' \<longleftrightarrow> panelToggled p' = panelToggled p \<and> thickness p' = thickness p \<and> stickness p' = stickness p
     \<and> animTo (animState (panelAnim p')) = animTo (animState (panelAnim p))"

lemma same_follows: "same_panel p p' \<Longrightarrow> button b' = button b \<Longrightarrow> follows b' p' = follows b p"
proof -
  assume p: "same_panel p p'" and b: "button b' = button b"
  have "collapsedTransform p' = collapsedTransform p"
    using p by (simp add: same_panel_def collapsedTransform_def split: StickTo.split)
  then show ?thesis using p b by (simp add: same_panel_def follows_def)
qed

lemma same_panel_moved:
  "same_panel p (panel_handleScrollEvent mg pl t offset p)"
  "same_panel p (handle_handleLockMoveEvent mg vw con pl t relative p)"
  "same_panel p (panel_onViewportChange mg vw con space p)"
  "same_panel p (panel_frame mg vw con pl t p)"
  by (simp_all add: same_panel_def panel_handleScrollEvent_def handle_handleLockMoveEvent_def scrollFromHandle_def
      panel_onViewportChange_def panel_updateGeometry_def panel_availableSpaceChanged_def split_beta Let_def)
    (simp add: panel_frame_def panel_advance_def player_advance_def panel_onAnimationProgress_def panel_propagateMatrixChanges_def
      definePanelPosition_def panel_updateGeometry_def defaultAnimationCallback_def split_beta Let_def split: option.split)

definition in_step :: "('p, 'm, 'z) selector_scheme \<Rightarrow> bool" where
  "in_step s \<longleftrightarrow> looks_right (asButton s) \<and> follows (asButton s) (asPanel s)"

lemma release_button:
  "looks_right (selector_handleLockReleaseEvent mg pl t b)"
  "toggled (button (selector_handleLockReleaseEvent mg pl t b)) = (\<not> toggled (button b))"
  "toggleCb (button (selector_handleLockReleaseEvent mg pl t b)) = toggleCb (button b)"
  "toggleCalls (button (selector_handleLockReleaseEvent mg pl t b)) =
     toggleCalls (button b) @ (if toggleCb (button b) then [\<not> toggled (button b)] else [])"
  "buttonSetup (selector_handleLockReleaseEvent mg pl t b) = buttonSetup b"
  by (simp_all add: looks_right_def selector_handleLockReleaseEvent_def button_handleLockReleaseEvent_def toggle_def onToggled_def
      updateCurrentColor_def updateAnimationYTarget_def button_target_def halfButtonSizeHeightAxis_def Let_def)

lemma panel_toggled:
  "panelToggled (panel_toggle pl t p) = (\<not> panelToggled p)"
  "collapsedTransform (panel_toggle pl t p) = collapsedTransform p"
  "animTo (animState (panelAnim (panel_toggle pl t p))) = (if panelToggled p then collapsedTransform p else vzero)"
  by (simp_all add: panel_toggle_def panel_onToggled_def collapsedTransform_def Let_def split: StickTo.split)

lemma exec_in_step:
  assumes "in_step s" and "buttonSetup (asButton s)" and "toggleCb (button (asButton s))"
  shows "in_step (selector_exec mg vw pl space i s) \<and> buttonSetup (asButton (selector_exec mg vw pl space i s))
     \<and> toggleCb (button (asButton (selector_exec mg vw pl space i s)))"
proof (cases i)
  case (Over t h)
  obtain c b where b: "button_onHoverChanged mg pl t h (selCursor s, asButton s) = (c, b)" by fastforce
  have "button b = button (asButton s)" "buttonSetup b = buttonSetup (asButton s)"
    using b by (auto simp: button_onHoverChanged_def updateCurrentColor_def updateAnimationYTarget_def Let_def split: if_splits)
  moreover have "looks_right b"
    using b by (auto simp: looks_right_def button_onHoverChanged_def updateCurrentColor_def updateAnimationYTarget_def
        button_target_def halfButtonSizeHeightAxis_def Let_def split: if_splits)
  moreover have "same_panel (asPanel s) (asPanel s)" by (simp add: same_panel_def)
  ultimately show ?thesis using assms same_follows [of "asPanel s" "asPanel s" b "asButton s"] by (simp add: Over b in_step_def)
next
  case PressIt
  then show ?thesis using assms
    by (simp add: in_step_def looks_right_def follows_def selector_handlePressEvent_def button_handlePressEvent_def)
next
  case (ReleaseIt t)
  then show ?thesis using assms release_button [of mg pl t "asButton s"] panel_toggled [of pl t "asPanel s"]
    by (auto simp: in_step_def follows_def selector_release_def Let_def)
next
  case (ScrollIt t offset)
  then show ?thesis using assms by (simp add: in_step_def same_follows [OF same_panel_moved(1) refl])
next
  case (DragIt t relative)
  then show ?thesis using assms by (simp add: in_step_def same_follows [OF same_panel_moved(2) refl])
next
  case (Resize w)
  let ?b = "button_onViewportChange mg vw (constraints_of vw w) (asButton s)"
  have b: "same_button (asButton s) ?b" using assms(2) by (rule same_viewport)
  then have "button ?b = button (asButton s)" "buttonSetup ?b" using assms(2) by (simp_all add: same_button_def)
  then show ?thesis using assms same_looks [OF b]
    by (simp add: Resize in_step_def selector_onViewportChange_def same_follows [OF same_panel_moved(3), of _ "asButton s"] Let_def)
next
  case (DrawFrame t)
  let ?b = "button_advance mg vw pl t (asButton s)"
  have b: "same_button (asButton s) ?b" by (rule same_advance)
  then have "button ?b = button (asButton s)" "buttonSetup ?b" using assms(2) by (simp_all add: same_button_def)
  then show ?thesis using assms same_looks [OF b]
    by (simp add: DrawFrame in_step_def selector_frame_def same_follows [OF same_panel_moved(4), of _ "asButton s"])
qed

interpretation selecting: machine "selector_exec mg vw pl space" "\<lambda>_. True"
    "\<lambda>s. in_step s \<and> buttonSetup (asButton s) \<and> toggleCb (button (asButton s))"
  for mg :: "'m magnum" and vw :: "'m view" and pl :: "'p magnum_player" and space :: range2
  by unfold_locales (simp add: exec_in_step)

lemma start_in_step:
  "in_step (selector_onViewportChange mg vw w space (selector_init mg con idle junk))"
  "buttonSetup (asButton (selector_onViewportChange mg vw w space (selector_init mg con idle junk)))"
  "toggleCb (button (asButton (selector_onViewportChange mg vw w space (selector_init mg con idle junk))))"
proof -
  let ?b = "asButton (selector_init mg con idle junk)" and ?p = "asPanel (selector_init mg con idle junk)"
  let ?b' = "button_onViewportChange mg vw (constraints_of vw w) ?b"
  have b: "button ?b = setToogleCallback button_init" "\<not> buttonHovered ?b" "currentColor ?b = Black" "animTo (animState (buttonAnim ?b)) = vzero"
    "\<not> panelToggled ?p"
    by (simp_all add: selector_init_def selector_button_init_def updateCurrentColor_def resting_def button_init_def panel_init_def
        definePanelPosition_def Let_def)
  have b': "button ?b' = button ?b" "buttonHovered ?b' = buttonHovered ?b" "currentColor ?b' = currentColor ?b"
    "animTo (animState (buttonAnim ?b')) = animTo (animState (buttonAnim ?b))" "buttonSetup ?b'"
    by (simp_all add: button_onViewportChange_def button_availableSpaceChanged_def button_updateGeometry_def Let_def)
  have "looks_right ?b'"
    by (simp add: looks_right_def b' b button_target_def setToogleCallback_def button_init_def)
  moreover have "follows ?b' (panel_onViewportChange mg vw (constraints_of vw w) space ?p)"
    using same_panel_moved(3) [of ?p mg vw "constraints_of vw w" space] b
    by (simp add: follows_def b' setToogleCallback_def button_init_def same_panel_def)
  ultimately show "in_step (selector_onViewportChange mg vw w space (selector_init mg con idle junk))"
    "buttonSetup (asButton (selector_onViewportChange mg vw w space (selector_init mg con idle junk)))"
    "toggleCb (button (asButton (selector_onViewportChange mg vw w space (selector_init mg con idle junk))))"
    by (simp_all add: in_step_def selector_onViewportChange_def b' b setToogleCallback_def Let_def)
qed

text \<open>Whatever the window, the mouse and the clock do after the first layout, the panel is shown exactly when
  the button is toggled and moves to its place; the button, unless it is just being pressed, has the
  colour and the target of its state.\<close>

theorem selector_in_step:
  "in_step (fold (selector_exec mg vw pl space) is (selector_onViewportChange mg vw w space (selector_init mg con idle junk)))"
  by (rule selecting.run [THEN conjunct1]) (simp_all add: start_in_step list.pred_True)

text \<open>But the cursor is not: the hand stays when the mouse leaves the button while it is pressed.\<close>

theorem cursor_stays_hand:
  assumes "\<not> preToggling (button (asButton s))"
  shows "selCursor (fold (selector_exec mg vw pl space) [Over t True, PressIt, Over t' False, ReleaseIt t''] s) = HandCursor
    \<and> \<not> buttonHovered (asButton (fold (selector_exec mg vw pl space) [Over t True, PressIt, Over t' False, ReleaseIt t''] s))"
  using assms
  by (simp add: button_onHoverChanged_def selector_release_def selector_handlePressEvent_def button_handlePressEvent_def
      selector_handleLockReleaseEvent_def updateCurrentColor_def updateAnimationYTarget_def Let_def)

theorem cursor_stays_hand_witness:
  "selCursor (fold (selector_exec plain_magnum plain_view (countdown_player 3) whole_window)
     [Over (f32_lit 0) True, PressIt, Over (f32_lit 0) False, ReleaseIt (f32_lit 0)]
     (selector_init plain_magnum (constraints_of plain_view (1280, 720)) 0 (\<lambda>_. NaN))) = HandCursor"
proof -
  have "\<not> preToggling (button (asButton (selector_init plain_magnum (constraints_of plain_view (1280, 720)) (0 :: nat) (\<lambda>_. NaN))))"
    by (simp add: selector_init_def selector_button_init_def updateCurrentColor_def button_init_def setToogleCallback_def Let_def)
  from cursor_stays_hand [OF this] show ?thesis by blast
qed

section \<open>ShortcutsText\<close>

record sth_component =
  textScaling :: vector2
  textOpacity :: f32
  haulerOpacity :: f32

definition sth_default :: sth_component where
  "sth_default = \<lparr>textScaling = vscalar (f32_lit 1), textOpacity = f32_lit (1 / 2), haulerOpacity = f32_lit 0\<rparr>"

text \<open>Colours as their opacity: the rest of them is constant.\<close>

record ('p, 'm) shortcuts_text =
  textAnim :: "('p, sth_component) player_animator"
  textHovered :: bool
  enlighterAlpha :: f32
  textAlpha :: f32
  textMatrix :: 'm
  textMoveAnim :: 'm
  textResponsive :: 'm
  textPlaced :: placed

definition text_callback :: "'m magnum \<Rightarrow> f32 \<Rightarrow> sth_component anim_state \<Rightarrow> sth_component anim_state" where
  "text_callback mg prc st =
     (let st = st\<lparr>current := (current st)\<lparr>textScaling := lerp2 mg (textScaling (animFrom st)) (textScaling (animTo st)) (cubicOut mg prc)\<rparr>\<rparr>;
          st = st\<lparr>current := (current st)\<lparr>haulerOpacity := lerp mg (haulerOpacity (animFrom st)) (haulerOpacity (animTo st)) (cubicOut mg prc)\<rparr>\<rparr>
      in st\<lparr>current := (current st)\<lparr>textOpacity := lerp mg (textOpacity (animFrom st)) (textOpacity (animTo st)) (cubicOut mg prc)\<rparr>\<rparr>)"

definition text_updateColors :: "('p, 'm) shortcuts_text \<Rightarrow> ('p, 'm) shortcuts_text" where
  "text_updateColors x =
     (let ca = current (animState (textAnim x)) in x\<lparr>enlighterAlpha := haulerOpacity ca, textAlpha := textOpacity ca\<rparr>)"

definition shortcuts_init :: "'m magnum \<Rightarrow> 'p \<Rightarrow> range2 \<Rightarrow> ('p, 'm) shortcuts_text" where
  "shortcuts_init mg idle pixelsShape = text_updateColors
     \<lparr>textAnim = resting idle sth_default, textHovered = False, enlighterAlpha = f32_lit 0, textAlpha = f32_lit 0,
      textMatrix = identityMatrix mg, textMoveAnim = identityMatrix mg, textResponsive = identityMatrix mg,
      textPlaced = updateShape pixelsShape unplaced\<rparr>"

definition text_updateGeometry :: "'m magnum \<Rightarrow> 'm view \<Rightarrow> ('p, 'm) shortcuts_text \<Rightarrow> ('p, 'm) shortcuts_text" where
  "text_updateGeometry mg vw x =
     (let x = x\<lparr>textMatrix := mat_mult mg (textResponsive x) (textMoveAnim x)\<rparr>
      in x\<lparr>textPlaced := updateGeometry vw (textMatrix x) (textPlaced x)\<rparr>)"

definition text_onViewportChange :: "'m magnum \<Rightarrow> 'm view \<Rightarrow> 'm constraints \<Rightarrow> ('p, 'm) shortcuts_text \<Rightarrow> ('p, 'm) shortcuts_text" where
  "text_onViewportChange mg vw con x =
     (let corner = vmul (ws con) (vsub (vscalar (f32_lit (1 / 2))) (vmul (pixelSize con) (vscalar (f32_of_int 5))));
          x = x\<lparr>textResponsive := mat_mult mg (pixelProjMatrix con) (translation mg corner)\<rparr>
      in text_updateGeometry mg vw x)"

definition text_onHoverChanged :: "'p magnum_player \<Rightarrow> f32 \<Rightarrow> bool \<Rightarrow> ('p, 'm) shortcuts_text \<Rightarrow> ('p, 'm) shortcuts_text" where
  "text_onHoverChanged pl t hovered x =
     (let x = x\<lparr>textHovered := hovered\<rparr>;
          to = (if hovered
                then \<lparr>textScaling = vscalar (f32_lit 2), textOpacity = f32_lit 1, haulerOpacity = f32_lit (17 / 20)\<rparr>
                else sth_default)
      in x\<lparr>textAnim := fst (updateAnimationAndPlay pl t [] sth_default (current (animState (textAnim x))) to (textAnim x, ()))\<rparr>)"

definition text_onAnimationProgress :: "'m magnum \<Rightarrow> 'm view \<Rightarrow> ('p, 'm) shortcuts_text \<Rightarrow> ('p, 'm) shortcuts_text" where
  "text_onAnimationProgress mg vw x =
     (let x = x\<lparr>textMoveAnim := scalingMatrix mg (textScaling (current (animState (textAnim x))))\<rparr>;
          x = text_updateColors x
      in text_updateGeometry mg vw x)"

definition text_advance :: "'m magnum \<Rightarrow> 'm view \<Rightarrow> 'p magnum_player \<Rightarrow> f32 \<Rightarrow> ('p, 'm) shortcuts_text \<Rightarrow> ('p, 'm) shortcuts_text" where
  "text_advance mg vw pl t x =
     (let (a, x) = player_advance pl (text_callback mg)
            (\<lambda>a x. text_onAnimationProgress mg vw (x\<lparr>textAnim := a\<rparr>)) t (textAnim x, x)
      in x\<lparr>textAnim := a\<rparr>)"

datatype text_input = TextOver f32 bool | TextFrame f32 | TextResize "int \<times> int"

fun text_exec :: "'m magnum \<Rightarrow> 'm view \<Rightarrow> 'p magnum_player \<Rightarrow> text_input \<Rightarrow> ('p, 'm) shortcuts_text \<Rightarrow> ('p, 'm) shortcuts_text" where
  "text_exec mg vw pl (TextOver t h) x = text_onHoverChanged pl t h x"
| "text_exec mg vw pl (TextFrame t) x = text_advance mg vw pl t x"
| "text_exec mg vw pl (TextResize w) x = text_onViewportChange mg vw (constraints_of vw w) x"

text \<open>Where the text is going, and, while its animation plays, what is on screen.\<close>

definition text_ok :: "('p, 'm) shortcuts_text \<Rightarrow> bool" where
  "text_ok x \<longleftrightarrow> animTo (animState (textAnim x)) =
     (if textHovered x then \<lparr>textScaling = vscalar (f32_lit 2), textOpacity = f32_lit 1, haulerOpacity = f32_lit (17 / 20)\<rparr> else sth_default)"

lemma text_exec_ok: "text_ok x \<Longrightarrow> text_ok (text_exec mg vw pl i x)"
  by (cases i) (simp_all add: text_ok_def text_onHoverChanged_def text_advance_def player_advance_def text_onAnimationProgress_def
      text_updateColors_def text_updateGeometry_def text_callback_def text_onViewportChange_def split_beta Let_def split: option.split)

interpretation text_machine: machine "text_exec mg vw pl" "\<lambda>_. True" text_ok
  for mg :: "'m magnum" and vw :: "'m view" and pl :: "'p magnum_player"
  by unfold_locales (rule text_exec_ok)

lemma text_ok_at_start: "text_ok (shortcuts_init mg idle r)"
  by (simp add: text_ok_def shortcuts_init_def text_updateColors_def resting_def Let_def)

text \<open>Whatever the mouse, the window and the clock do, the text grows while it is hovered and shrinks while
  it is not; and a frame that is still playing shows exactly the state of its animation, on both the
  text and the enlightened background.\<close>

theorem text_follows_hover:
  assumes "x = fold (text_exec mg vw pl) is (shortcuts_init mg idle r :: ('p, 'm) shortcuts_text)"
  shows "text_ok x \<and> (isAnimationPlaying pl (textAnim (text_advance mg vw pl t x)) \<longrightarrow>
     textAlpha (text_advance mg vw pl t x) = textOpacity (current (animState (textAnim (text_advance mg vw pl t x))))
     \<and> enlighterAlpha (text_advance mg vw pl t x) = haulerOpacity (current (animState (textAnim (text_advance mg vw pl t x)))))"
proof -
  have "text_ok x" unfolding assms by (rule text_machine.run) (simp_all add: text_ok_at_start list.pred_True)
  moreover have "isAnimationPlaying pl (textAnim (text_advance mg vw pl t y)) \<longrightarrow>
     textAlpha (text_advance mg vw pl t y) = textOpacity (current (animState (textAnim (text_advance mg vw pl t y))))
     \<and> enlighterAlpha (text_advance mg vw pl t y) = haulerOpacity (current (animState (textAnim (text_advance mg vw pl t y))))"
    for y :: "('p, 'm) shortcuts_text"
    by (simp add: text_advance_def player_advance_def text_onAnimationProgress_def text_updateColors_def text_updateGeometry_def
        split_beta Let_def isAnimationPlaying_def split: option.split)
  ultimately show ?thesis by blast
qed

end
