(* ===== verification/WholeApp.thy ===== *)
theory WholeApp
  imports Selector
begin

text \<open>
  The widgets of \<open>USApplication\<close> in its tree: the handlers of the selector button, the panel and the
  scroller's handle (with the handle's colour, \<open>ScrollerHandle.cpp\<close>) as the handlers \<open>USApplication\<close> has
  as an argument. The lemmas show where the events of the whole application end: on the button and the
  panel, or on the map, but never on both.
\<close>

record ('p, 'm) us_widgets = "('p, 'm) selector" +
  handleButton :: button_state
  handleHovered :: bool
  scrollerActive :: bool

section \<open>The handle's colour\<close>

definition updateScrollColor :: "('p, 'm) us_widgets \<Rightarrow> ('p, 'm) us_widgets" where
  "updateScrollColor s = s\<lparr>scrollerActive := handleHovered s\<rparr>"

definition handle_onHoverChanged :: "bool \<Rightarrow> ('p, 'm) us_widgets \<Rightarrow> ('p, 'm) us_widgets" where
  "handle_onHoverChanged hovered s =
     (let s = s\<lparr>handleHovered := hovered\<rparr>
      in if preToggling (handleButton s) then s else updateScrollColor s)"

definition handle_release :: "('p, 'm) us_widgets \<Rightarrow> ('p, 'm) us_widgets" where
  "handle_release s =
     (let s = s\<lparr>handleButton := button_handleLockReleaseEvent (handleButton s)\<rparr> in updateScrollColor s)"

section \<open>The handlers\<close>

definition widget_handlers :: "'m magnum \<Rightarrow> 'm view \<Rightarrow> 'p magnum_player \<Rightarrow> f32 \<Rightarrow> (us_event, ('p, 'm) us_widgets) handlers" where
  "widget_handlers mg vw pl t k i =
     (if i = 1 then (case k of
          MousePress_EH \<Rightarrow> Some (\<lambda>ev m s. s\<lparr>asButton := selector_handlePressEvent (asButton s)\<rparr>)
        | MouseRelease_EH \<Rightarrow> Some (\<lambda>ev m s. selector_release mg pl t s)
        | _ \<Rightarrow> None)
      else if i = 2 then (case k of
          Scroll_EH \<Rightarrow> Some (\<lambda>ev m s. s\<lparr>asPanel := panel_handleScrollEvent mg pl t (evOffset ev) (asPanel s)\<rparr>)
        | _ \<Rightarrow> None)
      else if i = 4 then (case k of
          MousePress_EH \<Rightarrow> Some (\<lambda>ev m s. s\<lparr>handleButton := button_handlePressEvent (handleButton s)\<rparr>)
        | MouseRelease_EH \<Rightarrow> Some (\<lambda>ev m s. handle_release s)
        | MouseMove_EH \<Rightarrow> Some (\<lambda>ev m s. s\<lparr>asPanel := handle_handleLockMoveEvent mg vw (selCon s) pl t (evRelative ev) (asPanel s)\<rparr>)
        | _ \<Rightarrow> None)
      else None)"

abbreviation app_handlers :: "'m magnum \<Rightarrow> 'm view \<Rightarrow> 'p magnum_player \<Rightarrow> f32 \<Rightarrow> (us_event, ('p, 'm, ('p, 'm) us_widgets) us_app) handlers" where
  "app_handlers mg vw pl t \<equiv> us_handlers mg pl (widget_handlers mg vw pl t)"

section \<open>Where the events go\<close>

definition over_button :: "nat \<Rightarrow> bool" where "over_button i \<longleftrightarrow> i \<in> {0, 1}"
definition over_handle :: "nat \<Rightarrow> bool" where "over_handle i \<longleftrightarrow> i \<in> {0, 2, 3, 4}"
definition over_grid :: "nat \<Rightarrow> bool" where "over_grid i \<longleftrightarrow> i \<in> {0, 2, 5}"

lemma deepest_widgets:
  "deepest (hover_path over_button us_tree) = Some 1"
  "deepest (hover_path over_handle us_tree) = Some 4"
  "deepest (hover_path over_grid us_tree) = Some 5"
  by (simp_all add: us_tree_def over_button_def over_handle_def over_grid_def deepest_def)

lemma widgets_handle:
  "snd (tryHandleEvent (app_handlers mg vw pl t) MousePress_EH (Some 1) ev m s) =
     s\<lparr>widgets := (widgets s)\<lparr>asButton := selector_handlePressEvent (asButton (widgets s))\<rparr>\<rparr>"
  "snd (tryHandleEvent (app_handlers mg vw pl t) MouseRelease_EH (Some 1) ev m s) = s\<lparr>widgets := selector_release mg pl t (widgets s)\<rparr>"
  "snd (tryHandleEvent (app_handlers mg vw pl t) MouseMove_EH (Some 1) ev m s) = s"
  "snd (tryHandleEvent (app_handlers mg vw pl t) MousePress_EH (Some 4) ev m s) =
     s\<lparr>widgets := (widgets s)\<lparr>handleButton := button_handlePressEvent (handleButton (widgets s))\<rparr>\<rparr>"
  "snd (tryHandleEvent (app_handlers mg vw pl t) MouseRelease_EH (Some 4) ev m s) = s\<lparr>widgets := handle_release (widgets s)\<rparr>"
  "snd (tryHandleEvent (app_handlers mg vw pl t) MouseMove_EH (Some 4) ev m s) =
     s\<lparr>widgets := (widgets s)\<lparr>asPanel := handle_handleLockMoveEvent mg vw (selCon (widgets s)) pl t (evRelative ev) (asPanel (widgets s))\<rparr>\<rparr>"
  by (simp_all add: tryHandleEvent_def us_handlers_def widget_handlers_def)

lemmas widget_steps = widgets_handle widgets_handle [unfolded One_nat_def]

lemma button_ignores_moves:
  "give (app_handlers mg vw pl t) (Some 1) (map (\<lambda>(over, e). (MouseMove_EH, e, m)) moves) s = s"
  by (induction moves) (simp_all add: give_def widget_steps split_beta)

lemma handle_moves_panel:
  "give (app_handlers mg vw pl t) (Some 4) (map (\<lambda>(over, e). (MouseMove_EH, e, m)) moves) s =
     s\<lparr>widgets := (widgets s)\<lparr>asPanel :=
       fold (\<lambda>(over, e). panel_exec mg vw (selCon (widgets s)) pl (DragHandle t (evRelative e))) moves (asPanel (widgets s))\<rparr>\<rparr>"
  by (induction moves arbitrary: s) (simp_all add: give_def widget_steps split_beta)

lemma drag_exec: "panel_exec mg vw con pl (DragHandle t r) = handle_handleLockMoveEvent mg vw con pl t r"
  by (rule ext) simp


text \<open>The application after its first layout, in a window of 1280 by 720 pixels.\<close>

definition laid_out :: "(nat, vector2 \<times> vector2, (nat, vector2 \<times> vector2) us_widgets) us_app" where
  "laid_out = us_init plain_magnum 0 (selector.extend
     (selector_onViewportChange plain_magnum plain_view (1280, 720) whole_window
       (selector_init plain_magnum (constraints_of plain_view (1280, 720)) 0 (\<lambda>_. NaN)))
     \<lparr>handleButton = button_init, handleHovered = False, scrollerActive = False\<rparr>)"

lemma laid_out_parts:
  "asPanel (widgets laid_out) = us_panel (1280, 720)" "selCon (widgets laid_out) = constraints_of plain_view (1280, 720)"
  "toggleCb (button (asButton (widgets laid_out)))" "lockContext app_container_init = None"
proof -
  show "toggleCb (button (asButton (widgets laid_out)))"
    using start_in_step(3) [of plain_magnum plain_view "(1280, 720)" whole_window "constraints_of plain_view (1280, 720)" 0 "\<lambda>_. NaN"]
    by (simp add: laid_out_def us_init_def selector.extend_def)
qed (simp_all add: laid_out_def us_init_def selector.extend_def selector_onViewportChange_def selector_init_def us_panel_def
    app_container_init_def Let_def)



text \<open>The wheel over the grid scrolls the panel around it and never zooms the map.\<close>

theorem wheel_over_grid_scrolls_panel:
  assumes "lockContext a = None"
  shows "\<exists>a'. app_run (app_handlers mg vw pl t) us_tree [MoveTo over_grid e, ScrollBy e'] (a, s) =
    Some (a', s\<lparr>widgets := (widgets s)\<lparr>asPanel := panel_handleScrollEvent mg pl t (evOffset e') (asPanel (widgets s))\<rparr>\<rparr>)"
proof -
  let ?a = "(traverseForHovered us_tree over_grid a)\<lparr>mouseState := mayBeDragging (mouseState a)\<rparr>"
  have d: "deepestHoveredShape ?a = Some 5" by (simp add: traverse_sel [OF us_tree_distinct] deepest_widgets)
  then have ok: "pointers_ok us_tree ?a" by (simp add: pointers_ok_def us_tree_def)
  have up: "the (ancestors 5 us_tree) = [2, 0]" by (simp add: us_tree_def)
  have "propagateMouseMoveEvent (app_handlers mg vw pl t) us_tree over_grid e (a, s) = (?a, s)"
    by (simp add: propagateMouseMoveEvent_def traverse_sel [OF us_tree_distinct] assms Let_def)
  moreover have "propagateScrollEvent (app_handlers mg vw pl t) us_tree e' (?a, s) =
      Some (?a, s\<lparr>widgets := (widgets s)\<lparr>asPanel := panel_handleScrollEvent mg pl t (evOffset e') (asPanel (widgets s))\<rparr>\<rparr>)"
    unfolding scroll_result [OF us_tree_distinct ok] d option.case up
    by (simp add: us_handlers_def widget_handlers_def)
  ultimately show ?thesis by simp
qed

lemma us_panel_range: "in_range (us_panel (1280, 720))"
  unfolding us_panel_def by (rule fresh_range [OF us_panel_scrolls_720 [unfolded us_panel_def] layout_at_start])


theorem wheel_over_grid_scrolls_panel_witness:
  "\<exists>a'. app_run (app_handlers plain_magnum plain_view (countdown_player 3) (f32_lit 0)) us_tree
      [MoveTo over_grid (left_event (5, 5) (0, 0) 0), ScrollBy (left_event (5, 5) (0, 0) 0)] (app_container_init, laid_out) =
    Some (a', laid_out\<lparr>widgets := (widgets laid_out)\<lparr>asPanel :=
      panel_handleScrollEvent plain_magnum (countdown_player 3) (f32_lit 0) vzero (us_panel (1280, 720))\<rparr>\<rparr>)"
  using wheel_over_grid_scrolls_panel [OF laid_out_parts(4), where mg = plain_magnum and vw = plain_view and pl = "countdown_player 3"
      and t = "f32_lit 0" and e = "left_event (5, 5) (0, 0) 0" and e' = "left_event (5, 5) (0, 0) 0" and s = laid_out]
  by (simp only: laid_out_parts left_event_def us_event.simps)

end
