(* ===== verification/Scissor.thy ===== *)
theory Scissor
  imports PanelLayout
begin

text \<open>
  The scissor of \<open>src/app/widgets/scroll/Scissorable.cpp\<close>: the stack of rectangles it sets on the GPU, and the
  conversion of a point from OpenGL coordinates to a pixel, whose cast to \<open>int\<close> is undefined out of range.
\<close>

section \<open>Pixels\<close>

text \<open>\<open>static_cast<int>\<close> of a \<open>float\<close>: truncation, undefined where the result is not an \<open>int\<close>.\<close>

fun int_cast :: "f32 \<Rightarrow> int option" where
  "int_cast (Num q) = (let n = (if q < 0 then - \<lfloor>- q\<rfloor> else \<lfloor>q\<rfloor>) in if - (2 ^ 31) \<le> n \<and> n < 2 ^ 31 then Some n else None)"
| "int_cast (Zero s) = Some 0"
| "int_cast (Inf s) = None"
| "int_cast NaN = None"

text \<open>The argument is the far corner of the viewport.\<close>

definition fromGLtoPixel :: "int \<times> int \<Rightarrow> vector2 \<Rightarrow> (int \<times> int) option" where
  "fromGLtoPixel viewportMax v =
     (let v = v\<lparr>vy := fmul (vy v) (f32_lit (- 1))\<rparr>;
          v = vdiv (vadd v (vscalar (f32_lit 1))) (vscalar (f32_lit 2));
          v = vmul v (vector2_of_px viewportMax)
      in case (int_cast (vx v), int_cast (vy v)) of (Some x, Some y) \<Rightarrow> Some (x, y) | _ \<Rightarrow> None)"

type_synonym range2i = "(int \<times> int) \<times> (int \<times> int)"

definition updateScissorTarget :: "int \<times> int \<Rightarrow> range2 \<Rightarrow> range2i option" where
  "updateScissorTarget viewportMax geom =
     (case (fromGLtoPixel viewportMax (topLeft geom), fromGLtoPixel viewportMax (bottomRight geom)) of
        (Some a, Some b) \<Rightarrow> Some (a, b) | _ \<Rightarrow> None)"

section \<open>The stack\<close>

record scissor_state =
  scissorStack :: "range2i list"
  glScissor :: range2i

definition applyScissor :: "range2i \<Rightarrow> scissor_state \<Rightarrow> scissor_state" where
  "applyScissor target s = s\<lparr>scissorStack := target # scissorStack s, glScissor := target\<rparr>"

text \<open>\<open>pop\<close> of an empty stack is undefined.\<close>

definition undoScissor :: "range2i \<Rightarrow> scissor_state \<Rightarrow> scissor_state option" where
  "undoScissor framebuffer s = (case scissorStack s of
       [] \<Rightarrow> None
     | _ # rest \<Rightarrow>
         Some (s\<lparr>scissorStack := rest, glScissor := (case rest of [] \<Rightarrow> framebuffer | target # _ \<Rightarrow> target)\<rparr>))"

text \<open>Draws that each stay between their scissor, inside one another.\<close>

datatype scissored = Scissored range2i "scissored list"

fun draw_scissored :: "range2i \<Rightarrow> scissored \<Rightarrow> scissor_state \<Rightarrow> scissor_state option"
  and draw_all :: "range2i \<Rightarrow> scissored list \<Rightarrow> scissor_state \<Rightarrow> scissor_state option" where
  "draw_scissored fb (Scissored target inner) s =
     Option.bind (draw_all fb inner (applyScissor target s)) (undoScissor fb)"
| "draw_all fb [] s = Some s"
| "draw_all fb (d # ds) s = Option.bind (draw_scissored fb d s) (draw_all fb ds)"

definition scissor_ok :: "range2i \<Rightarrow> scissor_state \<Rightarrow> bool" where
  "scissor_ok fb s \<longleftrightarrow> glScissor s = (case scissorStack s of [] \<Rightarrow> fb | target # _ \<Rightarrow> target)"

lemma scissored_restores:
  "scissor_ok fb s \<Longrightarrow> draw_scissored fb d s = Some s"
  "scissor_ok fb s \<Longrightarrow> draw_all fb ds s = Some s"
proof (induction fb d s and fb ds s rule: draw_scissored_draw_all.induct)
  case (1 fb target inner s)
  have "scissor_ok fb (applyScissor target s)" by (simp add: scissor_ok_def applyScissor_def)
  then have "draw_scissored fb (Scissored target inner) s = undoScissor fb (applyScissor target s)" using 1(1) by simp
  also have "\<dots> = Some s" using 1(2) by (simp add: undoScissor_def applyScissor_def scissor_ok_def split: list.splits)
  finally show ?case .
qed auto

text \<open>Scissored draws, however deep they are nested, never pop an empty stack and leave stack and scissor as
  they found them.\<close>

theorem scissors_nest:
  assumes "scissor_ok fb s"
  shows "draw_all fb ds s = Some s"
  using scissored_restores(2) [OF assms] .

theorem scissors_nest_witness:
  "draw_all ((0, 0), (800, 600)) [Scissored ((1, 1), (5, 5)) [Scissored ((2, 2), (3, 3)) []], Scissored ((0, 0), (9, 9)) []]
     \<lparr>scissorStack = [], glScissor = ((0, 0), (800, 600))\<rparr> = Some \<lparr>scissorStack = [], glScissor = ((0, 0), (800, 600))\<rparr>"
  by (rule scissors_nest) (simp add: scissor_ok_def)

section \<open>Points in the window are pixels of the framebuffer\<close>

lemma int_cast_range:
  assumes "fle (Zero False) x" and "fle x (f32_of_int n)" and "0 \<le> n" and "n \<le> 2 ^ 24"
  shows "\<exists>k. int_cast x = Some k \<and> 0 \<le> k \<and> k \<le> n"
proof -
  note e = f32_of_int_exact [OF assms(3,4)]
  have fin: "finite_f32 x" using fle_between_finite [OF assms(1,2)] e by simp
  have v: "0 \<le> f32_val x" "f32_val x \<le> of_int n" using assms(1,2) fin e by (simp_all add: fle_finite)
  show ?thesis
  proof (cases x)
    case (Num q)
    then have "0 \<le> \<lfloor>q\<rfloor>" "\<lfloor>q\<rfloor> \<le> n" using v by simp_all linarith
    then show ?thesis using v assms(4) Num by (simp add: Let_def)
  qed (use fin assms(3) in simp_all)
qed

text \<open>A coordinate between -1 and 1, made a part of the framebuffer.\<close>

lemma coordinate_in_range:
  assumes "fle (f32_lit (- 1)) x" and "fle x (f32_lit 1)" and "0 \<le> n" and "n \<le> 2 ^ 24"
  shows "\<exists>k. int_cast (fmul (fdiv (fadd x (f32_lit 1)) (f32_lit 2)) (f32_of_int n)) = Some k \<and> 0 \<le> k \<and> k \<le> n"
proof -
  have c: "f32_lit 1 = Num 1" "f32_lit (- 1) = Num (- 1)" "f32_lit 2 = Num 2" by code_simp+
  note e = f32_of_int_exact [OF assms(3,4)]
  have fx: "finite_f32 x" using fle_between_finite [OF assms(1,2)] by (simp add: c)
  have s: "fadd (Num (- 1)) (Num 1) = Zero False" "fadd (Num 1) (Num 1) = Num 2" by code_simp+
  have "fle (fadd (Num (- 1)) (Num 1)) (fadd x (Num 1))" "fle (fadd x (Num 1)) (fadd (Num 1) (Num 1))"
    by (rule fadd_le_mono; use assms(1,2) fx in \<open>simp add: c fle_refl\<close>)+
  then have a: "fle (Zero False) (fadd x (Num 1))" "fle (fadd x (Num 1)) (Num 2)" by (simp_all only: s)
  let ?u = "fdiv (fadd x (Num 1)) (Num 2)"
  have u: "fle (Zero False) ?u" "fle ?u (Num 1)" using fdiv_unit [OF a] by (simp_all add: c del: fdiv.simps)
  have fu: "finite_f32 ?u" using fle_between_finite [OF u] by simp
  have v: "0 \<le> f32_val ?u" "f32_val ?u \<le> 1" using u fu by (simp_all add: fle_finite del: fdiv.simps)
  obtain t where m: "fmul ?u (f32_of_int n) = round_f32 t (f32_val ?u * of_int n)"
    using fmul_finite [OF fu, of "f32_of_int n"] e by auto
  have p: "0 \<le> f32_val ?u * of_int n" "f32_val ?u * of_int n \<le> of_int n" using v assms(3) by (simp_all add: mult_left_le_one_le del: fdiv.simps)
  have "fle (round_f32 False 0) (round_f32 t (f32_val ?u * of_int n))" using p(1) by (rule round_f32_mono)
  then have lo: "fle (Zero False) (fmul ?u (f32_of_int n))" by (simp add: m round_f32_def del: fdiv.simps)
  have "fle (round_f32 t (f32_val ?u * of_int n)) (round_f32 False (of_int n))" using p(2) by (rule round_f32_mono)
  then have hi: "fle (fmul ?u (f32_of_int n)) (f32_of_int n)" by (simp only: m f32_of_int_def [of n, symmetric])
  show ?thesis unfolding c by (rule int_cast_range [OF lo hi assms(3,4)])
qed

text \<open>A point of the window is converted, without undefined behaviour, to a pixel of the framebuffer or its
  far edge.\<close>

theorem gl_points_are_pixels:
  assumes "fle (f32_lit (- 1)) (vx v)" and "fle (vx v) (f32_lit 1)" and "fle (f32_lit (- 1)) (vy v)" and "fle (vy v) (f32_lit 1)"
    and "0 \<le> width" and "width \<le> 2 ^ 24" and "0 \<le> height" and "height \<le> 2 ^ 24"
  shows "\<exists>x y. fromGLtoPixel (width, height) v = Some (x, y) \<and> 0 \<le> x \<and> x \<le> width \<and> 0 \<le> y \<and> y \<le> height"
proof -
  have c: "f32_lit 1 = Num 1" "f32_lit (- 1) = Num (- 1)" by code_simp+
  have flip: "fle (f32_lit (- 1)) (fmul (vy v) (f32_lit (- 1)))" "fle (fmul (vy v) (f32_lit (- 1))) (f32_lit 1)"
  proof -
    have f: "finite_f32 (vy v)" using fle_between_finite [OF assms(3,4)] by (simp add: c)
    have r: "- 1 \<le> f32_val (vy v)" "f32_val (vy v) \<le> 1" using assms(3,4) f by (simp_all add: fle_finite c)
    obtain s where m: "fmul (vy v) (Num (- 1)) = round_f32 s (f32_val (vy v) * - 1)"
      using fmul_finite [OF f, of "Num (- 1)"] by auto
    have ok: "f32_ok (Num 1)" "f32_ok (Num (- 1))" by code_simp+
    show "fle (f32_lit (- 1)) (fmul (vy v) (f32_lit (- 1)))" unfolding c m using r ok by (intro round_f32_ge) simp_all
    show "fle (fmul (vy v) (f32_lit (- 1))) (f32_lit 1)" unfolding c m using r ok by (intro round_f32_le) simp_all
  qed
  obtain x where x: "int_cast (fmul (fdiv (fadd (vx v) (f32_lit 1)) (f32_lit 2)) (f32_of_int width)) = Some x" "0 \<le> x" "x \<le> width"
    using coordinate_in_range [OF assms(1,2,5,6)] by blast
  obtain y where y: "int_cast (fmul (fdiv (fadd (fmul (vy v) (f32_lit (- 1))) (f32_lit 1)) (f32_lit 2)) (f32_of_int height)) = Some y"
    "0 \<le> y" "y \<le> height"
    using coordinate_in_range [OF flip assms(7,8)] by blast
  show ?thesis
    using x y by (intro exI [of _ x] exI [of _ y])
      (simp add: fromGLtoPixel_def vdiv_def vadd_def vmul_def vscalar_def vector2_of_px_def Let_def del: fmul.simps fdiv.simps)
qed

theorem gl_points_are_pixels_witness:
  "\<exists>x y. fromGLtoPixel (800, 600) (vscalar (f32_lit 1)) = Some (x, y) \<and> 0 \<le> x \<and> x \<le> 800 \<and> 0 \<le> y \<and> y \<le> 600"
proof (rule gl_points_are_pixels)
  have "fle (f32_lit (- 1)) (f32_lit 1)" "fle (f32_lit 1) (f32_lit 1)" by code_simp+
  then show "fle (f32_lit (- 1)) (vx (vscalar (f32_lit 1)))" "fle (vx (vscalar (f32_lit 1))) (f32_lit 1)"
    "fle (f32_lit (- 1)) (vy (vscalar (f32_lit 1)))" "fle (vy (vscalar (f32_lit 1))) (f32_lit 1)" by (simp_all add: vscalar_def)
qed simp_all

end
