(* ===== verification/Drawing.thy ===== *)
theory Drawing
  imports WholeApp UpdateCheck Scissor
begin

text \<open>
  What a frame draws: the uniforms of the shaders (\<open>src/app/shaders/\<close>), which keep their values from one
  draw call to the next and from one frame to the next, the \<open>draw\<close> methods of the widgets, the helpers
  \<open>Grid.hpp\<close>, \<open>Enlighter.hpp\<close> and \<open>SelectionRectangle.hpp\<close>, and the part of \<open>USApplication::drawEvent\<close> that
  draws. A draw call is recorded with the mesh and all the uniforms of its program at that moment; a text
  that Magnum has rendered is only its name.
\<close>

text \<open>What the code takes from Magnum to draw: a matrix' scaling, the texture unit of the text shaders, the
  text of a number with two digits, and the rectangle of a text in a font size; and gettext's translation.\<close>

datatype alignment = MiddleCenter | TopRight

record 'm drawing =
  uniformScaling :: "'m \<Rightarrow> f32"
  vectorTextureUnit :: int
  formatFloat :: "f32 \<Rightarrow> string"
  renderedShape :: "f32 \<Rightarrow> string \<Rightarrow> alignment \<Rightarrow> range2"
  gettext :: "string \<Rightarrow> string"

section \<open>Static texts\<close>

text \<open>A text of \<open>StaticText.hpp\<close>: what its mesh was rendered from, and its rectangle.\<close>

record static_text =
  rendered :: "f32 \<times> string \<times> alignment"
  pixelsShape :: range2

definition generate :: "'m drawing \<Rightarrow> f32 \<Rightarrow> string \<Rightarrow> alignment \<Rightarrow> static_text" where
  "generate dr fontSize txt al = \<lparr>rendered = (fontSize, txt, al), pixelsShape = renderedShape dr fontSize txt al\<rparr>"

definition NEWLINE :: string where "NEWLINE = [CHR 0x0A]"

definition welcomeText :: string where
  "welcomeText = ''Welcome to the Understory developper early demo !'' @ NEWLINE
     @ ''This is a placeholder meant to showcase the text displaying capabilities.'' @ NEWLINE
     @ ''Thank you for trying this early stage build and supporting our efforts !'' @ NEWLINE
     @ ''More infos available on our Discord server and Github page (https://github.com/Amphaal/Understory)''"

definition world_text :: "'m drawing \<Rightarrow> static_text" where
  "world_text dr = generate dr (f32_lit (2 / 10)) (gettext dr welcomeText) MiddleCenter"

text \<open>Each line is translated on its own.\<close>

definition shortcuts_static :: "'m drawing \<Rightarrow> static_text" where
  "shortcuts_static dr =
     (let paddedText = concat (map (gettext dr)
            [''[LeftClick (DoubleClick)] Center screen on cursor'' @ NEWLINE,
             ''[LeftClick (Maintain)] Move camera'' @ NEWLINE,
             ''[RightClick (Maintain / Release)] Snapshot zoom-in'' @ NEWLINE,
             ''[D-Pad] Move camera'' @ NEWLINE,
             ''[Esc] Reset camera'' @ NEWLINE,
             ''[MouseScroll] Zoom'' @ NEWLINE,
             ''[NumPad +/-] Zoom''])
      in generate dr (f32_lit 14) paddedText TopRight)"

section \<open>Shaders\<close>

datatype texture = WorldCache | GridTexture

record 'm distance_field =
  dfMatrix :: 'm
  dfColor :: color4
  dfOutlineColor :: color4
  dfOutlineRange :: "f32 \<times> f32"
  dfSmoothness :: f32

record 'm flat_shader =
  flatMatrix :: 'm
  flatColor :: color4

record 'm rounded_shader =
  u_projMatrix :: 'm
  u_color :: color4
  u_rectBottomLeftPx :: vector2
  u_rectSizePx :: vector2
  u_resolutionPx :: vector2

record 'm grid_shader =
  gridProjection :: 'm
  gridScale :: f32

datatype text_mesh = StaticMesh static_text | DebugMesh string

text \<open>How the indices of a mesh make triangles.\<close>

datatype primitive = Triangles | TriangleFan

fun triangle_list :: "int list \<Rightarrow> (int \<times> int \<times> int) list" where
  "triangle_list (a # b # c # rest) = (a, b, c) # triangle_list rest"
| "triangle_list _ = []"

fun fan_around :: "int \<Rightarrow> int list \<Rightarrow> (int \<times> int \<times> int) list" where
  "fan_around a (b # c # rest) = (a, b, c) # fan_around a (c # rest)"
| "fan_around a _ = []"

definition triangles :: "primitive \<Rightarrow> int list \<Rightarrow> (int \<times> int \<times> int) list" where
  "triangles m is =
     filter (\<lambda>(a, b, c). a \<noteq> b \<and> b \<noteq> c \<and> a \<noteq> c)
       (case m of Triangles \<Rightarrow> triangle_list is | TriangleFan \<Rightarrow> (case is of [] \<Rightarrow> [] | a # rest \<Rightarrow> fan_around a rest))"

datatype 'm draw_call =
    DrawText text_mesh "'m distance_field" "texture option"
  | DrawFlat primitive "vector2 list" "int list" "'m flat_shader"
  | DrawColored "(vector2 \<times> color4) list" "int list" 'm
  | DrawRounded "vector2 list" "int list" "'m rounded_shader"
  | DrawGrid "(vector2 \<times> vector2) list" "int list" "'m grid_shader" "texture option"
  | DrawSelection "vector2 list" "int list" "f32 \<times> f32 \<times> f32 \<times> f32" 'm

datatype blend_factor = ZeroFactor | OneFactor | SourceAlpha | OneMinusSourceAlpha

record 'm gpu =
  scissorTest :: bool
  scissorBox :: range2i
  blending :: bool
  blendFactors :: "blend_factor \<times> blend_factor"
  glTextures :: "int \<Rightarrow> texture option"
  distanceField :: "'m distance_field"
  flatShader :: "'m flat_shader"
  colorMatrix :: 'm
  roundedShader :: "'m rounded_shader"
  gridShader :: "'m grid_shader"
  selectMatrix :: 'm
  drawCalls :: "'m draw_call list"

text \<open>The setters of \<open>Rounded.hpp\<close>, \<open>Grid.hpp\<close> and \<open>SelectionRect.hpp\<close>.\<close>

definition rounded_setProjectionMatrix :: "'m \<Rightarrow> 'm gpu \<Rightarrow> 'm gpu" where
  "rounded_setProjectionMatrix m g = g\<lparr>roundedShader := (roundedShader g)\<lparr>u_projMatrix := m\<rparr>\<rparr>"

definition rounded_setColor :: "color4 \<Rightarrow> 'm gpu \<Rightarrow> 'm gpu" where
  "rounded_setColor c g = g\<lparr>roundedShader := (roundedShader g)\<lparr>u_color := c\<rparr>\<rparr>"

definition rounded_setRectPx :: "range2 \<Rightarrow> 'm gpu \<Rightarrow> 'm gpu" where
  "rounded_setRectPx r g =
     g\<lparr>roundedShader := (roundedShader g)\<lparr>u_rectBottomLeftPx := rmin r, u_rectSizePx := range_size r\<rparr>\<rparr>"

definition rounded_setResolution :: "vector2 \<Rightarrow> 'm gpu \<Rightarrow> 'm gpu" where
  "rounded_setResolution v g = g\<lparr>roundedShader := (roundedShader g)\<lparr>u_resolutionPx := v\<rparr>\<rparr>"

definition grid_setProjectionMatrix :: "'m \<Rightarrow> 'm gpu \<Rightarrow> 'm gpu" where
  "grid_setProjectionMatrix m g = g\<lparr>gridShader := (gridShader g)\<lparr>gridProjection := m\<rparr>\<rparr>"

definition grid_setScale :: "f32 \<Rightarrow> 'm gpu \<Rightarrow> 'm gpu" where
  "grid_setScale x g = g\<lparr>gridShader := (gridShader g)\<lparr>gridScale := x\<rparr>\<rparr>"

definition bind_texture :: "int \<Rightarrow> texture \<Rightarrow> 'm gpu \<Rightarrow> 'm gpu" where
  "bind_texture u x g = g\<lparr>glTextures := (glTextures g)(u := Some x)\<rparr>"

definition GRID_TEXTURE_UNIT :: int where "GRID_TEXTURE_UNIT = 0"

definition grid_bindTexture :: "'m gpu \<Rightarrow> 'm gpu" where
  "grid_bindTexture g = bind_texture GRID_TEXTURE_UNIT GridTexture g"

definition select_setProjectionMatrix :: "'m \<Rightarrow> 'm gpu \<Rightarrow> 'm gpu" where
  "select_setProjectionMatrix m g = g\<lparr>selectMatrix := m\<rparr>"

text \<open>The setters of Magnum's own shaders, and drawing with the uniforms as they are.\<close>

definition df_set :: "('m distance_field \<Rightarrow> 'm distance_field) \<Rightarrow> 'm gpu \<Rightarrow> 'm gpu" where
  "df_set f g = g\<lparr>distanceField := f (distanceField g)\<rparr>"

definition flat_set :: "'m \<Rightarrow> color4 \<Rightarrow> 'm gpu \<Rightarrow> 'm gpu" where
  "flat_set m c g = g\<lparr>flatShader := (flatShader g)\<lparr>flatMatrix := m, flatColor := c\<rparr>\<rparr>"

definition emit :: "('m gpu \<Rightarrow> 'm draw_call) \<Rightarrow> 'm gpu \<Rightarrow> 'm gpu" where
  "emit call g = g\<lparr>drawCalls := drawCalls g @ [call g]\<rparr>"

definition draw_text :: "'m drawing \<Rightarrow> text_mesh \<Rightarrow> 'm gpu \<Rightarrow> 'm gpu" where
  "draw_text dr mesh = emit (\<lambda>g. DrawText mesh (distanceField g) (glTextures g (vectorTextureUnit dr)))"

section \<open>Widgets\<close>

definition quad_indices :: "int list" where "quad_indices = [0, 1, 2, 2, 3, 0]"
definition fan_indices :: "int list" where "fan_indices = [0, 1, 2, 0, 2, 3]"

definition SCRLL_COLOR_IDLE :: color4 where "SCRLL_COLOR_IDLE = Rgbaf 0xCCCCCCFF"
definition SCRLL_COLOR_ACTIVE :: color4 where "SCRLL_COLOR_ACTIVE = Rgbaf 0xFFFFFFFF"
definition PH_COLOR :: color4 where "PH_COLOR = Rgbaf 0xFFFFFF44"

definition handle_draw :: "bool \<Rightarrow> ('p, 'm) scroller_handle \<Rightarrow> 'm gpu \<Rightarrow> 'm gpu" where
  "handle_draw active h g =
     (let g = rounded_setProjectionMatrix (handleMatrix h) g;
          g = rounded_setRectPx (geomScrollerPx h) g;
          g = rounded_setColor (if active then SCRLL_COLOR_ACTIVE else SCRLL_COLOR_IDLE) g
      in emit (\<lambda>g. DrawRounded (verticesScroller h) quad_indices (roundedShader g)) g)"

definition scroller_mayDraw :: "bool \<Rightarrow> ('p, 'm) scroller \<Rightarrow> 'm gpu \<Rightarrow> 'm gpu" where
  "scroller_mayDraw active s g =
     (if \<not> contentBigEnough s then g
      else
        let g = rounded_setProjectionMatrix (scMatrix s) g;
            g = rounded_setRectPx (geomPhPx s) g;
            g = rounded_setColor PH_COLOR g;
            g = emit (\<lambda>g. DrawRounded (verticesPh s) quad_indices (roundedShader g)) g
        in handle_draw active (handle s) g)"

definition drawInbetweenScissor :: "'m magnum \<Rightarrow> ('p, 'm) grid \<Rightarrow> 'm gpu \<Rightarrow> 'm gpu" where
  "drawInbetweenScissor mg c g =
     (let g = g\<lparr>colorMatrix := grid_matrix mg c\<rparr>
      in emit (\<lambda>g. DrawColored (gridVertices c) quad_indices (colorMatrix g)) g)"

definition panel_mayDraw :: "'m magnum \<Rightarrow> 'p magnum_player \<Rightarrow> bool \<Rightarrow> ('p, 'm) panel \<Rightarrow> 'm gpu \<Rightarrow> 'm gpu" where
  "panel_mayDraw mg pl active p g =
     (if \<not> panelToggled p \<and> \<not> isAnimationPlaying pl (panelAnim p) then g
      else
        let g = flat_set (panelMatrix p) (Rgbaf 0x000000AA) g;
            g = emit (\<lambda>g. DrawFlat Triangles (panelVertices p) quad_indices (flatShader g)) g;
            g = scroller_mayDraw active (scroller p) g
        in drawInbetweenScissor mg (content p) g)"

definition button_draw :: "('p, 'm) selector_button \<Rightarrow> 'm gpu \<Rightarrow> 'm gpu" where
  "button_draw b g =
     (let g = flat_set (buttonMatrix b) (case currentColor b of White \<Rightarrow> Rgbf 0xFFFFFF | Black \<Rightarrow> Rgbf 0x000000) g
      in emit (\<lambda>g. DrawFlat Triangles (buttonVertices b) quad_indices (flatShader g)) g)"

definition text_draw :: "'m drawing \<Rightarrow> static_text \<Rightarrow> ('p, 'm) shortcuts_text \<Rightarrow> 'm gpu \<Rightarrow> 'm gpu" where
  "text_draw dr txt x g =
     (let g = df_set (\<lambda>u. u\<lparr>dfColor := RgbAlpha 0xffffff (textAlpha x), dfOutlineColor := Rgbaf 0xffffffAA, dfMatrix := textMatrix x\<rparr>) g
      in draw_text dr (StaticMesh txt) g)"

definition enlighterColor :: "('p, 'm) shortcuts_text \<Rightarrow> color4" where
  "enlighterColor x = RgbAlpha 0x00000 (enlighterAlpha x)"

section \<open>Helpers\<close>

definition enlighter_vertices :: "vector2 list" where
  "enlighter_vertices =
     [\<lparr>vx = f32_lit (- 1), vy = f32_lit (- 1)\<rparr>, \<lparr>vx = f32_lit 1, vy = f32_lit (- 1)\<rparr>,
      \<lparr>vx = f32_lit 1, vy = f32_lit 1\<rparr>, \<lparr>vx = f32_lit (- 1), vy = f32_lit 1\<rparr>]"

text \<open>The mesh is a fan over the indices of a list: the extra triangles have no area.\<close>

lemma fan_covers_quad: "triangles TriangleFan fan_indices = triangles Triangles fan_indices"
  by (simp add: triangles_def fan_indices_def)

definition enlighter_draw :: "'m magnum \<Rightarrow> color4 \<Rightarrow> 'm gpu \<Rightarrow> 'm gpu" where
  "enlighter_draw mg c g =
     (let g = flat_set (identityMatrix mg) c g
      in emit (\<lambda>g. DrawFlat TriangleFan enlighter_vertices fan_indices (flatShader g)) g)"

definition MAP_SIZE :: f32 where "MAP_SIZE = f32_lit 1000"
definition MINIMUM_HEIGHT :: int where "MINIMUM_HEIGHT = 600"

text \<open>What the renderer is set to once.\<close>

definition renderer_setup :: "'m gpu \<Rightarrow> 'm gpu" where
  "renderer_setup g =
     (let g = g\<lparr>scissorTest := True\<rparr>;
          g = g\<lparr>blending := True\<rparr>
      in g\<lparr>blendFactors := (SourceAlpha, OneMinusSourceAlpha)\<rparr>)"

text \<open>The quad of the grid: as many images as the map is big, on each axis, an image's pixel being one pixel
  of a window of the given height.\<close>

definition grid_vertices :: "int \<times> int \<Rightarrow> f32 \<Rightarrow> int \<Rightarrow> (vector2 \<times> vector2) list" where
  "grid_vertices imageSize mapSize windowHeight =
     (let squareSize = vmul (vector2_of_px imageSize) (vscalar (fdiv (f32_lit 1) (f32_of_int windowHeight)));
          gridRadius = vdiv (vmul squareSize (vscalar mapSize)) (vscalar (f32_lit 2));
          x = vx gridRadius; y = vy gridRadius
      in [(\<lparr>vx = fneg x, vy = y\<rparr>, \<lparr>vx = f32_lit 0, vy = mapSize\<rparr>),
          (\<lparr>vx = x, vy = y\<rparr>, \<lparr>vx = mapSize, vy = mapSize\<rparr>),
          (\<lparr>vx = x, vy = fneg y\<rparr>, \<lparr>vx = mapSize, vy = f32_lit 0\<rparr>),
          (\<lparr>vx = fneg x, vy = fneg y\<rparr>, \<lparr>vx = f32_lit 0, vy = f32_lit 0\<rparr>)])"

text \<open>The constructor of \<open>Grid.hpp\<close> ends the program without its plugin or its image, and aborts on one that has
  no pixels to read; it makes the texture, with its mipmaps, and the mesh.\<close>

datatype start_failure = ExitCode int | Aborted

definition grid_create :: "bool \<Rightarrow> bool \<Rightarrow> (int \<times> int) option \<Rightarrow> f32 \<Rightarrow> int \<Rightarrow> start_failure + nat \<times> (vector2 \<times> vector2) list" where
  "grid_create importer opened loaded mapSize windowHeight =
     (if \<not> importer then Inl (ExitCode 1)
      else if \<not> opened then Inl (ExitCode 2)
      else case loaded of
        None \<Rightarrow> Inl Aborted
      | Some imageSize \<Rightarrow>
          let levels = log2_int (fst imageSize) + 1
          in Inr (levels, grid_vertices imageSize mapSize windowHeight))"

text \<open>The mipmaps go down to a single pixel of the image's width.\<close>

lemma grid_mipmaps:
  "grid_create importer opened (Some (width, height)) mapSize windowHeight = Inr (levels, mesh) \<Longrightarrow> 0 < width \<Longrightarrow>
     width div 2 ^ (levels - 1) = 1"
  using log2_int_bounds [of width]
  by (auto simp: grid_create_def Let_def split: if_splits intro!: int_div_pos_eq [where r = "width - 2 ^ log2_int width"])

definition grid_draw :: "(vector2 \<times> vector2) list \<Rightarrow> 'm \<Rightarrow> f32 \<Rightarrow> 'm gpu \<Rightarrow> 'm gpu" where
  "grid_draw mesh matrix scale g =
     (let g = grid_bindTexture g;
          g = grid_setProjectionMatrix matrix g;
          g = grid_setScale scale g
      in emit (\<lambda>g. DrawGrid mesh quad_indices (gridShader g) (glTextures g GRID_TEXTURE_UNIT)) g)"

definition selection_mayDraw :: "'m \<Rightarrow> selection \<Rightarrow> 'm gpu \<Rightarrow> 'm gpu" where
  "selection_mayDraw projectionMatrix r g =
     (if \<not> isSelecting r then g
      else
        let g = select_setProjectionMatrix projectionMatrix g
        in emit (\<lambda>g. DrawSelection (bufferData r) fan_indices (innerRect r) (selectMatrix g)) g)"

section \<open>The application\<close>

text \<open>\<open>USApplication\<close> with everything it owns: the container it is, the handlers' state, the shortcuts, the
  matrices of its viewport, the text of its debug line, the GPU and the update check.\<close>

record ('p, 'm, 'e) us_world =
  container :: app_container
  app :: "('p, 'm, ('p, 'm) us_widgets) us_app"
  stWidget :: "('p, 'm) shortcuts_text"
  stText :: static_text
  worldText :: static_text
  projectionWorld :: 'm
  projectionDebugText :: 'm
  gridMesh :: "(vector2 \<times> vector2) list"
  debugText :: string
  gpu :: "'m gpu"
  updateChecker :: "'e update_poller"

definition DEBUG_TEXT_COLOR :: color4 where
  "DEBUG_TEXT_COLOR = Components (f32_lit 1) (f32_lit (7 / 10)) (f32_lit (3 / 10))"

definition updateDebugText :: "'m magnum \<Rightarrow> 'm drawing \<Rightarrow> ('p, 'm, 'e) us_world \<Rightarrow> ('p, 'm, 'e) us_world" where
  "updateDebugText mg dr w =
     (let m = world (nav (app w));
          us = uniformScaling dr m;
          tr = vdiv (matTranslation mg m) (vscalar us)
      in w\<lparr>debugText := ''x: '' @ formatFloat dr (vx tr) @ [CHR 0x0A] @ ''y: '' @ formatFloat dr (vy tr) @ [CHR 0x0A]
           @ ''Zoom: x'' @ formatFloat dr us\<rparr>)"

text \<open>The part of \<open>drawEvent\<close> between the animations and the swap of the buffers.\<close>

definition us_draw :: "'m magnum \<Rightarrow> 'm drawing \<Rightarrow> 'p magnum_player \<Rightarrow> ('p, 'm, 'e) us_world \<Rightarrow> ('p, 'm, 'e) us_world" where
  "us_draw mg dr pl w =
     (let s = app w;
          ui = widgets s;
          worldMatrix = mat_mult mg (projectionWorld w) (world (nav s));
          scale = uniformScaling dr (world (nav s));
          g = gpu w;
          g = bind_texture (vectorTextureUnit dr) WorldCache g;
          g = df_set (\<lambda>u. u\<lparr>dfMatrix := worldMatrix, dfColor := Rgbf 0x2f83cc, dfOutlineColor := Rgbf 0xdcdcdc,
                dfOutlineRange := (f32_lit (45 / 100), f32_lit (35 / 100)), dfSmoothness := fdiv (f32_lit (15 / 1000)) scale\<rparr>) g;
          g = draw_text dr (StaticMesh (worldText w)) g;
          g = grid_draw (gridMesh w) worldMatrix scale g;
          g = selection_mayDraw (projectionWorld w) (selectionRect s) g;
          g = panel_mayDraw mg pl (scrollerActive ui) (asPanel ui) g;
          g = button_draw (asButton ui) g;
          w = updateDebugText mg dr w;
          g = df_set (\<lambda>u. u\<lparr>dfColor := DEBUG_TEXT_COLOR, dfOutlineColor := DEBUG_TEXT_COLOR,
                dfOutlineRange := (f32_lit (47 / 100), f32_lit (44 / 100)), dfSmoothness := f32_lit (33 / 100),
                dfMatrix := projectionDebugText w\<rparr>) g;
          g = draw_text dr (DebugMesh (debugText w)) g;
          g = enlighter_draw mg (enlighterColor (stWidget w)) g;
          g = text_draw dr (stText w) (stWidget w) g
      in w\<lparr>gpu := g\<rparr>)"

section \<open>The scene\<close>

text \<open>What is on screen, with nothing of the programs' earlier uniforms in it but the resolution, which only a
  resize sets.\<close>

definition rounded_call :: "vector2 \<Rightarrow> 'm \<Rightarrow> range2 \<Rightarrow> color4 \<Rightarrow> vector2 list \<Rightarrow> 'm draw_call" where
  "rounded_call resolution m r c verts = DrawRounded verts quad_indices
     \<lparr>u_projMatrix = m, u_color = c, u_rectBottomLeftPx = rmin r, u_rectSizePx = range_size r, u_resolutionPx = resolution\<rparr>"

definition panel_scene :: "'m magnum \<Rightarrow> vector2 \<Rightarrow> bool \<Rightarrow> ('p, 'm) panel \<Rightarrow> 'm draw_call list" where
  "panel_scene mg resolution active p =
     [DrawFlat Triangles (panelVertices p) quad_indices \<lparr>flatMatrix = panelMatrix p, flatColor = Rgbaf 0x000000AA\<rparr>]
     @ (if contentBigEnough (scroller p)
        then [rounded_call resolution (scMatrix (scroller p)) (geomPhPx (scroller p)) PH_COLOR (verticesPh (scroller p)),
              rounded_call resolution (handleMatrix (handle (scroller p))) (geomScrollerPx (handle (scroller p)))
                (if active then SCRLL_COLOR_ACTIVE else SCRLL_COLOR_IDLE) (verticesScroller (handle (scroller p)))]
        else [])
     @ [DrawColored (gridVertices (content p)) quad_indices (grid_matrix mg (content p))]"

definition shown :: "'p magnum_player \<Rightarrow> ('p, 'm) panel \<Rightarrow> bool" where
  "shown pl p \<longleftrightarrow> panelToggled p \<or> isAnimationPlaying pl (panelAnim p)"

definition scene :: "'m magnum \<Rightarrow> 'm drawing \<Rightarrow> 'p magnum_player \<Rightarrow> ('p, 'm, 'e) us_world \<Rightarrow> 'm draw_call list" where
  "scene mg dr pl w =
     (let s = app w;
          ui = widgets s;
          worldMatrix = mat_mult mg (projectionWorld w) (world (nav s));
          scale = uniformScaling dr (world (nav s));
          debug = \<lparr>dfMatrix = projectionDebugText w, dfColor = DEBUG_TEXT_COLOR, dfOutlineColor = DEBUG_TEXT_COLOR,
              dfOutlineRange = (f32_lit (47 / 100), f32_lit (44 / 100)), dfSmoothness = f32_lit (33 / 100)\<rparr>
      in [DrawText (StaticMesh (worldText w))
            \<lparr>dfMatrix = worldMatrix, dfColor = Rgbf 0x2f83cc, dfOutlineColor = Rgbf 0xdcdcdc,
             dfOutlineRange = (f32_lit (45 / 100), f32_lit (35 / 100)), dfSmoothness = fdiv (f32_lit (15 / 1000)) scale\<rparr>
            (Some WorldCache),
          DrawGrid (gridMesh w) quad_indices \<lparr>gridProjection = worldMatrix, gridScale = scale\<rparr> (Some GridTexture)]
         @ (if isSelecting (selectionRect s)
            then [DrawSelection (bufferData (selectionRect s)) fan_indices (innerRect (selectionRect s)) (projectionWorld w)] else [])
         @ (if shown pl (asPanel ui)
            then panel_scene mg (u_resolutionPx (roundedShader (gpu w))) (scrollerActive ui) (asPanel ui) else [])
         @ [DrawFlat Triangles (buttonVertices (asButton ui)) quad_indices
              \<lparr>flatMatrix = buttonMatrix (asButton ui),
               flatColor = (case currentColor (asButton ui) of White \<Rightarrow> Rgbf 0xFFFFFF | Black \<Rightarrow> Rgbf 0x000000)\<rparr>,
            DrawText (DebugMesh (debugText (updateDebugText mg dr w))) debug (Some WorldCache),
            DrawFlat TriangleFan enlighter_vertices fan_indices \<lparr>flatMatrix = identityMatrix mg, flatColor = enlighterColor (stWidget w)\<rparr>,
            DrawText (StaticMesh (stText w))
              (debug\<lparr>dfColor := RgbAlpha 0xffffff (textAlpha (stWidget w)), dfOutlineColor := Rgbaf 0xffffffAA,
                     dfMatrix := textMatrix (stWidget w)\<rparr>) (Some WorldCache)])"

text \<open>What each part of a frame adds to the draw calls, and that it leaves the uniforms of the others.\<close>

lemma scroller_drawn:
  "drawCalls (scroller_mayDraw active s g) = drawCalls g
     @ (if contentBigEnough s
        then [rounded_call (u_resolutionPx (roundedShader g)) (scMatrix s) (geomPhPx s) PH_COLOR (verticesPh s),
              rounded_call (u_resolutionPx (roundedShader g)) (handleMatrix (handle s)) (geomScrollerPx (handle s))
                (if active then SCRLL_COLOR_ACTIVE else SCRLL_COLOR_IDLE) (verticesScroller (handle s))]
        else [])"
  "glTextures (scroller_mayDraw active s g) = glTextures g" "distanceField (scroller_mayDraw active s g) = distanceField g"
  "u_resolutionPx (roundedShader (scroller_mayDraw active s g)) = u_resolutionPx (roundedShader g)"
  by (simp_all add: scroller_mayDraw_def handle_draw_def rounded_setProjectionMatrix_def rounded_setRectPx_def rounded_setColor_def
      emit_def rounded_call_def Let_def)

lemma panel_drawn:
  "drawCalls (panel_mayDraw mg pl active p g) = drawCalls g
     @ (if shown pl p then panel_scene mg (u_resolutionPx (roundedShader g)) active p else [])"
  "glTextures (panel_mayDraw mg pl active p g) = glTextures g" "distanceField (panel_mayDraw mg pl active p g) = distanceField g"
  "u_resolutionPx (roundedShader (panel_mayDraw mg pl active p g)) = u_resolutionPx (roundedShader g)"
  by (auto simp: panel_mayDraw_def panel_scene_def shown_def flat_set_def emit_def drawInbetweenScissor_def scroller_drawn Let_def)

lemma quad_drawn:
  "drawCalls (button_draw b g) = drawCalls g @ [DrawFlat Triangles (buttonVertices b) quad_indices
     \<lparr>flatMatrix = buttonMatrix b, flatColor = (case currentColor b of White \<Rightarrow> Rgbf 0xFFFFFF | Black \<Rightarrow> Rgbf 0x000000)\<rparr>]"
  "glTextures (button_draw b g) = glTextures g" "distanceField (button_draw b g) = distanceField g"
  "u_resolutionPx (roundedShader (button_draw b g)) = u_resolutionPx (roundedShader g)"
  "drawCalls (enlighter_draw mg c g) =
     drawCalls g @ [DrawFlat TriangleFan enlighter_vertices fan_indices \<lparr>flatMatrix = identityMatrix mg, flatColor = c\<rparr>]"
  "glTextures (enlighter_draw mg c g) = glTextures g" "distanceField (enlighter_draw mg c g) = distanceField g"
  "u_resolutionPx (roundedShader (enlighter_draw mg c g)) = u_resolutionPx (roundedShader g)"
  by (simp_all add: button_draw_def enlighter_draw_def flat_set_def emit_def Let_def)

lemma map_drawn:
  "drawCalls (grid_draw mesh m scale g) =
     drawCalls g @ [DrawGrid mesh quad_indices \<lparr>gridProjection = m, gridScale = scale\<rparr> (Some GridTexture)]"
  "glTextures (grid_draw mesh m scale g) = (glTextures g)(GRID_TEXTURE_UNIT := Some GridTexture)"
  "distanceField (grid_draw mesh m scale g) = distanceField g"
  "u_resolutionPx (roundedShader (grid_draw mesh m scale g)) = u_resolutionPx (roundedShader g)"
  "drawCalls (selection_mayDraw m r g) =
     drawCalls g @ (if isSelecting r then [DrawSelection (bufferData r) fan_indices (innerRect r) m] else [])"
  "glTextures (selection_mayDraw m r g) = glTextures g" "distanceField (selection_mayDraw m r g) = distanceField g"
  "u_resolutionPx (roundedShader (selection_mayDraw m r g)) = u_resolutionPx (roundedShader g)"
  by (simp_all add: grid_draw_def grid_bindTexture_def bind_texture_def grid_setProjectionMatrix_def grid_setScale_def
      selection_mayDraw_def select_setProjectionMatrix_def emit_def Let_def)

lemma text_drawn:
  "drawCalls (draw_text dr mesh g) = drawCalls g @ [DrawText mesh (distanceField g) (glTextures g (vectorTextureUnit dr))]"
  "glTextures (draw_text dr mesh g) = glTextures g" "distanceField (draw_text dr mesh g) = distanceField g"
  "u_resolutionPx (roundedShader (draw_text dr mesh g)) = u_resolutionPx (roundedShader g)"
  "drawCalls (df_set f g) = drawCalls g" "glTextures (df_set f g) = glTextures g" "distanceField (df_set f g) = f (distanceField g)"
  "u_resolutionPx (roundedShader (df_set f g)) = u_resolutionPx (roundedShader g)"
  "drawCalls (bind_texture u x g) = drawCalls g" "glTextures (bind_texture u x g) = (glTextures g)(u := Some x)"
  "distanceField (bind_texture u x g) = distanceField g"
  "u_resolutionPx (roundedShader (bind_texture u x g)) = u_resolutionPx (roundedShader g)"
  by (simp_all add: draw_text_def df_set_def bind_texture_def emit_def)

lemmas drawn = panel_drawn quad_drawn map_drawn text_drawn

lemma debug_text_keeps:
  "app (updateDebugText mg dr w) = app w" "stText (updateDebugText mg dr w) = stText w" "stWidget (updateDebugText mg dr w) = stWidget w"
  "projectionDebugText (updateDebugText mg dr w) = projectionDebugText w" "gpu (updateDebugText mg dr w) = gpu w"
  "projectionWorld (updateDebugText mg dr w) = projectionWorld w"
  by (simp_all add: updateDebugText_def Let_def)

lemma frame_calls:
  assumes "vectorTextureUnit dr \<noteq> GRID_TEXTURE_UNIT"
  shows "drawCalls (gpu (us_draw mg dr pl w)) = drawCalls (gpu w) @ scene mg dr pl w"
  using assms
  by (simp add: us_draw_def scene_def Let_def text_draw_def drawn debug_text_keeps)

text \<open>C38: A frame draws the same, in the same order, whatever the earlier frames left in the shaders: every uniform
  it draws with is a function of the application's state, and every text has its own texture although
  the grid binds another in between.\<close>

theorem frame_draws_scene:
  assumes "vectorTextureUnit dr \<noteq> GRID_TEXTURE_UNIT"
    and "drawCalls g = []" and "drawCalls g' = []" and "u_resolutionPx (roundedShader g) = u_resolutionPx (roundedShader g')"
  shows "drawCalls (gpu (us_draw mg dr pl (w\<lparr>gpu := g\<rparr>))) = drawCalls (gpu (us_draw mg dr pl (w\<lparr>gpu := g'\<rparr>)))
    \<and> drawCalls (gpu (us_draw mg dr pl (w\<lparr>gpu := g\<rparr>))) = scene mg dr pl (w\<lparr>gpu := g\<rparr>)"
proof -
  have "scene mg dr pl (w\<lparr>gpu := g\<rparr>) = scene mg dr pl (w\<lparr>gpu := g'\<rparr>)"
    using assms(4) by (simp add: scene_def updateDebugText_def Let_def)
  then show ?thesis using assms(2,3) by (simp add: frame_calls [OF assms(1)])
qed

end
