(* ===== verification/Placement.thy ===== *)
theory Placement
  imports Selector
begin

text \<open>
  Where the widgets are: a widget is drawn with a matrix and the vertices of its mesh, hovered by its
  geometry, and, the scroller's parts, cut out in pixels. The lemmas show that these stay the same place
  through everything the panel and the selector button do, and that the panel of the application keeps a
  way to scroll in windows of every size.
\<close>

section \<open>In place\<close>

definition in_place :: "'m view \<Rightarrow> 'm \<Rightarrow> placed \<Rightarrow> bool" where
  "in_place vw m w \<longleftrightarrow> updateGeometry vw m w = w"

lemma in_place_update [simp]: "in_place vw m (updateGeometry vw m w)"
  by (simp add: in_place_def updateGeometry_def)

lemma shape_update [simp]: "shape (updateGeometry vw m w) = shape w" "shape (updateShape r w) = r"
  by (simp_all add: updateGeometry_def updateShape_def)

definition button_placed :: "'m view \<Rightarrow> ('p, 'm) selector_button \<Rightarrow> bool" where
  "button_placed vw b \<longleftrightarrow> in_place vw (buttonMatrix b) (buttonPlaced b) \<and> buttonVertices b = corners (shape (buttonPlaced b))"

definition handle_placed :: "'m view \<Rightarrow> 'm constraints \<Rightarrow> ('p, 'm) scroller_handle \<Rightarrow> bool" where
  "handle_placed vw con h \<longleftrightarrow> in_place vw (handleMatrix h) (handlePlaced h) \<and> verticesScroller h = corners (shape (handlePlaced h))
     \<and> geomScrollerPx h = shapeIntoPixel con (geometry (handlePlaced h))"

definition ph_corners :: "range2 \<Rightarrow> vector2 list" where
  "ph_corners r = [rmin r, topLeft r, rmax r, bottomRight r]"

definition scroller_placed :: "'m view \<Rightarrow> 'm constraints \<Rightarrow> ('p, 'm) scroller \<Rightarrow> bool" where
  "scroller_placed vw con s \<longleftrightarrow> in_place vw (scMatrix s) (scPlaced s) \<and> verticesPh s = ph_corners (shape (scPlaced s))
     \<and> geomPhPx s = shapeIntoPixel con (geometry (scPlaced s)) \<and> (contentBigEnough s \<longrightarrow> handle_placed vw con (handle s))"

definition panel_placed :: "'m view \<Rightarrow> 'm constraints \<Rightarrow> ('p, 'm) panel \<Rightarrow> bool" where
  "panel_placed vw con p \<longleftrightarrow> in_place vw (panelMatrix p) (panelPlaced p) \<and> panelVertices p = corners (shape (panelPlaced p))
     \<and> scroller_placed vw con (scroller p)"

section \<open>What keeps them so\<close>

lemma handle_update_placed:
  "verticesScroller h = corners (shape (handlePlaced h)) \<Longrightarrow> handle_placed vw con (handle_updateGeometry mg vw con h)"
  by (simp add: handle_placed_def handle_updateGeometry_def Let_def split: option.split)

lemma handle_moved_placed:
  "handle_placed vw con h \<Longrightarrow> handle_placed vw con (animateByPercentage pl t prc h)"
  "handle_placed vw con h \<Longrightarrow> handle_placed vw con (inplaceByPercentage mg vw con pl prc h)"
  "handle_placed vw con h \<Longrightarrow> handle_placed vw con (handle_matrixUpdateRequested mg vw con m h)"
  "handle_placed vw con h \<Longrightarrow> handle_placed vw con (handle_advance mg vw con pl t h)"
proof -
  assume h: "handle_placed vw con h"
  then have v: "verticesScroller h = corners (shape (handlePlaced h))" by (simp add: handle_placed_def)
  show "handle_placed vw con (animateByPercentage pl t prc h)"
    using h by (simp add: animateByPercentage_def animateScrollByTr_def handle_placed_def Let_def)
  show "handle_placed vw con (inplaceByPercentage mg vw con pl prc h)"
    unfolding inplaceByPercentage_def handle_onAnimationProgress_def Let_def
    by (rule handle_update_placed) (simp add: scroll_onAnimationProgress_def v)
  show "handle_placed vw con (handle_matrixUpdateRequested mg vw con m h)"
    unfolding handle_matrixUpdateRequested_def by (rule handle_update_placed) (simp add: v)
  have upd: "handle_placed vw con (g\<lparr>scrollAnim := a\<rparr>) = handle_placed vw con g" for g a by (simp add: handle_placed_def)
  have "handle_placed vw con (handle_onAnimationProgress mg vw con (h\<lparr>scrollAnim := a\<rparr>))" for a
    unfolding handle_onAnimationProgress_def by (rule handle_update_placed) (simp add: scroll_onAnimationProgress_def v)
  then show "handle_placed vw con (handle_advance mg vw con pl t h)"
    using h by (simp add: handle_advance_def player_advance_def upd split_beta Let_def)
qed

lemma updateSize_placed: "handle_placed vw con (updateSize mg vw con hs tg h)"
  unfolding updateSize_def Let_def by (rule handle_update_placed) simp

lemma handle_replaced:
  "scroller_placed vw con s \<Longrightarrow> (handle_placed vw con (handle s) \<Longrightarrow> handle_placed vw con h) \<Longrightarrow> scroller_placed vw con (s\<lparr>handle := h\<rparr>)"
  by (auto simp: scroller_placed_def)

lemma ratio_placed:
  assumes "in_place vw (scMatrix s) (scPlaced s)" "verticesPh s = ph_corners (shape (scPlaced s))"
    and "geomPhPx s = shapeIntoPixel con (geometry (scPlaced s))"
  shows "scroller_placed vw con (onContentRatioChanged mg vw con r s)"
  using assms by (simp add: scroller_placed_def onContentRatioChanged_def updateSize_placed Let_def)

lemma scroller_laid:
  "in_place vw (scMatrix (snd (scroller_availableSpaceChanged vw con r s))) (scPlaced (snd (scroller_availableSpaceChanged vw con r s)))"
  "verticesPh (snd (scroller_availableSpaceChanged vw con r s)) = ph_corners (shape (scPlaced (snd (scroller_availableSpaceChanged vw con r s))))"
  "geomPhPx (snd (scroller_availableSpaceChanged vw con r s)) =
     shapeIntoPixel con (geometry (scPlaced (snd (scroller_availableSpaceChanged vw con r s))))"
  by (simp_all add: scroller_availableSpaceChanged_def scroller_updateGeometry_def ph_corners_def split_beta Let_def)

lemma panel_laid_placed:
  assumes "setupDone p \<Longrightarrow> panelVertices p = corners (shape (panelPlaced p))"
  shows "panel_placed vw con (panel_onViewportChange mg vw con space p)"
proof -
  have "panelVertices (panel_availableSpaceChanged space p) = corners (shape (panelPlaced (panel_availableSpaceChanged space p)))"
    using assms by (simp add: panel_availableSpaceChanged_def Let_def)
  moreover have "scroller_placed vw con (onContentRatioChanged mg vw con r
      (snd (scroller_availableSpaceChanged vw con space' s)\<lparr>handle := h\<rparr>))" for r space' h s
    by (rule ratio_placed) (simp_all add: scroller_laid)
  ultimately show ?thesis
    by (simp add: panel_placed_def panel_onViewportChange_def panel_updateGeometry_def split_beta Let_def)
qed

lemma panel_propagate_placed:
  assumes "panelVertices p = corners (shape (panelPlaced p))" and "scroller_placed vw con (scroller p)"
  shows "panel_placed vw con (panel_propagateMatrixChanges mg vw con p)"
  using assms handle_moved_placed(3) [of vw con "handle (scroller p)" mg]
  by (simp add: panel_placed_def panel_propagateMatrixChanges_def panel_updateGeometry_def scroller_placed_def
      scroller_matrixUpdateRequested_def scroller_updateGeometry_def Let_def)

lemma panel_advance_placed:
  assumes "panel_placed vw con p"
  shows "panel_placed vw con (panel_advance mg vw con pl t p)"
proof -
  have upd: "panel_placed vw con (q\<lparr>panelAnim := a\<rparr>) = panel_placed vw con q" for q a by (simp add: panel_placed_def)
  have "panel_placed vw con (panel_onAnimationProgress mg vw con (p\<lparr>panelAnim := a\<rparr>))" for a
    unfolding panel_onAnimationProgress_def
    by (rule panel_propagate_placed) (use assms in \<open>simp_all add: panel_placed_def definePanelPosition_def\<close>)
  then show ?thesis using assms by (simp add: panel_advance_def player_advance_def upd split_beta Let_def)
qed

lemma panel_exec_placed:
  assumes "panel_placed vw con p"
  shows "panel_placed vw con (panel_exec mg vw con pl i p)"
proof (cases i)
  case (PanelFrame t)
  let ?p = "panel_advance mg vw con pl t p"
  have "panel_placed vw con ?p" using assms by (rule panel_advance_placed)
  then show ?thesis
    by (simp add: PanelFrame panel_frame_def panel_placed_def handle_replaced handle_moved_placed Let_def)
qed (use assms in \<open>simp_all add: panel_handleScrollEvent_def handle_handleLockMoveEvent_def scrollFromHandle_def panel_toggle_def
      panel_onToggled_def panel_placed_def handle_replaced handle_moved_placed split_beta Let_def\<close>)

lemma button_placed_moves:
  "button_placed vw b \<Longrightarrow> button_placed vw (button_advance mg vw pl t b)"
  "(buttonSetup b \<Longrightarrow> buttonVertices b = corners (shape (buttonPlaced b))) \<Longrightarrow> button_placed vw (button_onViewportChange mg vw con b)"
proof -
  have g: "buttonVertices b = corners (shape (buttonPlaced b)) \<Longrightarrow> button_placed vw (button_updateGeometry mg vw b)" for b
    by (simp add: button_placed_def button_updateGeometry_def Let_def)
  show "button_placed vw (button_advance mg vw pl t b)" if b: "button_placed vw b"
  proof -
    have upd: "button_placed vw (c\<lparr>buttonAnim := a\<rparr>) = button_placed vw c" for c a by (simp add: button_placed_def)
    have "button_placed vw (button_onAnimationProgress mg vw (b\<lparr>buttonAnim := a\<rparr>))" for a
      unfolding button_onAnimationProgress_def by (rule g) (use b in \<open>simp add: button_placed_def\<close>)
    then show ?thesis using b by (simp add: button_advance_def player_advance_def upd split_beta Let_def)
  qed
  assume v: "buttonSetup b \<Longrightarrow> buttonVertices b = corners (shape (buttonPlaced b))"
  have "buttonVertices (button_availableSpaceChanged mg vw b) = corners (shape (buttonPlaced (button_availableSpaceChanged mg vw b)))"
    using v by (simp add: button_availableSpaceChanged_def button_updateGeometry_def corners_def bottomRight_def topLeft_def
        vscalar_def eval_nat_numeral Let_def)
  then show "button_placed vw (button_onViewportChange mg vw con b)"
    unfolding button_onViewportChange_def Let_def by (intro g) simp
qed

section \<open>The panel of the application scrolls in every window\<close>

text \<open>On the left of the window, from its bottom to its top.\<close>

definition left_panel :: "('p, 'm) panel \<Rightarrow> bool" where
  "left_panel p \<longleftrightarrow> growableAxis (content p) = Height \<and> growableAxis (handle (scroller p)) = Height \<and> scStickness (scroller p) = StickRight
     \<and> setupDone p \<and> vy (rmin (shape (panelPlaced p))) = f32_lit (- 1) \<and> vy (rmax (shape (panelPlaced p))) = f32_lit 1"

definition left_scrolls :: "'m constraints \<Rightarrow> ('p, 'm) panel \<Rightarrow> bool" where
  "left_scrolls con p \<longleftrightarrow> left_panel p \<and> travel (content p) = Num (13 / 2) \<and> (\<exists>g. gap p = Num g \<and> 0 < g)
     \<and> fless (Zero False) (vy (pixelSize con)) \<and> in_range p"

lemma panel_exec_left:
  "left_panel p \<Longrightarrow> left_panel (panel_exec mg vw con pl i p)"
proof -
  assume p: "left_panel p"
  have h: "growableAxis (handle_advance mg vw con pl t h) = growableAxis h" for t h
    by (simp add: handle_advance_def player_advance_def handle_onAnimationProgress_def handle_updateGeometry_def
        scroll_onAnimationProgress_def split_beta Let_def split: option.split)
  have g: "growableAxis (grid_advance mg pl t g) = growableAxis g" for t g
    by (simp add: grid_advance_def player_advance_def scroll_onAnimationProgress_def split_beta Let_def)
  have s: "growableAxis (snd (scrollByContentSize mg pl t tick animate c)) = growableAxis c" for t tick animate and c :: "('a, 'b, 'd) scissorable_scheme"
    by (simp add: scrollByContentSize_def animateScrollByTr_def scroll_onAnimationProgress_def Let_def)
  have a: "left_panel (panel_advance mg vw con pl t p)" for t
    using p by (simp add: left_panel_def panel_advance_def player_advance_def panel_onAnimationProgress_def definePanelPosition_def
        panel_propagateMatrixChanges_def panel_updateGeometry_def scroller_matrixUpdateRequested_def scroller_updateGeometry_def
        handle_matrixUpdateRequested_def handle_updateGeometry_def grid_matrixUpdateRequested_def grid_updateGeometry_def
        split_beta Let_def split: option.split)
  show ?thesis
  proof (cases i)
    case (PanelFrame t)
    then show ?thesis using a [of t] by (simp add: left_panel_def panel_frame_def h g Let_def)
  next
    case (Wheel t offset)
    then show ?thesis using p
      by (simp add: left_panel_def panel_handleScrollEvent_def scrollByOffset_def handle_moves s split_beta Let_def)
  next
    case (DragHandle t relative)
    then show ?thesis using p
      by (simp add: left_panel_def handle_handleLockMoveEvent_def scrollFromHandle_def scrollByPercentTick_def handle_moves s split_beta Let_def)
  next
    case (Toggle t)
    then show ?thesis using p by (simp add: left_panel_def panel_toggle_def panel_onToggled_def Let_def)
  qed
qed

lemma panel_exec_scrolls:
  assumes "left_scrolls con p" and "offset_ok i"
  shows "left_scrolls con (panel_exec mg vw con pl i p)"
proof -
  obtain g where g: "gap p = Num g" "0 < g" and p: "left_panel p" "travel (content p) = Num (13 / 2)" "in_range p"
      "fless (Zero False) (vy (pixelSize con))"
    using assms(1) by (auto simp: left_scrolls_def)
  have ax: "growableAxis (handle (scroller p)) = Height" using p(1) by (simp add: left_panel_def)
  have "in_range (panel_exec mg vw con pl i p) \<and> travel (content (panel_exec mg vw con pl i p)) = Num (13 / 2)
      \<and> gap (panel_exec mg vw con pl i p) = Num g"
    using panel_exec_sync [OF p(2) _ g p(3) assms(2), of con mg vw pl] p(4) by (simp add: ax extractScrollableSize_def)
  then show ?thesis using panel_exec_left [OF p(1)] p(4) g(2) by (simp add: left_scrolls_def)
qed

text \<open>A layout, the first or a later one, in a window from 11 pixels high.\<close>

lemma pixel_size_view: "pixelSize (constraints_of vw w) = pixelSize (constraints_of plain_view w)"
  by (simp add: constraints_of_def Let_def)

lemma panel_laid_scrolls:
  assumes "growableAxis (content p) = Height" and "growableAxis (handle (scroller p)) = Height" and "scStickness (scroller p) = StickRight"
    and "vy (rmin (shape (panelPlaced (panel_availableSpaceChanged space p)))) = f32_lit (- 1)"
    and "vy (rmax (shape (panelPlaced (panel_availableSpaceChanged space p)))) = f32_lit 1"
    and "fle (Zero False) (translationFactor (content p))" and "fle (translationFactor (content p)) (Num (13 / 2))"
    and "11 \<le> snd w" and "snd w \<le> 2 ^ 24"
  shows "left_scrolls (constraints_of vw w) (panel_onViewportChange mg vw (constraints_of vw w) space p)"
proof -
  let ?con = "constraints_of vw w"
  let ?p = "panel_onViewportChange mg vw ?con space p"
  have "gap (us_panel w) = gap ?p"
    unfolding layout_gap [OF assms(1,3,4,5)] us_panel_layout(2) pixel_size_view [of vw] left_gap_number ..
  then have g: "\<exists>g. gap ?p = Num g \<and> 0 < g" using us_panel_gap(1) [OF assms(8,9)] by (cases "gap ?p") auto
  have px: "fless (Zero False) (vy (pixelSize ?con))" using us_panel_gap(2) [OF assms(8,9)] by (simp add: pixel_size_view [of vw])
  have "travel (content ?p) = fsub (fsub (f32_lit 1) (fmul (f32_lit (- 1)) (f32_lit (15 / 2)))) (fsub (f32_lit 1) (f32_lit (- 1)))"
    using assms(1,3,4,5) by (simp add: panel_layout(1) grid_layout scroller_layout)
  then have t: "travel (content ?p) = Num (13 / 2)" unfolding panel_numbers(1-3) .
  have l: "left_panel ?p"
    using assms(1-5) by (simp add: left_panel_def panel_layout_keeps) 
      (simp add: panel_onViewportChange_def panel_updateGeometry_def ratio_layout scroller_layout layout_scroller
        handle_availableSpaceChanged_def split_beta Let_def)
  have "translationFactor (content ?p) = translationFactor (content p)" by (simp add: panel_layout(1) layout_grid)
  then have "in_range ?p" using assms(6,7) by (simp add: in_range_def t)
  with g px t l show ?thesis by (simp add: left_scrolls_def)
qed

section \<open>Button and panel together\<close>

definition window_ok :: "int \<times> int \<Rightarrow> bool" where
  "window_ok w \<longleftrightarrow> 11 \<le> snd w \<and> snd w \<le> 2 ^ 24"

definition sel_input_ok :: "selector_input \<Rightarrow> bool" where
  "sel_input_ok i = (case i of ScrollIt t offset \<Rightarrow> vy offset \<noteq> NaN | Resize w \<Rightarrow> window_ok w | _ \<Rightarrow> True)"

definition sel_ok :: "'m view \<Rightarrow> ('p, 'm, 'z) selector_scheme \<Rightarrow> bool" where
  "sel_ok vw s \<longleftrightarrow> in_step s \<and> buttonSetup (asButton s) \<and> toggleCb (button (asButton s))
     \<and> left_scrolls (selCon s) (asPanel s) \<and> panel_placed vw (selCon s) (asPanel s) \<and> button_placed vw (asButton s)"

lemma left_scrolls_again:
  assumes "left_scrolls con p" and "window_ok w"
  shows "left_scrolls (constraints_of vw w) (panel_onViewportChange mg vw (constraints_of vw w) space p)"
  using assms by (intro panel_laid_scrolls)
    (auto simp: left_scrolls_def left_panel_def in_range_def window_ok_def panel_availableSpaceChanged_def)

lemma button_steps_placed:
  "button_placed vw b \<Longrightarrow> button_placed vw (snd (button_onHoverChanged mg pl t h (c, b)))"
  "button_placed vw b \<Longrightarrow> button_placed vw (selector_handlePressEvent b)"
  "button_placed vw b \<Longrightarrow> button_placed vw (selector_handleLockReleaseEvent mg pl t b)"
  by (simp_all add: button_placed_def button_onHoverChanged_def selector_handlePressEvent_def selector_handleLockReleaseEvent_def
      updateCurrentColor_def updateAnimationYTarget_def Let_def)

lemma toggles_keep:
  "left_scrolls con p \<Longrightarrow> left_scrolls con (fold (\<lambda>_. panel_toggle pl t) calls p)"
  "panel_placed vw con p \<Longrightarrow> panel_placed vw con (fold (\<lambda>_. panel_toggle pl t) calls p)"
proof (induction calls arbitrary: p)
  case (Cons c calls)
  { case 1
    then show ?case using Cons.IH(1) panel_exec_scrolls [of con p "Toggle t"] by (simp add: offset_ok_def) }
  { case 2
    then show ?case using Cons.IH(2) panel_exec_placed [of vw con p _ _ "Toggle t"] by simp }
qed simp_all

lemma sel_exec_ok:
  assumes "sel_ok vw s" and "sel_input_ok i"
  shows "sel_ok vw (selector_exec mg vw pl space i s)"
proof -
  have step: "in_step (selector_exec mg vw pl space i s) \<and> buttonSetup (asButton (selector_exec mg vw pl space i s))
      \<and> toggleCb (button (asButton (selector_exec mg vw pl space i s)))"
    using assms(1) by (intro exec_in_step) (simp_all add: sel_ok_def)
  have b: "button_placed vw (asButton s)" and p: "left_scrolls (selCon s) (asPanel s)" "panel_placed vw (selCon s) (asPanel s)"
    using assms(1) by (simp_all add: sel_ok_def)
  have "left_scrolls (selCon s') (asPanel s') \<and> panel_placed vw (selCon s') (asPanel s') \<and> button_placed vw (asButton s')"
    if s': "s' = selector_exec mg vw pl space i s" for s'
  proof (cases i)
    case (Over t h)
    then show ?thesis using b p button_steps_placed(1) [OF b, of mg pl t h "selCursor s"]
      by (simp add: s' split_beta)
  next
    case PressIt
    then show ?thesis using b p by (simp add: s' button_steps_placed(2))
  next
    case (ReleaseIt t)
    then show ?thesis using b p by (simp add: s' selector_release_def button_steps_placed(3) toggles_keep Let_def)
  next
    case (ScrollIt t offset)
    then show ?thesis using b assms(2) panel_exec_scrolls [OF p(1), of "Wheel t offset" mg vw pl] panel_exec_placed [OF p(2), of mg pl "Wheel t offset"]
      by (simp add: s' offset_ok_def sel_input_ok_def)
  next
    case (DragIt t relative)
    then show ?thesis using b panel_exec_scrolls [OF p(1), of "DragHandle t relative" mg vw pl] panel_exec_placed [OF p(2), of mg pl "DragHandle t relative"]
      by (simp add: s' offset_ok_def)
  next
    case (Resize w)
    have "panelVertices (asPanel s) = corners (shape (panelPlaced (asPanel s)))" using p(2) by (simp add: panel_placed_def)
    then show ?thesis using b left_scrolls_again [OF p(1), of w vw mg space] Resize assms(2) button_placed_moves(2) [of "asButton s" vw mg "constraints_of vw w"]
      by (simp add: s' selector_onViewportChange_def panel_laid_placed sel_input_ok_def Let_def button_placed_def)
  next
    case (DrawFrame t)
    then show ?thesis using button_placed_moves(1) [OF b, of mg pl t] panel_exec_scrolls [OF p(1), of "PanelFrame t" mg vw pl]
        panel_exec_placed [OF p(2), of mg pl "PanelFrame t"]
      by (simp add: s' selector_frame_def offset_ok_def)
  qed
  with step show ?thesis by (simp add: sel_ok_def)
qed

interpretation placing: machine "selector_exec mg vw pl space" sel_input_ok "sel_ok vw"
  for mg :: "'m magnum" and vw :: "'m view" and pl :: "'p magnum_player" and space :: range2
  by unfold_locales (rule sel_exec_ok)

text \<open>The first layout makes it so.\<close>

lemma first_layout_ok:
  assumes "asButton s = asButton (selector_init mg con idle junk)" and "asPanel s = asPanel (selector_init mg con idle junk)"
    and "window_ok w"
  shows "sel_ok vw (selector_onViewportChange mg vw w whole_window s)"
proof -
  let ?s = "selector_onViewportChange mg vw w whole_window s"
  let ?s' = "selector_onViewportChange mg vw w whole_window (selector_init mg con idle junk)"
  have same: "asButton ?s = asButton ?s'" "asPanel ?s = asPanel ?s'" by (simp_all add: selector_onViewportChange_def assms Let_def)
  have "in_step ?s \<and> buttonSetup (asButton ?s) \<and> toggleCb (button (asButton ?s))"
    using start_in_step [of mg vw w whole_window con idle junk] unfolding in_step_def same by blast
  moreover have p: "asPanel (selector_init mg con idle junk) = panel_init mg idle junk StickLeft (f32_lit (3 / 5))"
    by (simp add: selector_init_def Let_def)
  moreover have "left_scrolls (constraints_of vw w) (panel_onViewportChange mg vw (constraints_of vw w) whole_window
      (panel_init mg idle junk StickLeft (f32_lit (3 / 5))))"
    using assms(3)
    by (intro panel_laid_scrolls)
      (simp_all add: panel_init_parts scrollable.extend_def scrollable_init_def handle_init_def first_shape left_shape whole_window_def
        vscalar_def window_ok_def fle_def)
  moreover have "panel_placed vw (constraints_of vw w) (panel_onViewportChange mg vw (constraints_of vw w) whole_window
      (panel_init mg idle junk StickLeft (f32_lit (3 / 5))))"
    by (rule panel_laid_placed) (simp add: panel_init_def definePanelPosition_def Let_def)
  moreover have "button_placed vw (button_onViewportChange mg vw (constraints_of vw w) (asButton (selector_init mg con idle junk)))"
    by (rule button_placed_moves(2)) (simp add: selector_init_def selector_button_init_def updateCurrentColor_def Let_def)
  ultimately show ?thesis by (simp add: sel_ok_def selector_onViewportChange_def assms(1,2) Let_def)
qed

end
