(* ===== verification/AppLoop.thy ===== *)
theory AppLoop
  imports Drawing Placement
begin

text \<open>
  \<open>USApplication\<close> as a whole: one step for every callback of the window system, from the mouse on the
  window (\<open>mouseMoveEvent\<close> and the callbacks of the widgets it enters and leaves) to a resize and a frame,
  over the state \<open>us_world\<close> of \<open>Drawing\<close>. The steps are those of the components; what is proved here is that
  every one of them keeps the invariant of the whole, so that the application is an event loop.
\<close>

section \<open>Hovering\<close>

text \<open>The geometry of each widget of the tree; the container's never changes.\<close>

definition widget_geometry :: "('p, 'm, 'e) us_world \<Rightarrow> nat \<Rightarrow> range2" where
  "widget_geometry w i =
     (let ui = widgets (app w)
      in if i = 0 then whole_window
         else if i = 1 then geometry (buttonPlaced (asButton ui))
         else if i = 2 then geometry (panelPlaced (asPanel ui))
         else if i = 3 then geometry (scPlaced (scroller (asPanel ui)))
         else if i = 4 then geometry (handlePlaced (handle (scroller (asPanel ui))))
         else if i = 5 then geometry (gridPlaced (content (asPanel ui)))
         else geometry (textPlaced (stWidget w)))"

definition under_cursor :: "'m view \<Rightarrow> ('p, 'm, 'e) us_world \<Rightarrow> vector2 \<Rightarrow> nat \<Rightarrow> bool" where
  "under_cursor vw w cursorPos i = rangeContains vw (widget_geometry w i) cursorPos"

definition frame_time :: "('p, 'm, 'e) us_world \<Rightarrow> f32" where
  "frame_time w = frameTime (nav (app w))"

text \<open>\<open>_onHoverChanged\<close> of the widget whose state changed.\<close>

definition onHoverChanged :: "'m magnum \<Rightarrow> 'p magnum_player \<Rightarrow> nat \<times> bool \<Rightarrow> ('p, 'm, 'e) us_world \<Rightarrow> ('p, 'm, 'e) us_world" where
  "onHoverChanged mg pl = (\<lambda>(i, hovered) w.
     let s = app w; ui = widgets s; t = frame_time w
     in if i = 1 then
          let (c, b) = button_onHoverChanged mg pl t hovered (cursor s, asButton ui)
          in w\<lparr>app := s\<lparr>cursor := c, widgets := ui\<lparr>asButton := b\<rparr>\<rparr>\<rparr>
        else if i = 4 then w\<lparr>app := s\<lparr>widgets := handle_onHoverChanged hovered ui\<rparr>\<rparr>
        else if i = 6 then w\<lparr>stWidget := text_onHoverChanged pl t hovered (stWidget w)\<rparr>
        else w)"

text \<open>What a widget does when it is entered or left moves no widget at once, so that it does not matter
  that the code checks the rest of the tree after it.\<close>

lemma hover_keeps_geometry: "under_cursor vw (onHoverChanged mg pl c w) v i = under_cursor vw w v i"
  by (cases c) (simp add: under_cursor_def widget_geometry_def onHoverChanged_def button_onHoverChanged_def updateCurrentColor_def
      updateAnimationYTarget_def player_startAnim_def handle_onHoverChanged_def updateScrollColor_def text_onHoverChanged_def split_beta Let_def)

lemma hover_keeps_container: "container (onHoverChanged mg pl c w) = container w"
  by (cases c) (simp add: onHoverChanged_def split_beta Let_def)

section \<open>Events\<close>

definition world_handlers :: "'m magnum \<Rightarrow> 'm view \<Rightarrow> 'p magnum_player \<Rightarrow> ('p, 'm, 'e) us_world \<Rightarrow>
    (us_event, ('p, 'm, ('p, 'm) us_widgets) us_app) handlers" where
  "world_handlers mg vw pl w = us_handlers mg pl (widget_handlers mg vw pl (frame_time w))"

definition world_mouseMoveEvent :: "'m magnum \<Rightarrow> 'm view \<Rightarrow> 'p magnum_player \<Rightarrow> us_event \<Rightarrow> ('p, 'm, 'e) us_world \<Rightarrow> ('p, 'm, 'e) us_world" where
  "world_mouseMoveEvent mg vw pl ev w =
     (let cursorPos = cursorPosition (evPosition ev) (framebufferSize (app w));
          over = under_cursor vw w cursorPos;
          known = length (hoverChanged (hoverState (container w)));
          changes = drop known (hoverChanged (hoverState (traverseForHovered us_tree over (container w))));
          w = fold (onHoverChanged mg pl) changes w;
          (a, s) = propagateMouseMoveEvent (world_handlers mg vw pl w) us_tree over ev (container w, app w)
      in w\<lparr>container := a, app := s\<rparr>)"

definition world_mousePressEvent :: "'m magnum \<Rightarrow> 'm view \<Rightarrow> 'p magnum_player \<Rightarrow> int \<Rightarrow> us_event \<Rightarrow> ('p, 'm, 'e) us_world \<Rightarrow>
    ('p, 'm, 'e) us_world" where
  "world_mousePressEvent mg vw pl now ev w =
     (let (a, s) = propagateMousePressEvent (world_handlers mg vw pl w) (evButton ev) now ev (container w, app w)
      in w\<lparr>container := a, app := s\<rparr>)"

definition world_mouseReleaseEvent :: "'m magnum \<Rightarrow> 'm view \<Rightarrow> 'p magnum_player \<Rightarrow> us_event \<Rightarrow> ('p, 'm, 'e) us_world \<Rightarrow>
    ('p, 'm, 'e) us_world" where
  "world_mouseReleaseEvent mg vw pl ev w =
     (let (a, s) = propagateMouseReleaseEvent (world_handlers mg vw pl w) (evButton ev) ev (container w, app w)
      in w\<lparr>container := a, app := s\<rparr>)"

definition world_mouseScrollEvent :: "'m magnum \<Rightarrow> 'm view \<Rightarrow> 'p magnum_player \<Rightarrow> us_event \<Rightarrow> ('p, 'm, 'e) us_world \<Rightarrow>
    ('p, 'm, 'e) us_world option" where
  "world_mouseScrollEvent mg vw pl ev w =
     map_option (\<lambda>(a, s). w\<lparr>container := a, app := s\<rparr>)
       (propagateScrollEvent (world_handlers mg vw pl w) us_tree ev (container w, app w))"

text \<open>A resize. \<open>AppContainer::onViewportChange\<close> lays out the children in the order they were bound.\<close>

definition world_viewportEvent :: "'m magnum \<Rightarrow> 'm view \<Rightarrow> int \<times> int \<Rightarrow> int \<times> int \<Rightarrow> ('p, 'm, 'e) us_world \<Rightarrow> ('p, 'm, 'e) us_world" where
  "world_viewportEvent mg vw windowSize framebuffer w =
     (let con = constraints_of vw windowSize;
          g = rounded_setResolution (ws con) (gpu w);
          s = us_viewportEvent framebuffer (app w);
          s = s\<lparr>widgets := selector_onViewportChange mg vw windowSize whole_window (widgets s)\<rparr>
      in w\<lparr>gpu := g,
           app := s,
           projectionWorld := projection vw \<lparr>vx = aspectRatio (ws con), vy = f32_lit 1\<rparr>,
           projectionDebugText := mat_mult mg (pixelProjMatrix con)
             (translation mg (vmul (ws con)
               (vsub \<lparr>vx = f32_lit (- 1 / 2), vy = f32_lit (1 / 2)\<rparr>
                     (vmul (vmul (pixelSize con) (vscalar (f32_of_int 5))) \<lparr>vx = f32_lit (- 1), vy = f32_lit 1\<rparr>)))),
           stWidget := text_onViewportChange mg vw con (stWidget w)\<rparr>)"

text \<open>One turn of all animators, in the order of their registration: those of the members of \<open>USApplication\<close>
  in the order of their declaration, then the text, which the body of the constructor makes.\<close>

definition advance_all :: "'m magnum \<Rightarrow> 'm view \<Rightarrow> 'p magnum_player \<Rightarrow> ('p, 'm, 'e) us_world \<Rightarrow> ('p, 'm, 'e) us_world" where
  "advance_all mg vw pl w =
     (let t = frame_time w;
          s = app w;
          s = s\<lparr>nav := navigation_frame mg pl (t, frameDuration (nav s)) (nav s)\<rparr>;
          s = s\<lparr>widgets := selector_frame mg vw pl t (widgets s)\<rparr>
      in w\<lparr>app := s, stWidget := text_advance mg vw pl t (stWidget w)\<rparr>)"

text \<open>A frame: an exception that the update check left in its future leaves \<open>drawEvent\<close>, and the program.
  The argument is what the timeline's \<open>nextFrame\<close> makes of its two times.\<close>

definition world_drawEvent :: "'m magnum \<Rightarrow> 'm view \<Rightarrow> 'm drawing \<Rightarrow> 'p magnum_player \<Rightarrow> bool \<Rightarrow> f32 \<times> f32 \<Rightarrow> ('p, 'm, 'e) us_world \<Rightarrow>
    'e + ('p, 'm, 'e) us_world" where
  "world_drawEvent mg vw dr pl updaterExists nextFrame w =
     (case poll updaterExists (updateChecker w) of
        (Some e, checker) \<Rightarrow> Inl e
      | (None, checker) \<Rightarrow>
          let w = w\<lparr>updateChecker := checker\<rparr>;
              w = w\<lparr>gpu := (gpu w)\<lparr>drawCalls := []\<rparr>\<rparr>;
              w = advance_all mg vw pl w;
              w = us_draw mg dr pl w;
              s = app w
          in Inr (w\<lparr>app := s\<lparr>nav := (nav s)\<lparr>frameTime := fst nextFrame, frameDuration := snd nextFrame\<rparr>\<rparr>\<rparr>))"

datatype 'e us_input =
    MouseMoveIn us_event
  | MousePressIn int us_event
  | MouseReleaseIn us_event
  | MouseScrollIn us_event
  | KeyPressIn key bool
  | KeyReleaseIn key bool
  | TextIn
  | ViewportIn "int \<times> int" "int \<times> int"
  | DrawIn bool "f32 \<times> f32"
  | CheckDoneIn "'e + bool"

fun us_step :: "'m magnum \<Rightarrow> 'm view \<Rightarrow> 'm drawing \<Rightarrow> 'p magnum_player \<Rightarrow> 'e us_input \<Rightarrow> ('p, 'm, 'e) us_world \<Rightarrow>
    ('e + ('p, 'm, 'e) us_world) option" where
  "us_step mg vw dr pl (MouseMoveIn ev) w = Some (Inr (world_mouseMoveEvent mg vw pl ev w))"
| "us_step mg vw dr pl (MousePressIn now ev) w = Some (Inr (world_mousePressEvent mg vw pl now ev w))"
| "us_step mg vw dr pl (MouseReleaseIn ev) w = Some (Inr (world_mouseReleaseEvent mg vw pl ev w))"
| "us_step mg vw dr pl (MouseScrollIn ev) w = map_option Inr (world_mouseScrollEvent mg vw pl ev w)"
| "us_step mg vw dr pl (KeyPressIn key isRepeated) w = Some (Inr (w\<lparr>app := us_keyPressEvent mg pl key isRepeated (app w)\<rparr>))"
| "us_step mg vw dr pl (KeyReleaseIn key isRepeated) w = Some (Inr (w\<lparr>app := us_keyReleaseEvent mg pl key isRepeated (app w)\<rparr>))"
| "us_step mg vw dr pl TextIn w = Some (Inr w)"
| "us_step mg vw dr pl (ViewportIn windowSize framebuffer) w = Some (Inr (world_viewportEvent mg vw windowSize framebuffer w))"
| "us_step mg vw dr pl (DrawIn updaterExists nextFrame) w = Some (world_drawEvent mg vw dr pl updaterExists nextFrame w)"
| "us_step mg vw dr pl (CheckDoneIn r) w = Some (Inr (w\<lparr>updateChecker := check_done r (updateChecker w)\<rparr>))"

text \<open>The main loop, until it is left: \<open>None\<close> would be a handler that does not return, \<open>Inl\<close> an exception.\<close>

definition us_exec :: "'m magnum \<Rightarrow> 'm view \<Rightarrow> 'm drawing \<Rightarrow> 'p magnum_player \<Rightarrow> 'e us_input list \<Rightarrow> ('p, 'm, 'e) us_world \<Rightarrow>
    ('e + ('p, 'm, 'e) us_world) option" where
  "us_exec mg vw dr pl = run_loop (us_step mg vw dr pl)"

section \<open>The start\<close>

text \<open>The values of the members that have no initialiser are \<open>junk\<close>; \<open>grid_create\<close> gives the mesh of the
  grid. \<open>std::async\<close> may have deferred the check.\<close>

definition us_start :: "'m magnum \<Rightarrow> 'm drawing \<Rightarrow> 'm constraints \<Rightarrow> 'p \<Rightarrow> (nat \<Rightarrow> f32) \<Rightarrow>
    (vector2 \<times> vector2) list \<Rightarrow> 'm gpu \<Rightarrow> bool \<Rightarrow>
    ('p, 'm, 'e) us_world" where
  "us_start mg dr con idle junk mesh g deferred = updateDebugText mg dr
     \<lparr>container = app_container_init,
      app = us_init mg idle (selector.extend (selector_init mg con idle junk)
              \<lparr>handleButton = button_init, handleHovered = False, scrollerActive = False\<rparr>),
      stWidget = shortcuts_init mg idle (pixelsShape (shortcuts_static dr)), stText = shortcuts_static dr, worldText = world_text dr,
      projectionWorld = identityMatrix mg, projectionDebugText = identityMatrix mg,
      gridMesh = mesh, debugText = [], gpu = renderer_setup g,
      updateChecker = poller_start deferred poller_init\<rparr>"

section \<open>The invariant of the application\<close>

definition handle_looks_right :: "('p, 'm) us_widgets \<Rightarrow> bool" where
  "handle_looks_right ui \<longleftrightarrow> preToggling (handleButton ui) \<or> scrollerActive ui = handleHovered ui"

definition ui_ok :: "'m view \<Rightarrow> ('p, 'm) us_widgets \<Rightarrow> bool" where
  "ui_ok vw ui \<longleftrightarrow> sel_ok vw ui \<and> handle_looks_right ui"

text \<open>The widgets' own flags are those of the container.\<close>

definition hover_agrees :: "(nat \<Rightarrow> bool) \<Rightarrow> ('p, 'm, 'e) us_world \<Rightarrow> bool" where
  "hover_agrees flags w \<longleftrightarrow> buttonHovered (asButton (widgets (app w))) = flags 1 \<and> handleHovered (widgets (app w)) = flags 4
     \<and> textHovered (stWidget w) = flags 6"

definition text_placed :: "'m view \<Rightarrow> ('p, 'm) shortcuts_text \<Rightarrow> bool" where
  "text_placed vw x \<longleftrightarrow> in_place vw (textMatrix x) (textPlaced x)"

definition inner_ok :: "'m view \<Rightarrow> ('e \<Rightarrow> bool) \<Rightarrow> (nat \<Rightarrow> bool) \<Rightarrow> ('p, 'm, 'e) us_world \<Rightarrow> bool" where
  "inner_ok vw throws flags w \<longleftrightarrow> ui_ok vw (widgets (app w)) \<and> text_ok (stWidget w) \<and> text_placed vw (stWidget w) \<and> hover_agrees flags w
     \<and> u_resolutionPx (roundedShader (gpu w)) = ws (selCon (widgets (app w)))
     \<and> (\<forall>e. future (updateChecker w) = Ready (Inl e) \<longrightarrow> throws e)"

definition world_ok :: "'m view \<Rightarrow> ('e \<Rightarrow> bool) \<Rightarrow> ('p, 'm, 'e) us_world \<Rightarrow> bool" where
  "world_ok vw throws w \<longleftrightarrow> pointers_ok us_tree (container w) \<and> inner_ok vw throws (isHovered (hoverState (container w))) w"

definition keeps_hover :: "('p, 'm) us_widgets \<Rightarrow> ('p, 'm) us_widgets \<Rightarrow> bool" where
  "keeps_hover ui ui' \<longleftrightarrow> buttonHovered (asButton ui') = buttonHovered (asButton ui) \<and> handleHovered ui' = handleHovered ui
     \<and> selCon ui' = selCon ui"

lemma sel_ok_handle [simp]:
  "sel_ok vw (ui\<lparr>handleButton := b\<rparr>) = sel_ok vw ui" "sel_ok vw (ui\<lparr>handleHovered := h\<rparr>) = sel_ok vw ui"
  "sel_ok vw (ui\<lparr>scrollerActive := a\<rparr>) = sel_ok vw ui"
  by (simp_all add: sel_ok_def in_step_def)

text \<open>Every handler of a widget is an input of the selector or leaves it alone.\<close>

lemma widget_handler_ok:
  assumes "ui_ok vw ui" and "widget_handlers mg vw pl t k i = Some h" and "k = Scroll_EH \<Longrightarrow> vy (evOffset ev) \<noteq> NaN"
  shows "ui_ok vw (h ev m ui) \<and> keeps_hover ui (h ev m ui)"
proof -
  have ok: "sel_ok vw ui" "handle_looks_right ui" using assms(1) by (simp_all add: ui_ok_def)
  consider "h ev m ui = selector_exec mg vw pl whole_window PressIt ui"
    | "h ev m ui = selector_exec mg vw pl whole_window (ReleaseIt t) ui"
    | "h ev m ui = selector_exec mg vw pl whole_window (ScrollIt t (evOffset ev)) ui" "vy (evOffset ev) \<noteq> NaN"
    | "h ev m ui = selector_exec mg vw pl whole_window (DragIt t (evRelative ev)) ui"
    | "h ev m ui = ui\<lparr>handleButton := button_handlePressEvent (handleButton ui)\<rparr>"
    | "h ev m ui = handle_release ui"
    using assms(2,3) by (auto simp: widget_handlers_def split: if_splits event_handler.splits)
  then show ?thesis
  proof cases
    case 1
    then show ?thesis using ok sel_exec_ok [OF ok(1), of PressIt mg pl whole_window]
      by (simp add: ui_ok_def handle_looks_right_def keeps_hover_def sel_input_ok_def selector_handlePressEvent_def)
  next
    case 2
    then show ?thesis using ok sel_exec_ok [OF ok(1), of "ReleaseIt t" mg pl whole_window]
      by (simp add: ui_ok_def handle_looks_right_def keeps_hover_def sel_input_ok_def selector_release_def
          selector_handleLockReleaseEvent_def updateCurrentColor_def updateAnimationYTarget_def Let_def)
  next
    case 3
    then show ?thesis using ok sel_exec_ok [OF ok(1), of "ScrollIt t (evOffset ev)" mg pl whole_window]
      by (simp add: ui_ok_def handle_looks_right_def keeps_hover_def sel_input_ok_def)
  next
    case 4
    then show ?thesis using ok sel_exec_ok [OF ok(1), of "DragIt t (evRelative ev)" mg pl whole_window]
      by (simp add: ui_ok_def handle_looks_right_def keeps_hover_def sel_input_ok_def)
  next
    case 5
    then show ?thesis using ok by (simp add: ui_ok_def handle_looks_right_def keeps_hover_def button_handlePressEvent_def)
  next
    case 6
    then show ?thesis using ok by (simp add: ui_ok_def handle_looks_right_def keeps_hover_def handle_release_def updateScrollColor_def Let_def)
  qed
qed

lemma root_keeps_widgets:
  "widgets (handleScrollEvent mg pl ev s) = widgets s" "widgets (handlePressEvent mg pl ev m s) = widgets s"
  "widgets (handleLockReleaseEvent mg pl ev m s) = widgets s" "widgets (handleLockMoveEvent mg ev m s) = widgets s"
  by (simp_all add: handleScrollEvent_def handlePressEvent_def handleLockReleaseEvent_def handleLockMoveEvent_def Let_def
      split: mouse_button.split)

lemma handled_ok:
  assumes "ui_ok vw (widgets s)" and "k = Scroll_EH \<Longrightarrow> vy (evOffset ev) \<noteq> NaN"
  shows "ui_ok vw (widgets (snd (tryHandleEvent (app_handlers mg vw pl t) k target ev m s)))
     \<and> keeps_hover (widgets s) (widgets (snd (tryHandleEvent (app_handlers mg vw pl t) k target ev m s)))"
proof (cases target)
  case (Some i)
  show ?thesis
  proof (cases "i = 0")
    case True
    then show ?thesis using assms(1)
      by (cases k) (simp_all add: Some tryHandleEvent_def us_handlers_def root_keeps_widgets keeps_hover_def)
  next
    case False
    then show ?thesis
      using assms widget_handler_ok [of vw "widgets s" mg pl t k i _ ev m]
      by (cases "widget_handlers mg vw pl t k i") (auto simp: Some tryHandleEvent_def us_handlers_def keeps_hover_def)
  qed
qed (use assms(1) in \<open>simp add: keeps_hover_def\<close>)

section \<open>Every event keeps it\<close>

text \<open>Entering or leaving one widget.\<close>

lemma button_hover_cursor: "snd (button_onHoverChanged mg pl t h (c, b)) = snd (button_onHoverChanged mg pl t h (c', b))"
  by (simp add: button_onHoverChanged_def Let_def)

lemma hovered_button:
  "buttonHovered (snd (button_onHoverChanged mg pl t h (c, b))) = h"
  by (simp add: button_onHoverChanged_def updateCurrentColor_def updateAnimationYTarget_def Let_def)

lemma onHoverChanged_ok:
  assumes "inner_ok vw throws flags w"
  shows "inner_ok vw throws (flags(i := h)) (onHoverChanged mg pl (i, h) w) \<and> container (onHoverChanged mg pl (i, h) w) = container w"
proof -
  let ?ui = "widgets (app w)" and ?t = "frame_time w"
  have ok: "sel_ok vw ?ui" "handle_looks_right ?ui" and f: "hover_agrees flags w" using assms by (simp_all add: inner_ok_def ui_ok_def)
  consider "i = 1" | "i = 4" | "i = 6" | "i \<notin> {1, 4, 6}" by blast
  then show ?thesis
  proof cases
    case 1
    let ?b = "snd (button_onHoverChanged mg pl ?t h (cursor (app w), asButton ?ui))"
    have "sel_ok vw (?ui\<lparr>selCursor := c, asButton := ?b\<rparr>) = sel_ok vw (?ui\<lparr>asButton := ?b\<rparr>)" for c
      by (simp add: sel_ok_def in_step_def)
    moreover have "sel_ok vw (selector_exec mg vw pl whole_window (Over ?t h) ?ui)" using ok(1) by (rule sel_exec_ok) (simp add: sel_input_ok_def)
    ultimately have "sel_ok vw (?ui\<lparr>asButton := ?b\<rparr>)"
      using button_hover_cursor [of mg pl ?t h "selCursor ?ui" "asButton ?ui" "cursor (app w)"] by (simp add: split_beta)
    then show ?thesis using assms ok(2) f 1
      by (simp add: onHoverChanged_def inner_ok_def ui_ok_def handle_looks_right_def hover_agrees_def hovered_button split_beta Let_def)
  next
    case 2
    then show ?thesis using assms ok f
      by (simp add: onHoverChanged_def inner_ok_def ui_ok_def handle_looks_right_def hover_agrees_def handle_onHoverChanged_def
          updateScrollColor_def Let_def)
  next
    case 3
    have "text_ok (text_exec mg vw pl (TextOver ?t h) (stWidget w))" using assms by (intro text_exec_ok) (simp add: inner_ok_def)
    moreover have "text_placed vw (text_onHoverChanged pl ?t h (stWidget w)) = text_placed vw (stWidget w)"
      by (simp add: text_placed_def text_onHoverChanged_def Let_def)
    moreover have "textHovered (text_onHoverChanged pl ?t h (stWidget w)) = h" by (simp add: text_onHoverChanged_def Let_def)
    ultimately show ?thesis using assms f 3
      by (simp add: onHoverChanged_def inner_ok_def hover_agrees_def Let_def)
  next
    case 4
    then show ?thesis using assms f by (simp add: onHoverChanged_def inner_ok_def hover_agrees_def Let_def)
  qed
qed

lemma changes_ok:
  "inner_ok vw throws flags w \<Longrightarrow>
     inner_ok vw throws (fold (\<lambda>(i, h) f. f(i := h)) changes flags) (fold (onHoverChanged mg pl) changes w)
     \<and> container (fold (onHoverChanged mg pl) changes w) = container w"
proof (induction changes arbitrary: flags w)
  case (Cons c changes)
  obtain i h where c: "c = (i, h)" by (cases c)
  from onHoverChanged_ok [OF Cons.prems, of i h mg pl] Cons.IH [of "flags(i := h)" "onHoverChanged mg pl (i, h) w"]
  show ?case unfolding c fold_simps(2) split by metis
qed simp

text \<open>What the container's handlers do to the application.\<close>

lemma inner_app:
  assumes "inner_ok vw throws flags w" and "ui_ok vw (widgets s)" and "keeps_hover (widgets (app w)) (widgets s)"
  shows "inner_ok vw throws flags (w\<lparr>container := a, app := s\<rparr>)"
  using assms by (simp add: inner_ok_def hover_agrees_def keeps_hover_def)

lemma inner_handled:
  assumes "inner_ok vw throws flags w" and "k = Scroll_EH \<Longrightarrow> vy (evOffset ev) \<noteq> NaN"
  shows "inner_ok vw throws flags (w\<lparr>container := a, app := snd (tryHandleEvent (world_handlers mg vw pl w') k target ev m (app w))\<rparr>)"
  using inner_app [OF assms(1)] handled_ok [of vw "app w" k ev mg pl "frame_time w'" target m] assms
  by (simp add: world_handlers_def inner_ok_def)

lemma world_move_ok:
  assumes "world_ok vw throws w"
  shows "world_ok vw throws (world_mouseMoveEvent mg vw pl ev w)"
proof -
  let ?over = "under_cursor vw w (cursorPosition (evPosition ev) (framebufferSize (app w)))"
  let ?a = "traverseForHovered us_tree ?over (container w)"
  let ?changes = "drop (length (hoverChanged (hoverState (container w)))) (hoverChanged (hoverState ?a))"
  let ?w = "fold (onHoverChanged mg pl) ?changes w"
  let ?a' = "?a\<lparr>mouseState := mayBeDragging (mouseState ?a)\<rparr>"
  have flags: "isHovered (hoverState ?a) = fold (\<lambda>(i, h) f. f(i := h)) ?changes (isHovered (hoverState (container w)))"
    using traverse_logged [of us_tree ?over "container w"] by blast
  have "inner_ok vw throws (isHovered (hoverState (container w))) w" using assms by (simp add: world_ok_def)
  from changes_ok [OF this, of ?changes mg pl]
  have w: "inner_ok vw throws (isHovered (hoverState ?a)) ?w" "container ?w = container w" unfolding flags by blast+
  have "world_mouseMoveEvent mg vw pl ev w =
      ?w\<lparr>container := ?a', app := snd (tryHandleEvent (world_handlers mg vw pl ?w) MouseMove_EH (lockContext ?a') ev (mouseState ?a') (app ?w))\<rparr>"
    by (simp add: world_mouseMoveEvent_def propagateMouseMoveEvent_def w(2) Let_def)
  moreover have "pointers_ok us_tree ?a'"
    using traverse_sel(1) [OF us_tree_distinct] deepest_ids by (auto simp: pointers_ok_def)
  ultimately show ?thesis using inner_handled [OF w(1), of MouseMove_EH ev mg pl ?w "lockContext ?a'" "mouseState ?a'" ?a']
    by (simp add: world_ok_def)
qed

lemma world_press_ok:
  "world_ok vw throws w \<Longrightarrow> world_ok vw throws (world_mousePressEvent mg vw pl now ev w)"
  using inner_handled [of vw throws "isHovered (hoverState (container w))" w MousePress_EH ev]
  by (simp add: world_ok_def world_mousePressEvent_def propagateMousePressEvent_def pointers_ok_def Let_def)

lemma world_release_ok:
  "world_ok vw throws w \<Longrightarrow> world_ok vw throws (world_mouseReleaseEvent mg vw pl ev w)"
  using inner_handled [of vw throws "isHovered (hoverState (container w))" w MouseRelease_EH ev]
  by (simp add: world_ok_def world_mouseReleaseEvent_def propagateMouseReleaseEvent_def pointers_ok_def Let_def)

lemma world_scroll_ok:
  assumes "world_ok vw throws w" and "vy (evOffset ev) \<noteq> NaN"
  shows "\<exists>w'. world_mouseScrollEvent mg vw pl ev w = Some w' \<and> world_ok vw throws w'"
proof -
  let ?H = "world_handlers mg vw pl w" and ?m = "mouseState (container w)"
  have p: "pointers_ok us_tree (container w)" and i: "inner_ok vw throws (isHovered (hoverState (container w))) w"
    using assms(1) by (simp_all add: world_ok_def)
  have "\<exists>target. propagateScrollEvent ?H us_tree ev (container w, app w) =
      Some (container w, snd (tryHandleEvent ?H Scroll_EH target ev ?m (app w)))"
  proof (cases "deepestHoveredShape (container w)")
    case None
    then show ?thesis using scroll_result [OF us_tree_distinct p, of ?H ev "app w"] by (intro exI [of _ None]) simp
  next
    case (Some j)
    let ?find = "List.find (\<lambda>i. ?H Scroll_EH i \<noteq> None) (j # the (ancestors j us_tree))"
    show ?thesis
    proof (cases ?find)
      case None
      then show ?thesis using scroll_result [OF us_tree_distinct p, of ?H ev "app w"] unfolding Some
        by (intro exI [of _ None]) (simp del: find.simps)
    next
      case (Some i)
      then have "?H Scroll_EH i \<noteq> None" by (simp add: find_Some_iff del: find.simps) blast
      then obtain h where "?H Scroll_EH i = Some h" by blast
      then show ?thesis
        using scroll_result [OF us_tree_distinct p, of ?H ev "app w"] Some \<open>deepestHoveredShape (container w) = Some j\<close>
        by (intro exI [of _ "Some i"]) (simp add: tryHandleEvent_def del: find.simps)
    qed
  qed
  then obtain target where "propagateScrollEvent ?H us_tree ev (container w, app w) =
      Some (container w, snd (tryHandleEvent ?H Scroll_EH target ev ?m (app w)))" by blast
  then show ?thesis
    using inner_handled [OF i, of Scroll_EH ev mg pl w target ?m "container w"] p assms(2)
    by (simp add: world_mouseScrollEvent_def world_ok_def)
qed

lemma world_key_ok:
  assumes "world_ok vw throws w"
  shows "world_ok vw throws (w\<lparr>app := us_keyPressEvent mg pl key r (app w)\<rparr>)"
    and "world_ok vw throws (w\<lparr>app := us_keyReleaseEvent mg pl key r (app w)\<rparr>)"
proof -
  have "widgets (us_keyPressEvent mg pl key r (app w)) = widgets (app w)" "widgets (us_keyReleaseEvent mg pl key r (app w)) = widgets (app w)"
    by (simp_all add: us_keyPressEvent_def us_keyReleaseEvent_def Let_def split: key.split)
  then show "world_ok vw throws (w\<lparr>app := us_keyPressEvent mg pl key r (app w)\<rparr>)"
    "world_ok vw throws (w\<lparr>app := us_keyReleaseEvent mg pl key r (app w)\<rparr>)"
    using assms by (simp_all add: world_ok_def inner_ok_def hover_agrees_def)
qed

text \<open>A resize, the first one too: it does not need the widgets to be placed before.\<close>

lemma viewport_inner:
  assumes "sel_ok vw (selector_onViewportChange mg vw windowSize whole_window (widgets (app w)))"
    and "handle_looks_right (widgets (app w))" and "text_ok (stWidget w)" and "hover_agrees flags w"
    and "\<forall>e. future (updateChecker w) = Ready (Inl e) \<longrightarrow> throws e"
  shows "inner_ok vw throws flags (world_viewportEvent mg vw windowSize framebuffer w)
    \<and> container (world_viewportEvent mg vw windowSize framebuffer w) = container w"
proof -
  let ?con = "constraints_of vw windowSize"
  have t: "text_ok (text_onViewportChange mg vw ?con (stWidget w))" "text_placed vw (text_onViewportChange mg vw ?con (stWidget w))"
    "textHovered (text_onViewportChange mg vw ?con (stWidget w)) = textHovered (stWidget w)"
    using text_exec_ok [OF assms(3), of mg vw pl "TextResize windowSize" for pl]
    by (simp_all add: text_placed_def text_onViewportChange_def text_updateGeometry_def Let_def)
  have b: "buttonHovered (button_onViewportChange mg vw ?con b) = buttonHovered b" for b
    by (simp add: button_onViewportChange_def button_availableSpaceChanged_def button_updateGeometry_def Let_def)
  show ?thesis using assms t
    by (simp add: world_viewportEvent_def inner_ok_def ui_ok_def handle_looks_right_def hover_agrees_def us_viewportEvent_def
        selector_onViewportChange_def rounded_setResolution_def b Let_def)
qed

lemma world_viewport_ok:
  assumes "world_ok vw throws w" and "window_ok windowSize"
  shows "world_ok vw throws (world_viewportEvent mg vw windowSize framebuffer w)"
proof -
  have "sel_ok vw (selector_exec mg vw pl whole_window (Resize windowSize) (widgets (app w)))" for pl
    using assms by (intro sel_exec_ok) (simp_all add: world_ok_def inner_ok_def ui_ok_def sel_input_ok_def)
  then show ?thesis
    using assms viewport_inner [of vw mg windowSize w "isHovered (hoverState (container w))" throws framebuffer]
    by (simp add: world_ok_def inner_ok_def ui_ok_def)
qed

lemma advance_ok:
  assumes "inner_ok vw throws flags w"
  shows "inner_ok vw throws flags (advance_all mg vw pl w) \<and> container (advance_all mg vw pl w) = container w"
proof -
  let ?t = "frame_time w" and ?ui = "widgets (app w)"
  have "sel_ok vw (selector_exec mg vw pl whole_window (DrawFrame ?t) ?ui)"
    using assms by (intro sel_exec_ok) (simp_all add: inner_ok_def ui_ok_def sel_input_ok_def)
  moreover have "text_ok (text_exec mg vw pl (TextFrame ?t) (stWidget w))" using assms by (intro text_exec_ok) (simp add: inner_ok_def)
  moreover have "buttonHovered (button_advance mg vw pl ?t (asButton ?ui)) = buttonHovered (asButton ?ui)"
    using same_advance [of "asButton ?ui" mg vw pl ?t] by (simp add: same_button_def)
  moreover have "text_placed vw (text_advance mg vw pl ?t (stWidget w))" "textHovered (text_advance mg vw pl ?t (stWidget w)) = textHovered (stWidget w)"
    using assms by (simp_all add: inner_ok_def text_placed_def text_advance_def player_advance_def text_onAnimationProgress_def
        text_updateColors_def text_updateGeometry_def split_beta Let_def)
  ultimately show ?thesis using assms
    by (auto simp: advance_all_def inner_ok_def ui_ok_def handle_looks_right_def hover_agrees_def selector_frame_def Let_def)
qed

lemma draw_keeps:
  "app (us_draw mg dr pl w) = app w" "container (us_draw mg dr pl w) = container w" "stWidget (us_draw mg dr pl w) = stWidget w"
  "updateChecker (us_draw mg dr pl w) = updateChecker w"
  "u_resolutionPx (roundedShader (gpu (us_draw mg dr pl w))) = u_resolutionPx (roundedShader (gpu w))"
  by (simp_all add: us_draw_def updateDebugText_def Let_def) (simp add: text_draw_def drawn)

lemma poll_throws:
  "poll x p = (Some e, p') \<Longrightarrow> future p = Ready (Inl e)"
  "poll x p = (None, p') \<Longrightarrow> future p' = Ready r \<Longrightarrow> future p = Ready r"
  by (auto simp: poll_def tryToLaunchUpdater_def Let_def split: if_splits check_future.splits sum.splits)

lemma world_draw_ok:
  assumes "world_ok vw throws w"
  shows "case world_drawEvent mg vw dr pl x nextFrame w of Inl e \<Rightarrow> throws e | Inr w' \<Rightarrow> world_ok vw throws w'"
proof (cases "poll x (updateChecker w)")
  case (Pair r p)
  have i: "inner_ok vw throws (isHovered (hoverState (container w))) w" "pointers_ok us_tree (container w)"
    using assms by (simp_all add: world_ok_def)
  show ?thesis
  proof (cases r)
    case None
    let ?w = "w\<lparr>updateChecker := p, gpu := (gpu w)\<lparr>drawCalls := []\<rparr>\<rparr>"
    have "inner_ok vw throws (isHovered (hoverState (container w))) ?w"
      using i(1) poll_throws(2) Pair None by (fastforce simp: inner_ok_def hover_agrees_def)
    from advance_ok [OF this, of mg pl] i(2) show ?thesis
      by (simp add: world_drawEvent_def Pair None world_ok_def inner_ok_def hover_agrees_def draw_keeps Let_def)
  next
    case (Some e)
    then show ?thesis using i(1) poll_throws(1) Pair by (fastforce simp: world_drawEvent_def inner_ok_def)
  qed
qed

lemma world_check_ok:
  assumes "world_ok vw throws w" and "\<And>e. r = Inl e \<Longrightarrow> throws e"
  shows "world_ok vw throws (w\<lparr>updateChecker := check_done r (updateChecker w)\<rparr>)"
  using assms by (auto simp: world_ok_def inner_ok_def hover_agrees_def check_done_def)

section \<open>The application is an event loop\<close>

text \<open>The inputs it stands: wheel offsets that are numbers, windows from 11 pixels high. An exception can only
  be one of the update check.\<close>

definition app_accepts :: "('e \<Rightarrow> bool) \<Rightarrow> 'e us_input \<Rightarrow> bool" where
  "app_accepts throws i = (case i of
       MouseScrollIn ev \<Rightarrow> vy (evOffset ev) \<noteq> NaN
     | ViewportIn windowSize framebuffer \<Rightarrow> window_ok windowSize
     | CheckDoneIn (Inl e) \<Rightarrow> throws e
     | _ \<Rightarrow> True)"

lemma us_step_ok:
  assumes "world_ok vw throws w" and "app_accepts throws i"
  shows "\<exists>r. us_step mg vw dr pl i w = Some r \<and> (case r of Inl e \<Rightarrow> throws e | Inr w' \<Rightarrow> world_ok vw throws w')"
proof (cases i)
  case (MouseScrollIn ev)
  then show ?thesis using world_scroll_ok [OF assms(1), of ev mg pl] assms(2) by (auto simp: app_accepts_def)
next
  case (CheckDoneIn r)
  then show ?thesis using world_check_ok [OF assms(1), of r] assms(2) by (cases r) (auto simp: app_accepts_def)
qed (use assms world_move_ok world_press_ok world_release_ok world_key_ok world_viewport_ok world_draw_ok in
    \<open>auto simp: app_accepts_def\<close>)

interpretation app_loop: event_loop "us_step mg vw dr pl" "app_accepts throws" "world_ok vw throws" throws
  for mg :: "'m magnum" and vw :: "'m view" and dr :: "'m drawing" and pl :: "'p magnum_player" and throws :: "'e \<Rightarrow> bool"
proof unfold_locales
  fix w :: "('p, 'm, 'e) us_world" and i and e and w'
  assume w: "world_ok vw throws w" "app_accepts throws i"
  note r = us_step_ok [OF w, of mg dr pl]
  show "us_step mg vw dr pl i w \<noteq> None" using r by auto
  show "throws e" if "us_step mg vw dr pl i w = Some (Inl e)" using r that by auto
  show "world_ok vw throws w'" if "us_step mg vw dr pl i w = Some (Inr w')" using r that by auto
qed

end
