(* ===== verification/AppRuns.thy ===== *)
theory AppRuns
  imports AppLoop Scissor
begin

text \<open>
  What holds of \<open>USApplication\<close> after any sequence of events, from its construction on: no handler gets
  stuck, the widgets know where the mouse is, and it finds them where they are drawn.
\<close>

section \<open>Every run of the application\<close>

lemma first_viewport_ok:
  fixes throws :: "'e \<Rightarrow> bool" and con :: "'m constraints" and idle :: 'p
  assumes w: "window_ok windowSize"
  shows "world_ok vw throws (world_viewportEvent mg vw windowSize framebuffer (us_start mg dr con idle junk mesh g deferred))"
proof -
  let ?w = "us_start mg dr con idle junk mesh g deferred :: ('p, 'm, 'e) us_world"
  have parts: "container ?w = app_container_init" "stWidget ?w = shortcuts_init mg idle (pixelsShape (shortcuts_static dr))"
    "updateChecker ?w = poller_start deferred poller_init"
    "widgets (app ?w) = selector.extend (selector_init mg con idle junk)
       \<lparr>handleButton = button_init, handleHovered = False, scrollerActive = False\<rparr>"
    by (simp_all add: us_start_def updateDebugText_def us_init_def Let_def)
  have "sel_ok vw (selector_onViewportChange mg vw windowSize whole_window (widgets (app ?w)))"
    unfolding parts by (rule first_layout_ok [OF _ _ w]) (simp_all add: selector.extend_def)
  moreover have "handle_looks_right (widgets (app ?w))" by (simp add: parts handle_looks_right_def selector.extend_def)
  moreover have "text_ok (stWidget ?w)" by (simp add: parts text_ok_at_start)
  moreover have "hover_agrees (isHovered (hoverState (container ?w))) ?w"
    by (simp add: hover_agrees_def parts app_container_init_def hover_init_def selector.extend_def selector_init_def selector_button_init_def
        updateCurrentColor_def shortcuts_init_def text_updateColors_def Let_def)
  moreover have "\<forall>e. future (updateChecker ?w) = Ready (Inl e) \<longrightarrow> throws e" by (simp add: parts poller_start_def)
  ultimately have "inner_ok vw throws (isHovered (hoverState (container ?w))) (world_viewportEvent mg vw windowSize framebuffer ?w)
      \<and> container (world_viewportEvent mg vw windowSize framebuffer ?w) = container ?w"
    by (rule viewport_inner)
  then show ?thesis by (simp add: world_ok_def) (simp add: parts app_container_init_def pointers_ok_def)
qed

text \<open>What a run starts with, and what it may be given.\<close>

definition failed_checks :: "'e us_input list \<Rightarrow> 'e \<Rightarrow> bool" where
  "failed_checks is e \<longleftrightarrow> CheckDoneIn (Inl e) \<in> set is"

lemma accepts_mono: "(\<And>e. throws e \<Longrightarrow> throws' e) \<Longrightarrow> app_accepts throws i \<Longrightarrow> app_accepts throws' i"
  by (auto simp: app_accepts_def split: us_input.splits sum.splits)

lemma accepts_own:
  "list_all (app_accepts (\<lambda>_. True)) is \<Longrightarrow> list_all (app_accepts (failed_checks is)) is"
  by (auto simp: list_all_iff app_accepts_def failed_checks_def split: us_input.splits sum.splits)

lemma app_run_ok:
  assumes "list_all (app_accepts (\<lambda>_. True)) is" and "window_ok windowSize"
  shows "(\<exists>e. us_exec mg vw dr pl (ViewportIn windowSize framebuffer # is) (us_start mg dr con idle junk mesh g deferred)
        = Some (Inl e) \<and> failed_checks is e)
    \<or> (\<exists>w. us_exec mg vw dr pl (ViewportIn windowSize framebuffer # is) (us_start mg dr con idle junk mesh g deferred)
        = Some (Inr w) \<and> world_ok vw (failed_checks is) w)"
proof -
  let ?w = "world_viewportEvent mg vw windowSize framebuffer (us_start mg dr con idle junk mesh g deferred)"
  have "world_ok vw (failed_checks is) ?w" by (rule first_viewport_ok [OF assms(2)])
  from app_loop.run [OF this accepts_own [OF assms(1)], where mg = mg and dr = dr and pl = pl] show ?thesis
    by (simp add: us_exec_def)
qed

text \<open>After its first layout the application handles every sequence of events: no handler fails to return, and
  the only exception that can end it is one that the update check threw before.\<close>

lemma app_never_stuck:
  assumes "list_all (app_accepts (\<lambda>_. True)) is" and "window_ok windowSize"
  shows "\<exists>r. us_exec mg vw dr pl (ViewportIn windowSize framebuffer # is) (us_start mg dr con idle junk mesh g deferred)
      = Some r \<and> (\<forall>e. r = Inl e \<longrightarrow> CheckDoneIn (Inl e) \<in> set is)"
  using app_run_ok [OF assms, of mg vw dr pl framebuffer con idle junk mesh g deferred]
  by (auto simp: failed_checks_def)

text \<open>C37: Whatever the events, the widgets that react to the mouse have the flags of the container that routes
  the events to them; the handle and the selector button, unless they are being pressed, have the colour
  of these flags, the text moves to its size and opacity, the panel to its place, and its content is
  between its ends.\<close>

theorem widgets_follow_mouse:
  assumes "us_exec mg vw dr pl (ViewportIn windowSize framebuffer # is) (us_start mg dr con idle junk mesh g deferred)
      = Some (Inr w)"
    and "list_all (app_accepts (\<lambda>_. True)) is" and "window_ok windowSize"
  shows "hover_agrees (isHovered (hoverState (container w))) w \<and> in_step (widgets (app w)) \<and> handle_looks_right (widgets (app w))
    \<and> text_ok (stWidget w) \<and> in_range (asPanel (widgets (app w)))"
  using app_run_ok [OF assms(2,3), of mg vw dr pl framebuffer con idle junk mesh g deferred] assms(1)
  by (auto simp: world_ok_def inner_ok_def ui_ok_def sel_ok_def left_scrolls_def)

text \<open>A draw call with a matrix and the corners of a mesh covers a rectangle.\<close>

definition draws_over :: "'m view \<Rightarrow> 'm \<Rightarrow> vector2 list \<Rightarrow> range2 \<Rightarrow> bool" where
  "draws_over vw m verts r \<longleftrightarrow> transformPoint vw m (verts ! 0) = rmin r \<and> transformPoint vw m (verts ! 2) = rmax r"

lemma in_place_draws:
  "in_place vw m p \<Longrightarrow> draws_over vw m (corners (shape p)) (geometry p)"
  "in_place vw m p \<Longrightarrow> draws_over vw m (ph_corners (shape p)) (geometry p)"
proof -
  assume p: "in_place vw m p"
  have "geometry p = geometry (updateGeometry vw m p)" using p by (simp add: in_place_def)
  then show "draws_over vw m (corners (shape p)) (geometry p)" "draws_over vw m (ph_corners (shape p)) (geometry p)"
    by (simp_all add: draws_over_def corners_def ph_corners_def updateGeometry_def eval_nat_numeral)
qed

text \<open>C4: Whatever the events, the mouse finds the selector button, the panel, the scroller and its handle exactly
  where they are drawn, and the two round shapes are cut out in pixels around the same place, at the
  resolution of the window.\<close>

theorem drawn_where_hovered:
  assumes "us_exec mg vw dr pl (ViewportIn windowSize framebuffer # is) (us_start mg dr con idle junk mesh g deferred)
      = Some (Inr w)"
    and "list_all (app_accepts (\<lambda>_. True)) is" and "window_ok windowSize"
    and "b = asButton (widgets (app w))" and "p = asPanel (widgets (app w))" and "s = scroller p" and "h = handle s"
  shows "draws_over vw (buttonMatrix b) (buttonVertices b) (widget_geometry w 1)
    \<and> draws_over vw (panelMatrix p) (panelVertices p) (widget_geometry w 2)
    \<and> draws_over vw (scMatrix s) (verticesPh s) (widget_geometry w 3)
    \<and> (contentBigEnough s \<longrightarrow> draws_over vw (handleMatrix h) (verticesScroller h) (widget_geometry w 4)
         \<and> geomScrollerPx h = shapeIntoPixel (selCon (widgets (app w))) (widget_geometry w 4))
    \<and> geomPhPx s = shapeIntoPixel (selCon (widgets (app w))) (widget_geometry w 3)
    \<and> u_resolutionPx (roundedShader (gpu w)) = ws (selCon (widgets (app w)))"
proof -
  have "sel_ok vw (widgets (app w))" "u_resolutionPx (roundedShader (gpu w)) = ws (selCon (widgets (app w)))"
    using app_run_ok [OF assms(2,3), of mg vw dr pl framebuffer con idle junk mesh g deferred] assms(1)
    by (auto simp: world_ok_def inner_ok_def ui_ok_def)
  then show ?thesis using in_place_draws
    by (auto simp: assms(4-7) sel_ok_def panel_placed_def button_placed_def scroller_placed_def handle_placed_def widget_geometry_def)
qed

section \<open>What is on screen after a resize\<close>

text \<open>A pixel of the framebuffer is drawn when it passes the scissor test.\<close>

definition pixel_drawn :: "'m gpu \<Rightarrow> int \<times> int \<Rightarrow> int \<times> int \<Rightarrow> bool" where
  "pixel_drawn g fb p \<longleftrightarrow> 0 \<le> fst p \<and> fst p < fst fb \<and> 0 \<le> snd p \<and> snd p < snd fb
     \<and> (scissorTest g \<longrightarrow> fst (fst (scissorBox g)) \<le> fst p \<and> fst p < fst (snd (scissorBox g))
          \<and> snd (fst (scissorBox g)) \<le> snd p \<and> snd p < snd (snd (scissorBox g)))"

definition clips :: "range2i \<Rightarrow> ('p, 'm, 'e) us_world \<Rightarrow> bool" where
  "clips box w \<longleftrightarrow> scissorTest (gpu w) \<and> scissorBox (gpu w) = box"

definition same_clip :: "'m gpu \<Rightarrow> 'm gpu \<Rightarrow> bool" where
  "same_clip g g' \<longleftrightarrow> scissorTest g' = scissorTest g \<and> scissorBox g' = scissorBox g"

lemma set_clip:
  "same_clip g (df_set f g') = same_clip g g'" "same_clip g (bind_texture u x g') = same_clip g g'"
  "same_clip g (flat_set m c g') = same_clip g g'" "same_clip g (emit call g') = same_clip g g'"
  "same_clip g (draw_text dr mesh g') = same_clip g g'"
  "same_clip g (rounded_setProjectionMatrix m g') = same_clip g g'" "same_clip g (rounded_setRectPx r g') = same_clip g g'"
  "same_clip g (rounded_setColor c g') = same_clip g g'" "same_clip g (select_setProjectionMatrix m g') = same_clip g g'"
  "same_clip g (grid_setScale y g') = same_clip g g'" "same_clip g (grid_setProjectionMatrix m g') = same_clip g g'"
  "same_clip g (g'\<lparr>colorMatrix := m\<rparr>) = same_clip g g'"
  by (simp_all add: same_clip_def df_set_def bind_texture_def flat_set_def emit_def draw_text_def rounded_setProjectionMatrix_def
      rounded_setRectPx_def rounded_setColor_def select_setProjectionMatrix_def grid_setScale_def grid_setProjectionMatrix_def)

lemma widget_clip:
  "same_clip g (text_draw dr txt x g') = same_clip g g'" "same_clip g (enlighter_draw mg c g') = same_clip g g'"
  "same_clip g (button_draw b g') = same_clip g g'" "same_clip g (handle_draw active h g') = same_clip g g'"
  "same_clip g (scroller_mayDraw active s g') = same_clip g g'" "same_clip g (drawInbetweenScissor mg content_grid g') = same_clip g g'"
  by (simp_all add: text_draw_def enlighter_draw_def button_draw_def handle_draw_def scroller_mayDraw_def drawInbetweenScissor_def
      set_clip Let_def)

lemma part_clip:
  "same_clip g (panel_mayDraw mg pl active p g') = same_clip g g'" "same_clip g (selection_mayDraw m r g') = same_clip g g'"
  "same_clip g (grid_draw mesh m y g') = same_clip g g'"
  by (simp_all add: panel_mayDraw_def selection_mayDraw_def grid_draw_def grid_bindTexture_def widget_clip set_clip Let_def)

lemma draw_clips: "same_clip (gpu w) (gpu (us_draw mg dr pl w))"
  by (simp add: us_draw_def Let_def debug_text_keeps part_clip widget_clip set_clip) (simp add: same_clip_def)

lemma hover_keeps_gpu: "gpu (fold (onHoverChanged mg pl) changes w) = gpu w"
proof (induction changes arbitrary: w)
  case (Cons c changes)
  have "gpu (onHoverChanged mg pl c w) = gpu w" by (cases c) (simp add: onHoverChanged_def split_beta Let_def)
  then show ?case using Cons by simp
qed simp

lemma step_clips: "us_step mg vw dr pl i w = Some (Inr w') \<Longrightarrow> clips box w \<Longrightarrow> clips box w'"
proof (cases i)
  case (DrawIn x nextFrame)
  assume "us_step mg vw dr pl i w = Some (Inr w')" and "clips box w"
  then show ?thesis
    using draw_clips [of "advance_all mg vw pl (w\<lparr>updateChecker := snd (poll x (updateChecker w)), gpu := (gpu w)\<lparr>drawCalls := []\<rparr>\<rparr>)" mg dr pl]
    by (auto simp: DrawIn clips_def same_clip_def world_drawEvent_def advance_all_def Let_def split: prod.splits option.splits)
qed (auto simp: clips_def world_mouseMoveEvent_def hover_keeps_gpu world_mousePressEvent_def world_mouseReleaseEvent_def
      world_mouseScrollEvent_def world_viewportEvent_def rounded_setResolution_def split_beta Let_def)

interpretation clipped: event_loop "us_step mg vw dr pl" "app_accepts throws" "\<lambda>w. world_ok vw throws w \<and> clips box w" throws
  for mg :: "'m magnum" and vw :: "'m view" and dr :: "'m drawing" and pl :: "'p magnum_player" and throws :: "'e \<Rightarrow> bool" and box
proof unfold_locales
  fix w :: "('p, 'm, 'e) us_world" and i and e and w'
  assume "world_ok vw throws w \<and> clips box w" and i: "app_accepts throws i"
  then have w: "world_ok vw throws w" "clips box w" by simp_all
  show "us_step mg vw dr pl i w \<noteq> None" using app_loop.returns [OF w(1) i] .
  show "throws e" if "us_step mg vw dr pl i w = Some (Inl e)" using app_loop.exception [OF w(1) i that] .
  show "world_ok vw throws w' \<and> clips box w'" if "us_step mg vw dr pl i w = Some (Inr w')"
    using app_loop.keeps [OF w(1) i that] step_clips [OF that w(2)] by (rule conjI)
qed

lemma run_clips:
  fixes con :: "'m constraints" and idle :: 'p and w :: "('p, 'm, 'e) us_world"
  assumes "us_exec mg vw dr pl (ViewportIn windowSize framebuffer # is) (us_start mg dr con idle junk mesh g deferred)
      = Some (Inr w)"
    and "list_all (app_accepts (\<lambda>_. True)) is" and "window_ok windowSize"
  shows "clips (scissorBox g) w"
proof -
  let ?w = "world_viewportEvent mg vw windowSize framebuffer (us_start mg dr con idle junk mesh g deferred)
    :: ('p, 'm, 'e) us_world"
  have "clips (scissorBox g) ?w"
    by (simp add: clips_def world_viewportEvent_def us_start_def updateDebugText_def rounded_setResolution_def renderer_setup_def Let_def)
  then have "world_ok vw (failed_checks is) ?w \<and> clips (scissorBox g) ?w" using first_viewport_ok [OF assms(3)] by (rule conjI [rotated])
  from clipped.run [OF this accepts_own [OF assms(2)], where mg = mg and dr = dr and pl = pl] assms(1) show ?thesis
    by (auto simp: us_exec_def)
qed

text \<open>C39: The scissor test is enabled at the start and the only code that would set the scissor is commented out:
  whatever the events, a window made bigger than the framebuffer it had first shows nothing in the part it
  gained.\<close>

theorem enlarged_window_is_clipped:
  assumes "us_exec mg vw dr pl (ViewportIn windowSize framebuffer # is) (us_start mg dr con idle junk mesh g deferred)
      = Some (Inr w)"
    and "list_all (app_accepts (\<lambda>_. True)) is" and "window_ok windowSize" and "scissorBox g = ((0, 0), (width, height))"
    and "pixel_drawn (gpu w) (framebufferSize (app w)) p"
  shows "fst p < width \<and> snd p < height"
  using run_clips [OF assms(1-3)] assms(4,5) by (simp add: clips_def pixel_drawn_def)

section \<open>An application to run\<close>

text \<open>Matrices that translate and scale, and a GPU with everything at zero.\<close>

definition plain_drawing :: "(vector2 \<times> vector2) drawing" where
  "plain_drawing = \<lparr>uniformScaling = (\<lambda>m. vx (snd m)), vectorTextureUnit = 16, formatFloat = (\<lambda>x. ''0.00''),
     renderedShape = (\<lambda>fontSize txt al. whole_window), gettext = id\<rparr>"

definition plain_gpu :: "(vector2 \<times> vector2) gpu" where
  "plain_gpu =
     (let m = identityMatrix plain_magnum; zero = f32_lit 0; origin = vscalar zero
      in \<lparr>scissorTest = False, scissorBox = ((0, 0), (1280, 720)), blending = False, blendFactors = (OneFactor, ZeroFactor),
          glTextures = (\<lambda>_. None),
          distanceField = \<lparr>dfMatrix = m, dfColor = NoColor, dfOutlineColor = NoColor, dfOutlineRange = (zero, zero), dfSmoothness = zero\<rparr>,
          flatShader = \<lparr>flatMatrix = m, flatColor = NoColor\<rparr>, colorMatrix = m,
          roundedShader = \<lparr>u_projMatrix = m, u_color = NoColor, u_rectBottomLeftPx = origin, u_rectSizePx = origin, u_resolutionPx = origin\<rparr>,
          gridShader = \<lparr>gridProjection = m, gridScale = zero\<rparr>, selectMatrix = m, drawCalls = []\<rparr>)"

definition plain_start :: "(nat, vector2 \<times> vector2, string) us_world" where
  "plain_start = us_start plain_magnum plain_drawing (constraints_of plain_view (1280, 720)) 0 (\<lambda>_. NaN) [] plain_gpu False"

definition some_events :: "string us_input list" where
  "some_events = [MouseMoveIn (left_event (30, 300) (0, 0) 0), MousePressIn 0 (left_event (30, 300) (0, 0) 0),
     DrawIn True (f32_lit 1, f32_lit 1), MouseReleaseIn (left_event (31, 300) (1, 0) 0), CheckDoneIn (Inr True),
     ViewportIn (800, 600) (800, 600), DrawIn True (f32_lit 2, f32_lit 1)]"

lemma some_events_ok: "list_all (app_accepts (\<lambda>_. True)) some_events" "\<not> failed_checks some_events e" "window_ok (1280, 720)"
  by (simp_all add: some_events_def app_accepts_def failed_checks_def window_ok_def)

lemma some_run:
  "\<exists>w. us_exec plain_magnum plain_view plain_drawing (countdown_player 3) (ViewportIn (1280, 720) (1280, 720) # some_events) plain_start
     = Some (Inr w)"
  using app_run_ok [OF some_events_ok(1,3), where mg = plain_magnum and vw = plain_view and dr = plain_drawing and pl = "countdown_player 3"
      and framebuffer = "(1280, 720)" and con = "constraints_of plain_view (1280, 720)" and idle = 0 and junk = "\<lambda>_. NaN"
      and mesh = "[]" and g = plain_gpu and deferred = False] some_events_ok(2)
  unfolding plain_start_def by blast

theorem widgets_follow_mouse_witness:
  "\<exists>w. us_exec plain_magnum plain_view plain_drawing (countdown_player 3) (ViewportIn (1280, 720) (1280, 720) # some_events) plain_start
     = Some (Inr w) \<and> hover_agrees (isHovered (hoverState (container w))) w \<and> in_range (asPanel (widgets (app w)))"
proof -
  obtain w where w: "us_exec plain_magnum plain_view plain_drawing (countdown_player 3) (ViewportIn (1280, 720) (1280, 720) # some_events)
      plain_start = Some (Inr w)" using some_run by blast
  show ?thesis using w widgets_follow_mouse [OF w [unfolded plain_start_def] some_events_ok(1,3)] by blast
qed

theorem drawn_where_hovered_witness:
  "\<exists>w. us_exec plain_magnum plain_view plain_drawing (countdown_player 3) (ViewportIn (1280, 720) (1280, 720) # some_events) plain_start
     = Some (Inr w)
     \<and> draws_over plain_view (panelMatrix (asPanel (widgets (app w)))) (panelVertices (asPanel (widgets (app w)))) (widget_geometry w 2)"
proof -
  obtain w where w: "us_exec plain_magnum plain_view plain_drawing (countdown_player 3) (ViewportIn (1280, 720) (1280, 720) # some_events)
      plain_start = Some (Inr w)" using some_run by blast
  show ?thesis using w drawn_where_hovered [OF w [unfolded plain_start_def] some_events_ok(1,3) refl refl refl refl] by blast
qed

theorem frame_draws_scene_witness:
  "drawCalls (gpu (us_draw plain_magnum plain_drawing (countdown_player 3) plain_start)) =
     scene plain_magnum plain_drawing (countdown_player 3) plain_start"
proof -
  have "vectorTextureUnit plain_drawing \<noteq> GRID_TEXTURE_UNIT" by (simp add: plain_drawing_def GRID_TEXTURE_UNIT_def)
  moreover have "drawCalls (gpu plain_start) = []"
    by (simp add: plain_start_def us_start_def updateDebugText_def renderer_setup_def plain_gpu_def Let_def)
  ultimately show ?thesis
    using frame_draws_scene [of plain_drawing "gpu plain_start" "gpu plain_start" plain_magnum "countdown_player 3" plain_start] by simp
qed

theorem enlarged_window_is_clipped_witness:
  "\<exists>w. us_exec plain_magnum plain_view plain_drawing (countdown_player 3)
       (ViewportIn (1280, 720) (1280, 720) # [ViewportIn (1920, 1080) (1920, 1080)]) plain_start = Some (Inr w)
     \<and> framebufferSize (app w) = (1920, 1080) \<and> (pixel_drawn (gpu w) (1920, 1080) (1500, 100) \<longrightarrow> (1500 :: int) < 1280)"
proof -
  let ?w = "world_viewportEvent plain_magnum plain_view (1920, 1080) (1920, 1080)
    (world_viewportEvent plain_magnum plain_view (1280, 720) (1280, 720) plain_start)"
  have r: "us_exec plain_magnum plain_view plain_drawing (countdown_player 3)
       (ViewportIn (1280, 720) (1280, 720) # [ViewportIn (1920, 1080) (1920, 1080)]) plain_start = Some (Inr ?w)"
    by (simp add: us_exec_def)
  have f: "framebufferSize (app ?w) = (1920, 1080)" by (simp add: world_viewportEvent_def us_viewportEvent_def Let_def)
  have b: "scissorBox plain_gpu = ((0, 0), (1280, 720))" by (simp add: plain_gpu_def Let_def)
  have ok: "list_all (app_accepts (\<lambda>_. True)) [ViewportIn (1920, 1080) (1920, 1080)]"
    by (simp add: app_accepts_def window_ok_def)
  have "(1500 :: int) < 1280" if p: "pixel_drawn (gpu ?w) (1920, 1080) (1500, 100)"
    using enlarged_window_is_clipped [OF r [unfolded plain_start_def] ok some_events_ok(3) b, of "(1500, 100)"] p f
    by (simp only: plain_start_def fst_conv)
  with r f show ?thesis by blast
qed

section \<open>The top row of the window\<close>

lemma round_half:
  assumes "0 < n" and "n \<le> 2 ^ 24"
  shows "round_f32 s (of_int n / 2) = Num (of_int n / 2)" and "round_f32 s (- (of_int n / 2)) = Num (- (of_int n / 2))"
proof -
  have e: "(of_int n :: rat) * 2 powi (- 1) = of_int n / 2" by (simp add: power_int_minus)
  from round_scaled [OF assms, of "- 1"] have h: "round_f32 t (of_int n / 2) = Num (of_int n / 2)" for t unfolding e by simp
  show "round_f32 s (of_int n / 2) = Num (of_int n / 2)" by (rule h)
  have "round_f32 s (- q) = Num (- q)" if "0 < q" "round_f32 s q = Num q" for q
    using that by (auto simp: round_f32_def Let_def split: if_splits)
  then show "round_f32 s (- (of_int n / 2)) = Num (- (of_int n / 2))" using h assms(1) by simp
qed

lemma half_exact:
  assumes "0 < n" and "n \<le> 2 ^ 24"
  shows "f32_of_int n = Num (of_int n)" and "fdiv (f32_of_int n) (f32_lit 2) = Num (of_int n / 2)"
proof -
  have two: "f32_lit 2 = Num 2" by code_simp
  show n: "f32_of_int n = Num (of_int n)" using assms round_scaled [of n 0 False] by (simp add: f32_of_int_def)
  show "fdiv (f32_of_int n) (f32_lit 2) = Num (of_int n / 2)" unfolding n two by (simp add: round_half [OF assms])
qed

lemma cursor_top:
  assumes "0 < height" and "height \<le> 2 ^ 24"
  shows "vy (cursorPosition (x, 0) (width, height)) = f32_lit 1"
proof -
  let ?h = "of_int height :: rat"
  have "fsub (f32_of_int 0) (fdiv (f32_of_int height) (f32_lit 2)) = Num (- (?h / 2))"
    by (simp only: half_exact(2) [OF assms]) (simp add: fsub_def round_half [OF assms])
  moreover have "fdiv (Num (- (?h / 2))) (Num ?h) = Num (- 1 / 2)"
  proof -
    have "fdiv (Num (- (?h / 2))) (Num ?h) = round_f32 True (- 1 / 2)" using assms(1) by simp
    also have "\<dots> = Num (- 1 / 2)" by code_simp
    finally show ?thesis .
  qed
  moreover have "fmul (Num (- 1 / 2)) (f32_lit (- 2)) = f32_lit 1" by code_simp
  ultimately show ?thesis by (simp only: cursorPosition_def Let_def vmul_def vdiv_def vsub_def vscalar_def vector2.simps fst_conv snd_conv half_exact [OF assms])
qed

definition open_above :: "'m view \<Rightarrow> bool" where
  "open_above vw \<longleftrightarrow> (\<forall>r v. rangeContains vw r v \<longrightarrow> fless (vx v) (vx (rmax r)) \<and> fless (vy v) (vy (rmax r)))"

lemma top_is_outside: "open_above vw \<Longrightarrow> vy v = f32_lit 1 \<Longrightarrow> \<not> under_cursor vw w v 0"
proof -
  assume "open_above vw" and "vy v = f32_lit 1"
  moreover have "\<not> fless (f32_lit 1) (f32_lit 1)" by (rule fless_irrefl)
  ultimately show ?thesis by (fastforce simp: under_cursor_def widget_geometry_def open_above_def whole_window_def vscalar_def)
qed



end
