(* ===== verification/Startup.thy ===== *)
theory Startup
  imports AppRuns FileContext
begin

text \<open>
  The constructor of \<open>USApplication\<close>: the ways it ends the program, in the order of the code, the crash
  reporter, which is given a directory of the application's context, and the application it leaves.
\<close>

section \<open>The crash reporter\<close>

record sentry_options =
  sentryDsn :: string
  sentryEnvironment :: string
  sentryRelease :: string
  sentryDebug :: int
  sentryDatabase :: string

text \<open>The release build; its endpoint and its version are set by the build.\<close>

definition initSentry :: "string \<Rightarrow> string \<Rightarrow> file_system \<Rightarrow> context_error + sentry_options \<times> file_system" where
  "initSentry endpoint version fs =
     (case context_normal fs of
        Inl e \<Rightarrow> Inl e
      | Inr (c, fs) \<Rightarrow>
          let dbStr = path_string (pathToContext c) @ ''/sentry_db''
          in Inr (\<lparr>sentryDsn = endpoint, sentryEnvironment = ''Production'', sentryRelease = version, sentryDebug = 1,
                   sentryDatabase = dbStr\<rparr>, context_destroy c fs))"

section \<open>The constructor\<close>

text \<open>What the libraries answer: the plugins that are found, the files they can read.\<close>

record libraries =
  pngImporter :: bool
  gridOpened :: bool
  gridImage :: "(int \<times> int) option"
  fontPlugin :: bool
  fontOpened :: bool

datatype construction_failure = Ended start_failure | ContextFailure context_error

definition us_construct :: "'m magnum \<Rightarrow> 'm drawing \<Rightarrow> 'm constraints \<Rightarrow> 'p \<Rightarrow> (nat \<Rightarrow> f32) \<Rightarrow> 'm gpu \<Rightarrow> bool \<Rightarrow>
    string \<Rightarrow> string \<Rightarrow> libraries \<Rightarrow> file_system \<Rightarrow>
    construction_failure + sentry_options \<times> ('p, 'm, 'e) us_world \<times> file_system" where
  "us_construct mg dr con idle junk g deferred endpoint version libs fs =
     (case grid_create (pngImporter libs) (gridOpened libs) (gridImage libs) MAP_SIZE MINIMUM_HEIGHT of
        Inl f \<Rightarrow> Inl (Ended f)
      | Inr (levels, mesh) \<Rightarrow>
          (case initSentry endpoint version fs of
             Inl e \<Rightarrow> Inl (ContextFailure e)
           | Inr (options, fs) \<Rightarrow>
               if \<not> fontPlugin libs \<or> \<not> fontOpened libs then Inl (Ended (ExitCode 1))
               else Inr (options, us_start mg dr con idle junk mesh g deferred, fs)))"

text \<open>The reporter's directory is one level below a directory that exists once the constructor is through,
  and nothing else of the disk has changed.\<close>

lemma initSentry_ok:
  assumes "initSentry endpoint version fs = Inr (options, fs')" and "fs_ok fs"
  shows "\<exists>p. sentryDatabase options = path_string (p @ [''sentry_db'']) \<and> is_directory fs' p \<and> only_adds p fs fs'"
proof -
  obtain c fs1 where c: "context_normal fs = Inr (c, fs1)" and o: "fs' = context_destroy c fs1"
    "sentryDatabase options = path_string (pathToContext c) @ ''/sentry_db''"
    using assms(1) by (auto simp: initSentry_def Let_def split: sum.splits)
  have p: "getDefaultContextPath fs = Inr (pathToContext c, fs1)" "env c = ENV_DEFAULT" "is_directory fs1 (pathToContext c)"
    using bind_context_Inr c by (auto simp: context_normal_def)
  from default_path [OF p(1)] create_only_adds assms(2) have "only_adds (pathToContext c) fs fs1" by blast
  moreover have "fs' = fs1" using p(2) by (simp add: o(1) context_destroy_def)
  moreover have "sentryDatabase options = path_string (pathToContext c @ [''sentry_db''])" by (simp add: o(2) path_string_def)
  ultimately show ?thesis using p(3) by blast
qed

text \<open>C7: Where the libraries find their plugins and files and the context's directory can be made, the constructor
  succeeds, whatever the members without an initialiser hold, and its application handles every sequence of
  events: no handler fails to return, and the only exception that can end it is one that the update check
  threw before.\<close>

theorem starts_and_runs:
  fixes "is" :: "'e us_input list" and con :: "'m constraints" and idle :: 'p
  assumes "pngImporter libs" and "gridOpened libs" and "gridImage libs = Some imageSize" and "fontPlugin libs" and "fontOpened libs"
    and "context_normal fs = Inr (c, fs1)" and "window_ok windowSize" and "list_all (app_accepts (\<lambda>_. True)) is"
  shows "\<exists>options w fs' r. us_construct mg dr con idle junk g deferred endpoint version libs fs = Inr (options, w, fs')
    \<and> us_exec mg vw dr pl (ViewportIn windowSize framebuffer # is) w = Some r \<and> (\<forall>e. r = Inl e \<longrightarrow> CheckDoneIn (Inl e) \<in> set is)"
proof -
  let ?mesh = "grid_vertices imageSize MAP_SIZE MINIMUM_HEIGHT"
  let ?w = "us_start mg dr con idle junk ?mesh g deferred :: ('p, 'm, 'e) us_world"
  have "grid_create (pngImporter libs) (gridOpened libs) (gridImage libs) MAP_SIZE MINIMUM_HEIGHT = Inr (log2_int (fst imageSize) + 1, ?mesh)"
    using assms(1-3) by (simp add: grid_create_def Let_def)
  moreover obtain options fs' where "initSentry endpoint version fs = Inr (options, fs')"
    using assms(6) by (simp add: initSentry_def Let_def)
  ultimately have "us_construct mg dr con idle junk g deferred endpoint version libs fs =
      Inr (options, ?w, fs')"
    using assms(4,5) by (simp add: us_construct_def)
  then show ?thesis using app_never_stuck [OF assms(8,7), of mg vw dr pl framebuffer con idle junk ?mesh g deferred]
    by blast
qed

theorem starts_and_runs_witness:
  "\<exists>options w fs' r. us_construct plain_magnum plain_drawing (constraints_of plain_view (1280, 720)) 0 (\<lambda>_. NaN) plain_gpu False
       ''https://sentry.io'' ''0.1'' \<lparr>pngImporter = True, gridOpened = True, gridImage = Some (256, 256), fontPlugin = True, fontOpened = True\<rparr>
       empty_disk = Inr (options, w, fs')
     \<and> us_exec plain_magnum plain_view plain_drawing (countdown_player 3) (ViewportIn (1280, 720) (1280, 720) # some_events) w = Some r"
proof -
  obtain c fs1 where c: "context_normal empty_disk = Inr (c, fs1)"
    by (simp add: context_normal_def getDefaultContextPath_def bind_context_def context_new_def directoryExists_def fs_exists_def
        is_directory_def create_directories_def empty_disk_def Let_def)
  let ?libs = "\<lparr>pngImporter = True, gridOpened = True, gridImage = Some (256, 256), fontPlugin = True, fontOpened = True\<rparr>"
  have l: "pngImporter ?libs" "gridOpened ?libs" "gridImage ?libs = Some (256, 256)" "fontPlugin ?libs" "fontOpened ?libs" by simp_all
  show ?thesis
    using starts_and_runs [OF l c some_events_ok(3,1), where mg = plain_magnum and dr = plain_drawing and idle = 0
        and con = "constraints_of plain_view (1280, 720)" and junk = "\<lambda>_. NaN" and g = plain_gpu
        and deferred = False and endpoint = "''https://sentry.io''" and version = "''0.1''" and vw = plain_view
        and pl = "countdown_player 3" and framebuffer = "(1280, 720)"]
    by blast
qed

end
