(* ===== verification/UpdateRun.thy ===== *)
theory UpdateRun
  imports UpdateCheck HttpDownload FileContext
begin

text \<open>
  The update check put together: the thread of \<open>std::async\<close> that runs \<open>_isNewerVersionAvailable\<close> over the
  files and the network of the machine, and the interface that polls it and launches the maintenance tool
  (\<open>src/core/UpdateChecker.hpp\<close>, \<open>src/app/utility/UpdateChecker.hpp\<close>,
  \<open>src/network/helpers/HTTPDownloader.cpp\<close>). The two run concurrently, and files and network may change
  between any two of their steps.
\<close>

section \<open>Files, network and processes\<close>

text \<open>The resolver's answer for a host, \<open>True\<close> for an endpoint that accepts, and the chunks with which a host
  answers a request.\<close>

record internet =
  resolves :: "string \<Rightarrow> bool list"
  answers :: "string \<Rightarrow> string \<Rightarrow> string list"

definition APP_REPOSITORY_HOST :: string where "APP_REPOSITORY_HOST = ''dl.bintray.com''"

definition APP_REPOSITORY_COMMAND :: string where
  "APP_REPOSITORY_COMMAND = ''/amphaal/understory/repository/Updates.xml''"

definition repository_request :: string where
  "repository_request = http_request APP_REPOSITORY_HOST APP_REPOSITORY_COMMAND"

definition getRemoteManifestContent :: "internet \<Rightarrow> http_error + string" where
  "getRemoteManifestContent n =
     DownloadHTTPFile (resolves n APP_REPOSITORY_HOST) (answers n APP_REPOSITORY_HOST repository_request)"

definition text_of :: "byte list \<Rightarrow> string" where
  "text_of bs = map (\<lambda>b. char_of (unat b)) bs"

text \<open>\<open>../components.xml\<close>, made absolute: the parent of the root is the root.\<close>

definition localManifestPath :: "path \<Rightarrow> path" where
  "localManifestPath current_path = butlast current_path @ [''components.xml'']"

definition local_manifest :: "path \<Rightarrow> file_system \<Rightarrow> string option" where
  "local_manifest current_path fs =
     (let absolute = localManifestPath current_path
      in if \<not> fs_exists fs absolute then None else Some (text_of (read_file fs absolute)))"

text \<open>The branch without \<open>WIN32\<close>.\<close>

definition exectedMaintenanceToolPath :: "path \<Rightarrow> path" where
  "exectedMaintenanceToolPath current_path = butlast current_path @ [''maintenancetool'']"

section \<open>The two threads\<close>

datatype check_thread =
    NotRun
  | Begun
  | LocalRead "(string, string) std_map"
  | Returned

record update_world =
  disk :: file_system
  workDir :: path
  net :: internet
  checkFuture :: "http_error check_future"
  checkSettled :: bool
  checkThread :: check_thread
  requests :: "(string \<times> string) list"
  processes :: "string list list"

text \<open>After the constructor of the application; a deferred check has no thread.\<close>

definition update_started :: "bool \<Rightarrow> file_system \<Rightarrow> path \<Rightarrow> internet \<Rightarrow> update_world" where
  "update_started deferred fs dir n =
     \<lparr>disk = fs, workDir = dir, net = n, checkFuture = (if deferred then Deferred else Running), checkSettled = False,
      checkThread = (if deferred then NotRun else Begun), requests = [], processes = []\<rparr>"

definition check_return :: "http_error + bool \<Rightarrow> update_world \<Rightarrow> update_world" where
  "check_return r w = w\<lparr>checkFuture := Ready r, checkThread := Returned\<rparr>"

text \<open>\<open>_isNewerVersionAvailable\<close> in two steps: the local manifest, then the remote one and the comparison.\<close>

definition fetch_local :: "update_world \<Rightarrow> update_world" where
  "fetch_local w =
     (let localRaw = getLocalManifestContent (local_manifest (workDir w) (disk w))
      in if localRaw = [] then check_return (Inr False) w
         else
           let localComponents = extractVersionsFromManifest localRaw
           in if localComponents = [] then check_return (Inr False) w
              else w\<lparr>checkThread := LocalRead localComponents\<rparr>)"

definition fetch_remote :: "(string, string) std_map \<Rightarrow> update_world \<Rightarrow> update_world" where
  "fetch_remote localComponents w =
     (let sent = (if connect_loop (resolves (net w) APP_REPOSITORY_HOST) then [(APP_REPOSITORY_HOST, repository_request)] else []);
          w = w\<lparr>requests := requests w @ sent\<rparr>
      in case getRemoteManifestContent (net w) of
           Inl e \<Rightarrow> check_return (Inl e) w
         | Inr remoteRaw \<Rightarrow>
             if remoteRaw = [] then check_return (Inr False) w
             else
               let remoteVersions = extractVersionsFromManifest remoteRaw
               in if remoteVersions = [] then check_return (Inr False) w
                  else check_return (Inr (components_loop localComponents remoteVersions)) w)"

definition check_thread_step :: "update_world \<Rightarrow> update_world" where
  "check_thread_step w =
     (case checkThread w of
        NotRun \<Rightarrow> w
      | Begun \<Rightarrow> fetch_local w
      | LocalRead localComponents \<Rightarrow> fetch_remote localComponents w
      | Returned \<Rightarrow> w)"

definition tryToLaunchUpdater_at :: "path \<Rightarrow> update_world \<Rightarrow> bool \<times> update_world" where
  "tryToLaunchUpdater_at updaterPath w =
     (if \<not> fs_exists (disk w) updaterPath then (False, w)
      else
        let args = [path_string updaterPath, ''--updater'']
        in (True, w\<lparr>processes := processes w @ [args]\<rparr>))"

definition poll_world :: "update_world \<Rightarrow> http_error + update_world" where
  "poll_world w =
     (if checkSettled w then Inr w
      else case checkFuture w of
             NoFuture \<Rightarrow> Inr w
           | Running \<Rightarrow> Inr w
           | Deferred \<Rightarrow> Inr w
           | Ready r \<Rightarrow>
               let w = w\<lparr>checkFuture := NoFuture\<rparr>
               in case r of
                    Inl e \<Rightarrow> Inl e
                  | Inr newer \<Rightarrow>
                      let w = (if newer then snd (tryToLaunchUpdater_at (exectedMaintenanceToolPath (workDir w)) w) else w)
                      in Inr (w\<lparr>checkSettled := True\<rparr>))"

text \<open>A schedule. An exception of a poll ends the program.\<close>

datatype update_event = CheckStep | PollStep | DiskChange file_system | NetChange internet

fun update_step :: "update_event \<Rightarrow> update_world \<Rightarrow> (http_error + update_world) option" where
  "update_step CheckStep w = Some (Inr (check_thread_step w))"
| "update_step PollStep w = Some (poll_world w)"
| "update_step (DiskChange fs) w = Some (Inr (w\<lparr>disk := fs\<rparr>))"
| "update_step (NetChange n) w = Some (Inr (w\<lparr>net := n\<rparr>))"

abbreviation update_run :: "update_event list \<Rightarrow> update_world \<Rightarrow> (http_error + update_world) option" where
  "update_run \<equiv> run_loop update_step"

lemma check_return_sel [simp]:
  "disk (check_return r w) = disk w" "workDir (check_return r w) = workDir w" "net (check_return r w) = net w"
  "checkFuture (check_return r w) = Ready r" "checkSettled (check_return r w) = checkSettled w"
  "checkThread (check_return r w) = Returned" "requests (check_return r w) = requests w"
  "processes (check_return r w) = processes w"
  by (simp_all add: check_return_def)

lemma tryToLaunchUpdater_at_sel [simp]:
  "disk (snd (tryToLaunchUpdater_at p w)) = disk w" "workDir (snd (tryToLaunchUpdater_at p w)) = workDir w"
  "net (snd (tryToLaunchUpdater_at p w)) = net w" "checkFuture (snd (tryToLaunchUpdater_at p w)) = checkFuture w"
  "checkSettled (snd (tryToLaunchUpdater_at p w)) = checkSettled w"
  "checkThread (snd (tryToLaunchUpdater_at p w)) = checkThread w"
  "requests (snd (tryToLaunchUpdater_at p w)) = requests w"
  "processes (snd (tryToLaunchUpdater_at p w))
     = processes w @ (if fs_exists (disk w) p then [[path_string p, ''--updater'']] else [])"
  by (simp_all add: tryToLaunchUpdater_at_def)

lemma fetch_local_sel [simp]:
  "disk (fetch_local w) = disk w" "workDir (fetch_local w) = workDir w" "net (fetch_local w) = net w"
  "checkSettled (fetch_local w) = checkSettled w" "requests (fetch_local w) = requests w" "processes (fetch_local w) = processes w"
  by (simp_all add: fetch_local_def Let_def)

lemma fetch_remote_sel [simp]:
  "disk (fetch_remote l w) = disk w" "workDir (fetch_remote l w) = workDir w" "net (fetch_remote l w) = net w"
  "checkSettled (fetch_remote l w) = checkSettled w" "checkThread (fetch_remote l w) = Returned"
  "processes (fetch_remote l w) = processes w"
  by (simp_all add: fetch_remote_def Let_def split: sum.split)

section \<open>The check in its two steps\<close>

text \<open>What the check is to answer in a state, and the request it sends for it.\<close>

definition check_answer :: "update_world \<Rightarrow> http_error + bool" where
  "check_answer w = isNewerVersionAvailable (local_manifest (workDir w) (disk w)) (getRemoteManifestContent (net w))"

definition check_asks :: "update_world \<Rightarrow> (string \<times> string) list" where
  "check_asks w =
     (if extractVersionsFromManifest (getLocalManifestContent (local_manifest (workDir w) (disk w))) \<noteq> []
         \<and> connect_loop (resolves (net w) APP_REPOSITORY_HOST)
      then [(APP_REPOSITORY_HOST, repository_request)] else [])"

lemma check_two_steps:
  assumes "checkThread w = Begun"
  shows "check_thread_step (check_thread_step w) = check_return (check_answer w) (w\<lparr>requests := requests w @ check_asks w\<rparr>)"
proof (cases "extractVersionsFromManifest (getLocalManifestContent (local_manifest (workDir w) (disk w))) = []")
  case True
  then have "check_thread_step w = check_return (Inr False) w"
    using assms by (simp add: check_thread_step_def fetch_local_def Let_def)
  moreover have "check_answer w = Inr False" "check_asks w = []"
    using True by (simp_all add: check_answer_def check_asks_def isNewerVersionAvailable_def Let_def)
  ultimately show ?thesis by (simp add: check_thread_step_def)
next
  case False
  let ?local = "getLocalManifestContent (local_manifest (workDir w) (disk w))"
  have raw: "?local \<noteq> []" using False extract_Nil by auto
  then have "check_thread_step w = w\<lparr>checkThread := LocalRead (extractVersionsFromManifest ?local)\<rparr>"
    using assms False by (simp add: check_thread_step_def fetch_local_def Let_def)
  then show ?thesis
    using False raw
    by (simp add: check_thread_step_def fetch_remote_def check_answer_def check_asks_def isNewerVersionAvailable_def
        check_return_def Let_def split: sum.split)
qed

text \<open>How many steps the thread has left.\<close>

fun steps_left :: "check_thread \<Rightarrow> nat" where
  "steps_left NotRun = 0"
| "steps_left Begun = 2"
| "steps_left (LocalRead l) = 1"
| "steps_left Returned = 0"

lemma steps_left_step: "steps_left (checkThread (check_thread_step w)) \<le> steps_left (checkThread w) - 1"
  by (auto simp: check_thread_step_def fetch_local_def Let_def split: check_thread.split)

lemma step_at_end: "steps_left (checkThread w) = 0 \<Longrightarrow> check_thread_step w = w"
  by (auto simp: check_thread_step_def split: check_thread.splits)

lemma three_steps: "check_thread_step (check_thread_step (check_thread_step w)) = check_thread_step (check_thread_step w)"
  by (rule step_at_end) (use steps_left_step [of w] steps_left_step [of "check_thread_step w"] in
      \<open>cases "checkThread w"; simp\<close>)

section \<open>However the threads are scheduled\<close>

text \<open>Where the thread is and what the future says.\<close>

definition check_inv :: "update_world \<Rightarrow> bool" where
  "check_inv w \<longleftrightarrow>
     (case checkThread w of
        NotRun \<Rightarrow> checkFuture w = Deferred \<and> requests w = [] \<and> \<not> checkSettled w
      | Begun \<Rightarrow> checkFuture w = Running \<and> requests w = [] \<and> \<not> checkSettled w
      | LocalRead l \<Rightarrow> checkFuture w = Running \<and> requests w = [] \<and> \<not> checkSettled w \<and> l \<noteq> []
      | Returned \<Rightarrow> checkFuture w = NoFuture \<and> checkSettled w \<or> \<not> checkSettled w \<and> (\<exists>r. checkFuture w = Ready r))
     \<and> set (requests w) \<subseteq> {(APP_REPOSITORY_HOST, repository_request)} \<and> length (requests w) \<le> 1
     \<and> (processes w = [] \<or> checkSettled w \<and> requests w \<noteq> []
          \<and> processes w = [[path_string (exectedMaintenanceToolPath (workDir w)), ''--updater'']])
     \<and> (checkFuture w = Ready (Inr True) \<longrightarrow> requests w \<noteq> [])"

lemma check_inv_start: "check_inv (update_started deferred fs dir n)"
  by (simp add: check_inv_def update_started_def)

lemma connected_download: "\<not> connect_loop (resolves n APP_REPOSITORY_HOST) \<Longrightarrow> getRemoteManifestContent n = Inl NotConnected"
  by (simp add: getRemoteManifestContent_def DownloadHTTPFile_def)

lemma check_inv_local: "check_inv w \<Longrightarrow> checkThread w = Begun \<Longrightarrow> check_inv (fetch_local w)"
  by (auto simp: check_inv_def fetch_local_def check_return_def Let_def)

lemma check_inv_remote: "check_inv w \<Longrightarrow> checkThread w = LocalRead l \<Longrightarrow> check_inv (fetch_remote l w)"
  using connected_download [of "net w"]
  by (auto simp: check_inv_def fetch_remote_def check_return_def Let_def split: sum.split)

lemma check_inv_step: "check_inv w \<Longrightarrow> check_inv (check_thread_step w)"
  using check_inv_local check_inv_remote by (auto simp: check_thread_step_def split: check_thread.split)

lemma check_inv_poll: "check_inv w \<Longrightarrow> poll_world w = Inr w' \<Longrightarrow> check_inv w'"
proof (cases "checkThread w = Returned \<and> \<not> checkSettled w")
  case True
  assume i: "check_inv w" and p: "poll_world w = Inr w'"
  with True obtain r where r: "checkFuture w = Ready r" by (auto simp: check_inv_def)
  with p True obtain newer where n: "r = Inr newer" by (cases r) (auto simp: poll_world_def Let_def)
  with True p r have w': "w' = (if newer then snd (tryToLaunchUpdater_at (exectedMaintenanceToolPath (workDir w)) (w\<lparr>checkFuture := NoFuture\<rparr>))
      else w\<lparr>checkFuture := NoFuture\<rparr>)\<lparr>checkSettled := True\<rparr>"
    by (cases newer) (auto simp: poll_world_def Let_def)
  show ?thesis
    using i True r n by (cases newer) (auto simp: check_inv_def w')
next
  case False
  assume i: "check_inv w" and p: "poll_world w = Inr w'"
  from i False have "poll_world w = Inr w"
    by (cases "checkThread w") (auto simp: check_inv_def poll_world_def)
  with i p show ?thesis by simp
qed

interpretation schedule: event_loop update_step "\<lambda>_. True" check_inv "\<lambda>_. True"
proof unfold_locales
  fix w i w'
  assume inv: "check_inv w" and u: "update_step i w = Some (Inr w')"
  show "check_inv w'"
  proof (cases i)
    case CheckStep
    with inv u show ?thesis using check_inv_step by fastforce
  next
    case PollStep
    with inv u show ?thesis by (simp add: check_inv_poll)
  next
    case (DiskChange fs)
    with inv u show ?thesis by (auto simp: check_inv_def split: check_thread.split)
  next
    case (NetChange n)
    with inv u show ?thesis by (auto simp: check_inv_def split: check_thread.split)
  qed
next
  fix w :: update_world and i
  show "update_step i w \<noteq> None" by (cases i) auto
qed simp

lemma update_run_cases:
  assumes "check_inv w"
  obtains e where "update_run evs w = Some (Inl e)" | w' where "update_run evs w = Some (Inr w')" "check_inv w'"
  using schedule.run [OF assms, of evs] by (auto simp: list.pred_True)

section \<open>The poller of the check\<close>

text \<open>The poller of the theory \<open>UpdateCheck\<close>, which knows of the check only that it finishes with some answer
  and of the disk only whether the tool is there, is what the interface sees of all this.\<close>

definition poller_of :: "update_world \<Rightarrow> http_error update_poller" where
  "poller_of w = \<lparr>future = checkFuture w, resolved = checkSettled w, launches = length (processes w)\<rparr>"

definition poll_event_of :: "update_event \<Rightarrow> update_world \<Rightarrow> http_error poll_event list" where
  "poll_event_of ev w =
     (case ev of
        CheckStep \<Rightarrow>
          (case checkFuture (check_thread_step w) of
             Ready r \<Rightarrow> if checkFuture w = Running then [Finish r] else []
           | _ \<Rightarrow> [])
      | PollStep \<Rightarrow> [Poll (fs_exists (disk w) (exectedMaintenanceToolPath (workDir w)))]
      | _ \<Rightarrow> [])"

fun poll_trace :: "update_event list \<Rightarrow> update_world \<Rightarrow> http_error poll_event list" where
  "poll_trace [] w = []"
| "poll_trace (ev # evs) w =
     poll_event_of ev w @ (case update_step ev w of Some (Inr w') \<Rightarrow> poll_trace evs w' | _ \<Rightarrow> [])"

lemma refines_thread:
  assumes "check_inv w"
  shows "poller_of (check_thread_step w) = fold poll_exec (poll_event_of CheckStep w) (poller_of w)"
proof (cases "checkThread w")
  case Begun
  then show ?thesis using assms
    by (auto simp: poll_event_of_def check_thread_step_def fetch_local_def Let_def poller_of_def check_done_def check_inv_def)
next
  case (LocalRead l)
  have "\<exists>r. checkFuture (fetch_remote l w) = Ready r"
    by (auto simp: fetch_remote_def Let_def split: sum.split)
  then obtain r where "checkFuture (fetch_remote l w) = Ready r" ..
  with LocalRead show ?thesis using assms
    by (simp add: poll_event_of_def check_thread_step_def poller_of_def check_done_def check_inv_def)
qed (use assms in \<open>auto simp: poll_event_of_def check_thread_step_def check_inv_def\<close>)

lemma refines_poll:
  assumes "poll_world w = Inr w'"
  shows "poller_of w' = fold poll_exec (poll_event_of PollStep w) (poller_of w)"
  using assms
  by (auto simp: poll_event_of_def poll_world_def poller_of_def poll_def tryToLaunchUpdater_def Let_def
      split: check_future.splits sum.splits if_splits)

lemma refines_step:
  assumes "check_inv w" and "update_step ev w = Some (Inr w')"
  shows "poller_of w' = fold poll_exec (poll_event_of ev w) (poller_of w)"
  using assms refines_thread [of w] refines_poll [of w w']
  by (cases ev) (auto simp: poller_of_def poll_event_of_def)

lemma refines_run:
  "check_inv w \<Longrightarrow> update_run evs w = Some (Inr w') \<Longrightarrow> poller_of w' = fold poll_exec (poll_trace evs w) (poller_of w)"
proof (induction evs arbitrary: w)
  case (Cons ev evs)
  then obtain w1 where w1: "update_step ev w = Some (Inr w1)" and r: "update_run evs w1 = Some (Inr w')"
    by (auto split: option.splits sum.splits)
  have "check_inv w1" using schedule.keeps [OF Cons.prems(1) _ w1] by simp
  with Cons.IH r refines_step [OF Cons.prems(1) w1] w1 show ?case by simp
qed simp

text \<open>The disks and networks there are during a schedule.\<close>

definition disks :: "update_event list \<Rightarrow> file_system \<Rightarrow> file_system set" where
  "disks evs fs = insert fs {fs'. DiskChange fs' \<in> set evs}"

definition nets :: "update_event list \<Rightarrow> internet \<Rightarrow> internet set" where
  "nets evs n = insert n {n'. NetChange n' \<in> set evs}"

definition answer_seen :: "file_system set \<Rightarrow> internet set \<Rightarrow> path \<Rightarrow> http_error + bool \<Rightarrow> bool" where
  "answer_seen D N dir r \<longleftrightarrow>
     (\<exists>fs \<in> D. \<exists>n \<in> N. r = isNewerVersionAvailable (local_manifest dir fs) (getRemoteManifestContent n))"

definition thread_seen :: "file_system set \<Rightarrow> internet set \<Rightarrow> path \<Rightarrow> update_world \<Rightarrow> bool" where
  "thread_seen D N dir w \<longleftrightarrow>
     workDir w = dir \<and> disk w \<in> D \<and> net w \<in> N
     \<and> (\<forall>l. checkThread w = LocalRead l \<longrightarrow>
          (\<exists>fs \<in> D. l = extractVersionsFromManifest (getLocalManifestContent (local_manifest dir fs))))"

lemma finish_local:
  assumes "thread_seen D N dir w" and "checkThread w = Begun"
  shows "thread_seen D N dir (fetch_local w) \<and> (\<forall>r. checkFuture (fetch_local w) = Ready r \<longrightarrow> answer_seen D N dir r \<or> checkFuture w = Ready r)"
proof -
  have "answer_seen D N dir (Inr False)"
    if "extractVersionsFromManifest (getLocalManifestContent (local_manifest dir (disk w))) = []"
    using assms(1) that unfolding answer_seen_def thread_seen_def
    by (intro bexI [of _ "disk w"] bexI [of _ "net w"]) (auto simp: isNewerVersionAvailable_def Let_def)
  then show ?thesis
    using assms extract_Nil by (auto simp: fetch_local_def thread_seen_def Let_def)
qed

lemma finish_remote:
  assumes "thread_seen D N dir w" and "checkThread w = LocalRead l" and "l \<noteq> []"
  shows "thread_seen D N dir (fetch_remote l w) \<and> (\<forall>r. checkFuture (fetch_remote l w) = Ready r \<longrightarrow> answer_seen D N dir r)"
proof -
  obtain fs where fs: "fs \<in> D" "l = extractVersionsFromManifest (getLocalManifestContent (local_manifest dir fs))"
    using assms(1,2) by (auto simp: thread_seen_def)
  have "getLocalManifestContent (local_manifest dir fs) \<noteq> []" using assms(3) fs(2) extract_Nil by auto
  then have "checkFuture (fetch_remote l w)
      = Ready (isNewerVersionAvailable (local_manifest dir fs) (getRemoteManifestContent (net w)))"
    using fs(2) assms(3) by (simp add: fetch_remote_def isNewerVersionAvailable_def Let_def split: sum.split)
  then show ?thesis using assms(1) fs(1) by (auto simp: thread_seen_def answer_seen_def)
qed

lemma finish_seen:
  assumes "check_inv w" and "thread_seen D N dir w" and "update_step ev w = Some (Inr w')"
    and "{fs. ev = DiskChange fs} \<subseteq> D" and "{n. ev = NetChange n} \<subseteq> N"
  shows "thread_seen D N dir w' \<and> (\<forall>r. Finish r \<in> set (poll_event_of ev w) \<longrightarrow> answer_seen D N dir r)"
proof (cases ev)
  case CheckStep
  have w': "w' = check_thread_step w" using assms(3) CheckStep by simp
  have fin: "Finish r \<in> set (poll_event_of ev w) \<longleftrightarrow> checkFuture w' = Ready r \<and> checkFuture w = Running" for r
    by (auto simp: CheckStep poll_event_of_def w' split: check_future.split)
  show ?thesis
  proof (cases "checkThread w")
    case Begun
    with finish_local [OF assms(2) Begun] show ?thesis by (auto simp: fin w' check_thread_step_def)
  next
    case (LocalRead l)
    then have "l \<noteq> []" using assms(1) by (auto simp: check_inv_def)
    with LocalRead finish_remote [OF assms(2) LocalRead] show ?thesis by (simp add: fin w' check_thread_step_def)
  qed (use assms(1,2) in \<open>auto simp: fin w' check_thread_step_def check_inv_def\<close>)
next
  case PollStep
  then have "thread_seen D N dir w'" using assms(2,3)
    by (auto simp: poll_world_def thread_seen_def Let_def split: check_future.splits sum.splits if_splits)
  with PollStep show ?thesis by (simp add: poll_event_of_def)
qed (use assms in \<open>auto simp: thread_seen_def poll_event_of_def\<close>)

lemma trace_seen:
  "check_inv w \<Longrightarrow> thread_seen D N dir w \<Longrightarrow> {fs. DiskChange fs \<in> set evs} \<subseteq> D \<Longrightarrow> {n. NetChange n \<in> set evs} \<subseteq> N \<Longrightarrow>
     Finish r \<in> set (poll_trace evs w) \<Longrightarrow> answer_seen D N dir r"
proof (induction evs arbitrary: w)
  case (Cons ev evs)
  show ?case
  proof (cases "Finish r \<in> set (poll_event_of ev w)")
    case True
    then have "ev = CheckStep" by (cases ev) (auto simp: poll_event_of_def)
    with True finish_seen [OF Cons.prems(1,2), of ev "check_thread_step w"] show ?thesis by simp
  next
    case False
    with Cons.prems(5) obtain w' where w': "update_step ev w = Some (Inr w')" and t: "Finish r \<in> set (poll_trace evs w')"
      by (cases "update_step ev w") (auto split: sum.splits)
    have "thread_seen D N dir w'"
      using finish_seen [OF Cons.prems(1,2) w'] Cons.prems(3,4) by auto
    with Cons.IH [of w'] schedule.keeps [OF Cons.prems(1) _ w'] Cons.prems(3,4) t show ?thesis by auto
  qed
qed simp

lemma thrown_finished:
  "check_inv w \<Longrightarrow> update_run evs w = Some (Inl e) \<Longrightarrow> Finish (Inl e) \<in> set (poll_trace evs w) \<or> checkFuture w = Ready (Inl e)"
proof (induction evs arbitrary: w)
  case (Cons ev evs)
  show ?case
  proof (cases "update_step ev w")
    case None
    with Cons.prems show ?thesis by simp
  next
    case (Some res)
    show ?thesis
    proof (cases res)
      case (Inl e')
      with Some Cons.prems(2) have "ev = PollStep" "poll_world w = Inl e" by (cases ev; auto)+
      then show ?thesis by (auto simp: poll_world_def Let_def split: check_future.splits sum.splits if_splits)
    next
      case (Inr w')
      with Some Cons have "Finish (Inl e) \<in> set (poll_trace evs w') \<or> checkFuture w' = Ready (Inl e)"
        using schedule.keeps [OF Cons.prems(1)] by simp
      moreover have "Finish (Inl e) \<in> set (poll_event_of ev w) \<or> checkFuture w = Ready (Inl e)" if "checkFuture w' = Ready (Inl e)"
      proof (cases ev)
        case CheckStep
        with Some Inr that Cons.prems(1) show ?thesis
          by (cases "checkThread w") (auto simp: poll_event_of_def check_inv_def check_thread_step_def)
      next
        case PollStep
        with Some Inr that show ?thesis
          by (auto simp: poll_world_def Let_def split: check_future.splits sum.splits if_splits)
      qed (use Some Inr that in auto)
      ultimately show ?thesis using Some Inr by auto
    qed
  qed
qed simp

text \<open>C5: Refinement. However the thread of the check and the polls of the interface are interleaved, and however files
  and network change between their steps: the interface sees exactly the poller of \<open>UpdateCheck\<close>, driven by one
  \<open>Finish\<close> where the thread returned and a \<open>Poll\<close> for each poll; every answer it is given is that of
  \<open>isNewerVersionAvailable\<close> for some disk and some network there were in the meantime (not always at the same
  moment); no step gets stuck, and an exception is one the check has finished with.\<close>

theorem update_refines_poller:
  "let w = update_started deferred fs dir n; trace = poll_trace evs w
   in (case update_run evs w of
         None \<Rightarrow> False
       | Some (Inl e) \<Rightarrow> Finish (Inl e) \<in> set trace
       | Some (Inr w') \<Rightarrow> poller_of w' = fold poll_exec (Start deferred # trace) poller_init)
      \<and> {r. Finish r \<in> set trace}
          \<subseteq> {isNewerVersionAvailable (local_manifest dir fs') (getRemoteManifestContent n') |
                fs' n'. fs' \<in> disks evs fs \<and> n' \<in> nets evs n}"
proof -
  let ?w = "update_started deferred fs dir n"
  have start: "poller_of ?w = poll_exec (Start deferred) poller_init" "\<And>e. checkFuture ?w \<noteq> Ready (Inl e)"
    by (simp_all add: update_started_def poller_of_def poller_start_def poller_init_def)
  have seen: "thread_seen (disks evs fs) (nets evs n) dir ?w"
    by (simp add: thread_seen_def update_started_def disks_def nets_def)
  have ans: "answer_seen (disks evs fs) (nets evs n) dir r" if "Finish r \<in> set (poll_trace evs ?w)" for r
    by (rule trace_seen [OF check_inv_start seen _ _ that]) (auto simp: disks_def nets_def)
  have "{r. Finish r \<in> set (poll_trace evs ?w)}
      \<subseteq> {isNewerVersionAvailable (local_manifest dir fs') (getRemoteManifestContent n') |
            fs' n'. fs' \<in> disks evs fs \<and> n' \<in> nets evs n}"
    using ans unfolding answer_seen_def by blast
  moreover have "case update_run evs ?w of
         None \<Rightarrow> False
       | Some (Inl e) \<Rightarrow> Finish (Inl e) \<in> set (poll_trace evs ?w)
       | Some (Inr w') \<Rightarrow> poller_of w' = fold poll_exec (Start deferred # poll_trace evs ?w) poller_init"
  proof (cases rule: update_run_cases [OF check_inv_start [of deferred fs dir n], of evs])
    case (1 e)
    then show ?thesis using thrown_finished [OF check_inv_start 1] start(2) by simp
  next
    case (2 w')
    then show ?thesis using refines_run [OF check_inv_start 2(1)] start(1) by simp
  qed
  ultimately show ?thesis by (simp add: Let_def)
qed

section \<open>What comes of a check\<close>

text \<open>With the files and the network as they are, the interface ends where it would with the whole check done
  at once: \<open>outcome\<close> is the poll after the thread's last step.\<close>

definition outcome :: "update_world \<Rightarrow> http_error + update_world" where
  "outcome w = poll_world (check_thread_step (check_thread_step w))"

lemma returned_run:
  "steps_left (checkThread w) = 0 \<Longrightarrow> check_inv w \<Longrightarrow> set evs \<subseteq> {CheckStep, PollStep} \<Longrightarrow>
     update_run evs w = Some (if PollStep \<in> set evs then poll_world w else Inr w)"
proof (induction evs arbitrary: w)
  case (Cons ev evs)
  show ?case
  proof (cases "ev = PollStep")
    case True
    show ?thesis
    proof (cases "poll_world w")
      case (Inr w')
      have c: "poll_world w' = Inr w'" "checkThread w' = checkThread w"
        using Inr Cons.prems(1)
        by (auto simp: poll_world_def Let_def split: check_future.splits sum.splits if_splits)
      then show ?thesis
        using True Inr Cons.IH [of w'] Cons.prems check_inv_poll [OF Cons.prems(2) Inr] by simp
    qed (simp add: True)
  next
    case False
    then show ?thesis using Cons by (simp add: step_at_end)
  qed
qed simp

lemma waiting_run:
  "check_inv w \<Longrightarrow> set evs \<subseteq> {CheckStep, PollStep} \<Longrightarrow>
     (case update_run evs w of
        None \<Rightarrow> False
      | Some (Inl e) \<Rightarrow> outcome w = Inl e
      | Some (Inr w') \<Rightarrow> check_inv w' \<and> outcome w' = outcome w
          \<and> steps_left (checkThread w') \<le> steps_left (checkThread w) - count_list evs CheckStep)"
proof (induction evs arbitrary: w)
  case (Cons ev evs)
  show ?case
  proof (cases "steps_left (checkThread w) = 0")
    case True
    have o: "outcome w = poll_world w" using True by (simp add: outcome_def step_at_end)
    have idle: "outcome w' = Inr w' \<and> steps_left (checkThread w') = 0" if "poll_world w = Inr w'" for w'
      using that True
      by (auto simp: outcome_def step_at_end poll_world_def Let_def split: check_future.splits sum.splits if_splits)
    show ?thesis
      using returned_run [OF True Cons.prems] o idle True Cons.prems(1) check_inv_poll [OF Cons.prems(1)]
      by (auto split: sum.split)
  next
    case False
    with Cons.prems(1) have run: "checkFuture w = Running" by (cases "checkThread w") (auto simp: check_inv_def)
    have poll: "poll_world w = Inr w" using run by (simp add: poll_world_def)
    have "outcome (check_thread_step w) = outcome w" unfolding outcome_def three_steps ..
    then have s: "\<exists>w1. update_step ev w = Some (Inr w1) \<and> check_inv w1 \<and> outcome w1 = outcome w
        \<and> steps_left (checkThread w1) \<le> steps_left (checkThread w) - count_list [ev] CheckStep"
      using Cons.prems poll check_inv_step [OF Cons.prems(1)] steps_left_step [of w] by auto
    then obtain w1 where w1: "update_step ev w = Some (Inr w1)" "check_inv w1" "outcome w1 = outcome w"
        "steps_left (checkThread w1) \<le> steps_left (checkThread w) - count_list [ev] CheckStep"
      by blast
    from Cons.IH [OF w1(2)] Cons.prems(2) w1 show ?thesis
      by (auto split: option.splits sum.splits if_splits)
  qed
qed simp

lemma update_run_append:
  "update_run (evs @ evs') w = (case update_run evs w of Some (Inr w') \<Rightarrow> update_run evs' w' | r \<Rightarrow> r)"
  by (induction evs arbitrary: w) (auto split: option.split sum.split)

lemma started_outcome:
  assumes "set evs \<union> set evs' \<subseteq> {CheckStep, PollStep}" and "2 \<le> count_list evs CheckStep" and "PollStep \<in> set evs'"
  shows "update_run (evs @ evs') (update_started False fs dir n) = Some (outcome (update_started False fs dir n))"
proof -
  let ?w = "update_started False fs dir n"
  have two: "steps_left (checkThread ?w) = 2" by (simp add: update_started_def)
  have wait: "case update_run evs ?w of
        None \<Rightarrow> False
      | Some (Inl e) \<Rightarrow> outcome ?w = Inl e
      | Some (Inr w') \<Rightarrow> check_inv w' \<and> outcome w' = outcome ?w
          \<and> steps_left (checkThread w') \<le> steps_left (checkThread ?w) - count_list evs CheckStep"
    by (rule waiting_run [OF check_inv_start]) (use assms(1) in simp)
  show ?thesis
  proof (cases rule: update_run_cases [OF check_inv_start [of False fs dir n], of evs])
    case (1 e)
    then show ?thesis using wait by (simp add: update_run_append)
  next
    case (2 w')
    with wait two assms(2) have w': "steps_left (checkThread w') = 0" "outcome w' = outcome ?w" by auto
    have "update_run evs' w' = Some (poll_world w')"
      using returned_run [OF w'(1) 2(2), of evs'] assms(1,3) by simp
    with 2 w' show ?thesis by (simp add: update_run_append outcome_def step_at_end)
  qed
qed

text \<open>The poll after the check's last step.\<close>

lemma started_polled:
  "outcome (update_started False fs dir n)
     = (let w = update_started False fs dir n
        in poll_world (check_return (check_answer w) (w\<lparr>requests := check_asks w\<rparr>)))"
  using check_two_steps [of "update_started False fs dir n"]
  by (simp add: outcome_def update_started_def Let_def)

text \<open>A text that is a manifest with some entries, at least one; a response with a body; and when two
  manifests call for an update.\<close>

definition manifest_with :: "entry list \<Rightarrow> string \<Rightarrow> bool" where
  "manifest_with es s \<longleftrightarrow> es \<noteq> [] \<and> (\<forall>e \<in> set es. entry_ok e)
     \<and> (\<exists>tail. erase_newlines s = concat (map entry_text es) @ tail \<and> \<not> contains_str ''<Name>'' tail)"

definition versions :: "entry list \<Rightarrow> string \<rightharpoonup> string" where
  "versions es = map_of (rev (map (\<lambda>(pre, name, gap, version). (name, version)) es))"

definition response_with :: "string \<Rightarrow> string list \<Rightarrow> bool" where
  "response_with body chunks \<longleftrightarrow>
     (\<exists>version code message hs n. status_ok version code message \<and> (\<forall>h \<in> set hs. header_ok h)
        \<and> ''Content-Length: '' @ to_string n \<in> set hs
        \<and> concat chunks = status_line version code message @ CRLF @ headers_text hs @ body)"

definition update_due :: "(string \<rightharpoonup> string) \<Rightarrow> (string \<rightharpoonup> string) \<Rightarrow> bool" where
  "update_due l r \<longleftrightarrow> dom l \<noteq> dom r \<or> (\<exists>c v w. l c = Some v \<and> r c = Some w \<and> v < w)"

lemma manifest_with_versions:
  assumes "manifest_with es s"
  shows "map_find (extractVersionsFromManifest s) = versions es" and "extractVersionsFromManifest s \<noteq> []" and "s \<noteq> []"
proof -
  obtain tail where "erase_newlines s = concat (map entry_text es) @ tail" "\<forall>e \<in> set es. entry_ok e"
      "\<not> contains_str ''<Name>'' tail"
    using assms by (auto simp: manifest_with_def)
  then show v: "map_find (extractVersionsFromManifest s) = versions es"
    using manifest_entries by (simp add: versions_def)
  have "dom (versions es) \<noteq> {}"
    using assms by (cases es) (auto simp: versions_def manifest_with_def dom_map_of_conv_image_fst)
  then show "extractVersionsFromManifest s \<noteq> []" using v by (auto simp del: map_find_Nil simp: map_find_empty)
  then show "s \<noteq> []" using extract_Nil by auto
qed

lemma download_with:
  assumes "response_with body chunks" and "True \<in> set endpoints"
  shows "DownloadHTTPFile endpoints chunks = Inr body"
proof -
  obtain version code message hs n where r: "status_ok version code message" "\<forall>h \<in> set hs. header_ok h"
      "''Content-Length: '' @ to_string n \<in> set hs"
      "concat chunks = status_line version code message @ CRLF @ headers_text hs @ body"
    using assms(1) by (auto simp: response_with_def)
  show ?thesis using download_response [OF assms(2) r(1,2) _ r(4)] content_length_header [OF r(3)] by fastforce
qed

lemma connect_loop_some: "True \<in> set endpoints \<Longrightarrow> connect_loop endpoints"
  by (induction endpoints) auto

lemma two_manifests:
  assumes "manifest_with es s" and "manifest_with es' body"
  shows "isNewerVersionAvailable (Some s) (Inr body :: http_error + string) = Inr (update_due (versions es) (versions es'))"
  using manifest_with_versions [OF assms(1)] manifest_with_versions [OF assms(2)]
    components_loop_spec [OF extract_ok extract_ok, of s body]
  by (simp add: isNewerVersionAvailable_def getLocalManifestContent_def Let_def update_due_def)

text \<open>The poll that settles the check: the server was asked once, and the tool is launched if an update is due.\<close>

lemma check_settles:
  assumes "fs (localManifestPath dir) = Some (RegularFile bs)" and "manifest_with es (text_of bs)"
    and "True \<in> set (resolves n APP_REPOSITORY_HOST)"
    and "response_with body (answers n APP_REPOSITORY_HOST repository_request)" and "manifest_with es' body"
  shows "\<exists>w. outcome (update_started False fs dir n) = Inr w \<and> checkSettled w
    \<and> requests w = [(APP_REPOSITORY_HOST, repository_request)]
    \<and> processes w =
        (if update_due (versions es) (versions es') \<and> fs_exists fs (exectedMaintenanceToolPath dir)
         then [[path_string (exectedMaintenanceToolPath dir), ''--updater'']] else [])"
proof -
  let ?w = "update_started False fs dir n"
  have l: "local_manifest dir fs = Some (text_of bs)"
    using assms(1) by (simp add: local_manifest_def fs_exists_def read_file_def Let_def)
  have r: "getRemoteManifestContent n = Inr body"
    using download_with [OF assms(4,3)] by (simp add: getRemoteManifestContent_def)
  have "check_answer ?w = Inr (update_due (versions es) (versions es'))"
    using two_manifests [OF assms(2,5)] l r by (simp add: check_answer_def update_started_def)
  moreover have "check_asks ?w = [(APP_REPOSITORY_HOST, repository_request)]"
    using manifest_with_versions(2) [OF assms(2)] connect_loop_some [OF assms(3)] l
    by (simp add: check_asks_def update_started_def getLocalManifestContent_def)
  ultimately show ?thesis
    by (simp add: started_polled Let_def poll_world_def) (simp add: update_started_def)
qed

text \<open>Without a connection the poll throws.\<close>

lemma check_offline:
  assumes "fs (localManifestPath dir) = Some (RegularFile bs)" and "manifest_with es (text_of bs)"
    and "True \<notin> set (resolves n APP_REPOSITORY_HOST)"
  shows "outcome (update_started False fs dir n) = Inl NotConnected"
proof -
  let ?w = "update_started False fs dir n"
  have l: "local_manifest dir fs = Some (text_of bs)"
    using assms(1) by (simp add: local_manifest_def fs_exists_def read_file_def Let_def)
  have "\<not> connect_loop endpoints" if "True \<notin> set endpoints" for endpoints
    using that by (induction endpoints) auto
  then have "getRemoteManifestContent n = Inl NotConnected" using connected_download assms(3) by blast
  then have "check_answer ?w = Inl NotConnected"
    using manifest_with_versions [OF assms(2)] l
    by (simp add: check_answer_def update_started_def isNewerVersionAvailable_def getLocalManifestContent_def Let_def)
  then show ?thesis
    by (simp add: started_polled Let_def poll_world_def) (simp add: update_started_def)
qed

text \<open>A sample: a manifest beside the application, and a server with a newer one.\<close>

definition bytes_of :: "string \<Rightarrow> byte list" where
  "bytes_of s = map of_char s"

lemma byte_of_char: "char_of (unat (of_char c :: byte)) = c"
proof -
  have "unat (of_char c :: byte) = of_char c"
    by (simp add: of_char_def unat_of_nat word_of_nat_eq_iff)
  then show ?thesis by simp
qed

lemma text_of_bytes [simp]: "text_of (bytes_of s) = s"
  by (simp add: text_of_def bytes_of_def comp_def byte_of_char)

definition newer_manifest :: string where
  "newer_manifest = ''<Updates><Name>app</Name><Version>0.6.0</Version></Updates>''"

definition sample_disk :: file_system where
  "sample_disk = [[''app'', ''components.xml''] \<mapsto> RegularFile (bytes_of sample_manifest),
     [''app'', ''maintenancetool''] \<mapsto> RegularFile []]"

definition sample_net :: "bool list \<Rightarrow> internet" where
  "sample_net endpoints = \<lparr>resolves = (\<lambda>_. endpoints),
     answers = (\<lambda>_ _. [''HTTP/1.1 200 OK'' @ CRLF @ ''Content-Len'', ''gth: 61'' @ CRLF @ CRLF, newer_manifest])\<rparr>"

lemma sample_manifest_entries:
  "manifest_with [(''<Packages>'', ''app'', ''<Title>a</Title>'', ''0.5.9'')] sample_manifest"
  by (simp add: manifest_with_def sample_manifest_def erase_newlines_def entry_text_def entry_ok_def first_before_def dot_def)

lemma newer_manifest_entries: "manifest_with [(''<Updates>'', ''app'', [], ''0.6.0'')] newer_manifest"
  by (simp add: manifest_with_def newer_manifest_def erase_newlines_def entry_text_def entry_ok_def first_before_def dot_def)

lemma sample_response: "response_with newer_manifest (answers (sample_net endpoints) host request)"
proof -
  have d: "to_string 200 = ''200''" "to_string 61 = ''61''" by code_simp+
  show ?thesis
    unfolding response_with_def
    by (rule exI [of _ "''HTTP/1.1''"], rule exI [of _ 200], rule exI [of _ "''OK''"],
        rule exI [of _ "[''Content-Length: 61'']"], rule exI [of _ 61])
       (simp add: d sample_net_def status_ok_def status_line_def header_ok_def CRLF_def is_space_def)
qed

lemma sample_file: "sample_disk (butlast [''app'', ''bin''] @ [''components.xml'']) = Some (RegularFile (bytes_of sample_manifest))"
  by (simp add: sample_disk_def)

lemma sample_entries:
  "manifest_with [(''<Packages>'', ''app'', ''<Title>a</Title>'', ''0.5.9'')] (text_of (bytes_of sample_manifest))"
  by (simp add: sample_manifest_entries)

lemma sample_tool:
  "fs_exists sample_disk [''app'', ''maintenancetool'']" "path_string [''app'', ''maintenancetool''] = ''/app/maintenancetool''"
  by (simp_all add: sample_disk_def fs_exists_def path_string_def)

lemma sample_due:
  "update_due (versions [(''<Packages>'', ''app'', ''<Title>a</Title>'', ''0.5.9'')]) (versions [(''<Updates>'', ''app'', [], ''0.6.0'')])"
  by (simp add: update_due_def versions_def less_char_def)

end
