(* ===== verification/AppUpdate.thy ===== *)
theory AppUpdate
  imports UpdateRun Startup
begin

text \<open>
  The running application and the thread of its update check, side by side: the events of the window, the
  steps of the thread, and the changes of files and network, in any order. The main loop of \<open>AppLoop\<close> knows
  nothing of files: here a frame polls the check that the thread of \<open>UpdateRun\<close> runs, and finds the maintenance
  tool where it is on the disk.
\<close>

section \<open>Both threads\<close>

datatype live_event =
    Ui "http_error us_input"
  | Frame "f32 \<times> f32"
  | Background
  | Disk file_system
  | Net internet

type_synonym ('p, 'm) live = "('p, 'm, http_error) us_world \<times> update_world"

text \<open>What a window event is: frames and the end of the check have events of their own.\<close>

definition window_event :: "http_error us_input \<Rightarrow> bool" where
  "window_event i = (case i of DrawIn _ _ \<Rightarrow> False | CheckDoneIn _ \<Rightarrow> False | _ \<Rightarrow> True)"

text \<open>One frame: the interface's poll, in both views of the check.\<close>

definition live_frame :: "'m magnum \<Rightarrow> 'm view \<Rightarrow> 'm drawing \<Rightarrow> 'p magnum_player \<Rightarrow> f32 \<times> f32 \<Rightarrow> ('p, 'm) live \<Rightarrow>
    (http_error + ('p, 'm) live) option" where
  "live_frame mg vw dr pl nextFrame = (\<lambda>(w, u).
     (case us_step mg vw dr pl (DrawIn (fs_exists (disk u) (exectedMaintenanceToolPath (workDir u))) nextFrame) w of
        None \<Rightarrow> None
      | Some (Inl e) \<Rightarrow> Some (Inl e)
      | Some (Inr w') \<Rightarrow> Some (map_sum id (Pair w') (poll_world u))))"

text \<open>A step of the check's thread; the last one makes the future of the application ready.\<close>

definition live_background :: "'m magnum \<Rightarrow> 'm view \<Rightarrow> 'm drawing \<Rightarrow> 'p magnum_player \<Rightarrow> ('p, 'm) live \<Rightarrow>
    (http_error + ('p, 'm) live) option" where
  "live_background mg vw dr pl = (\<lambda>(w, u).
     (let u' = check_thread_step u
      in case checkFuture u' of
           Ready r \<Rightarrow> map_option (map_sum id (\<lambda>w'. (w', u'))) (us_step mg vw dr pl (CheckDoneIn r) w)
         | _ \<Rightarrow> Some (Inr (w, u'))))"

fun live_step :: "'m magnum \<Rightarrow> 'm view \<Rightarrow> 'm drawing \<Rightarrow> 'p magnum_player \<Rightarrow> live_event \<Rightarrow> ('p, 'm) live \<Rightarrow>
    (http_error + ('p, 'm) live) option" where
  "live_step mg vw dr pl (Ui i) (w, u) = map_option (map_sum id (\<lambda>w'. (w', u))) (us_step mg vw dr pl i w)"
| "live_step mg vw dr pl (Frame nextFrame) (w, u) = live_frame mg vw dr pl nextFrame (w, u)"
| "live_step mg vw dr pl Background (w, u) = live_background mg vw dr pl (w, u)"
| "live_step mg vw dr pl (Disk fs) (w, u) = Some (Inr (w, u\<lparr>disk := fs\<rparr>))"
| "live_step mg vw dr pl (Net n) (w, u) = Some (Inr (w, u\<lparr>net := n\<rparr>))"

text \<open>From the constructor and the first layout of the window on.\<close>

definition live_run :: "'m magnum \<Rightarrow> 'm view \<Rightarrow> 'm drawing \<Rightarrow> 'p magnum_player \<Rightarrow> live_event list \<Rightarrow> ('p, 'm) live \<Rightarrow>
    (http_error + ('p, 'm) live) option" where
  "live_run mg vw dr pl = run_loop (live_step mg vw dr pl)"

definition live_accepts :: "live_event \<Rightarrow> bool" where
  "live_accepts ev = (case ev of Ui i \<Rightarrow> window_event i \<and> app_accepts (\<lambda>_. True) i | _ \<Rightarrow> True)"

section \<open>The window's events leave the check alone\<close>

lemma hover_keeps_check: "updateChecker (onHoverChanged mg pl c w) = updateChecker w"
  by (cases c) (simp add: onHoverChanged_def split_beta Let_def)

lemma hovers_keep_check: "updateChecker (fold (onHoverChanged mg pl) cs w) = updateChecker w"
  by (induction cs arbitrary: w) (simp_all add: hover_keeps_check)

lemma window_keeps_check:
  assumes "window_event i" and "us_step mg vw dr pl i w = Some (Inr w')"
  shows "updateChecker w' = updateChecker w"
  using assms
  by (cases i) (auto simp: window_event_def world_mouseMoveEvent_def world_mousePressEvent_def world_mouseReleaseEvent_def
      world_mouseScrollEvent_def world_viewportEvent_def hovers_keep_check Let_def split: prod.splits option.splits)

lemma window_throws_nothing: "window_event i \<Longrightarrow> us_step mg vw dr pl i w \<noteq> Some (Inl e)"
  by (cases i) (auto simp: window_event_def)

lemma draw_check:
  "(case poll x (updateChecker w) of
      (Some e, c) \<Rightarrow> us_step mg vw dr pl (DrawIn x nextFrame) w = Some (Inl e)
    | (None, c) \<Rightarrow> \<exists>w'. us_step mg vw dr pl (DrawIn x nextFrame) w = Some (Inr w') \<and> updateChecker w' = c)"
  by (auto simp: world_drawEvent_def draw_keeps advance_all_def Let_def split: prod.split option.split)

text \<open>Both views of a poll agree.\<close>

lemma poll_world_poller:
  "poll (fs_exists (disk u) (exectedMaintenanceToolPath (workDir u))) (poller_of u) =
     (case poll_world u of
        Inl e \<Rightarrow> (Some e, (poller_of u)\<lparr>future := NoFuture\<rparr>)
      | Inr u' \<Rightarrow> (None, poller_of u'))"
  by (auto simp: poll_def poll_world_def poller_of_def tryToLaunchUpdater_def Let_def split: check_future.split sum.split)

section \<open>The application follows its check\<close>

fun update_events :: "live_event \<Rightarrow> update_event list" where
  "update_events (Ui i) = []"
| "update_events (Frame nextFrame) = [PollStep]"
| "update_events Background = [CheckStep]"
| "update_events (Disk fs) = [DiskChange fs]"
| "update_events (Net n) = [NetChange n]"

definition live_ok :: "'m view \<Rightarrow> ('p, 'm) live \<Rightarrow> bool" where
  "live_ok vw = (\<lambda>(w, u). world_ok vw (\<lambda>_. True) w \<and> check_inv u \<and> updateChecker w = poller_of u)"

lemma live_frame_follows:
  assumes "live_ok vw (w, u)"
  shows "(case poll_world u of
       Inl e \<Rightarrow> live_frame mg vw dr pl nextFrame (w, u) = Some (Inl e)
     | Inr u' \<Rightarrow> \<exists>w'. live_frame mg vw dr pl nextFrame (w, u) = Some (Inr (w', u')) \<and> live_ok vw (w', u'))"
proof -
  let ?i = "DrawIn (fs_exists (disk u) (exectedMaintenanceToolPath (workDir u))) nextFrame"
  have w: "world_ok vw (\<lambda>_. True) w" "check_inv u" "updateChecker w = poller_of u" using assms by (simp_all add: live_ok_def)
  note c = draw_check [where x = "fs_exists (disk u) (exectedMaintenanceToolPath (workDir u))" and w = w and mg = mg
      and vw = vw and dr = dr and pl = pl and nextFrame = nextFrame, unfolded w(3) poll_world_poller]
  show ?thesis
  proof (cases "poll_world u")
    case (Inl e)
    with c show ?thesis by (simp add: live_frame_def)
  next
    case (Inr u')
    with c obtain w' where w': "us_step mg vw dr pl ?i w = Some (Inr w')" "updateChecker w' = poller_of u'"
      by auto
    have "world_ok vw (\<lambda>_. True) w'"
      by (rule app_loop.keeps [OF w(1) _ w'(1)]) (simp add: app_accepts_def)
    with w' check_inv_poll [OF w(2) Inr] Inr show ?thesis by (auto simp: live_frame_def live_ok_def)
  qed
qed

lemma live_background_follows:
  assumes "live_ok vw (w, u)"
  shows "\<exists>w'. live_background mg vw dr pl (w, u) = Some (Inr (w', check_thread_step u)) \<and> live_ok vw (w', check_thread_step u)"
proof -
  let ?u = "check_thread_step u"
  have w: "world_ok vw (\<lambda>_. True) w" "check_inv u" "updateChecker w = poller_of u" using assms by (simp_all add: live_ok_def)
  have inv: "check_inv ?u" by (rule check_inv_step [OF w(2)])
  note follows = refines_thread [OF w(2)]
  show ?thesis
  proof (cases "checkFuture ?u")
    case (Ready r)
    let ?w = "w\<lparr>updateChecker := check_done r (updateChecker w)\<rparr>"
    have "poller_of ?u = check_done r (poller_of u)"
    proof (cases "checkFuture u = Running")
      case True
      then show ?thesis using follows Ready by (simp add: poll_event_of_def)
    next
      case False
      then show ?thesis using follows Ready by (simp add: poll_event_of_def check_done_def poller_of_def)
    qed
    moreover have "world_ok vw (\<lambda>_. True) ?w" by (rule world_check_ok [OF w(1)]) simp
    ultimately show ?thesis using Ready inv w(3) by (simp add: live_background_def live_ok_def Let_def)
  qed (use follows inv w in \<open>simp_all add: live_background_def live_ok_def poll_event_of_def Let_def\<close>)
qed

lemma live_step_follows:
  assumes "live_ok vw (w, u)" and "live_accepts ev"
  shows "(case update_run (update_events ev) u of
       None \<Rightarrow> False
     | Some (Inl e) \<Rightarrow> live_step mg vw dr pl ev (w, u) = Some (Inl e)
     | Some (Inr u') \<Rightarrow> \<exists>w'. live_step mg vw dr pl ev (w, u) = Some (Inr (w', u')) \<and> live_ok vw (w', u'))"
proof (cases ev)
  case (Ui i)
  have i: "window_event i" "app_accepts (\<lambda>_. True) i" using assms(2) Ui by (simp_all add: live_accepts_def)
  have ok: "world_ok vw (\<lambda>_. True) w" using assms(1) by (simp add: live_ok_def)
  from app_loop.returns [OF this i(2), of mg dr pl] window_throws_nothing [OF i(1), of mg vw dr pl w]
  obtain w' where w': "us_step mg vw dr pl i w = Some (Inr w')" by (metis not_None_eq sum.exhaust)
  with app_loop.keeps [OF ok i(2) w'] window_keeps_check [OF i(1) w'] assms(1) Ui show ?thesis
    by (simp add: live_ok_def)
next
  case (Frame nextFrame)
  with live_frame_follows [OF assms(1), of mg dr pl nextFrame] show ?thesis by (simp split: sum.splits)
next
  case Background
  with live_background_follows [OF assms(1), of mg dr pl] show ?thesis by simp
next
  case (Disk fs)
  with assms(1) show ?thesis by (auto simp: live_ok_def check_inv_def poller_of_def split: check_thread.split)
next
  case (Net n)
  with assms(1) show ?thesis by (auto simp: live_ok_def check_inv_def poller_of_def split: check_thread.split)
qed

lemma live_run_follows:
  "live_ok vw (w, u) \<Longrightarrow> list_all live_accepts evs \<Longrightarrow>
     (case update_run (concat (map update_events evs)) u of
        None \<Rightarrow> False
      | Some (Inl e) \<Rightarrow> live_run mg vw dr pl evs (w, u) = Some (Inl e)
      | Some (Inr u') \<Rightarrow> \<exists>w'. live_run mg vw dr pl evs (w, u) = Some (Inr (w', u')) \<and> live_ok vw (w', u'))"
proof (induction evs arbitrary: w u)
  case Nil
  then show ?case by (simp add: live_run_def)
next
  case (Cons ev evs)
  have step: "case update_run (update_events ev) u of
       None \<Rightarrow> False
     | Some (Inl e) \<Rightarrow> live_step mg vw dr pl ev (w, u) = Some (Inl e)
     | Some (Inr u') \<Rightarrow> \<exists>w'. live_step mg vw dr pl ev (w, u) = Some (Inr (w', u')) \<and> live_ok vw (w', u')"
    by (rule live_step_follows) (use Cons.prems in simp_all)
  have inv: "check_inv u" using Cons.prems(1) by (simp add: live_ok_def)
  show ?case
  proof (cases rule: update_run_cases [OF inv, of "update_events ev"])
    case (1 e)
    with step show ?thesis by (simp add: update_run_append live_run_def)
  next
    case (2 u1)
    with step obtain w1 where w1: "live_step mg vw dr pl ev (w, u) = Some (Inr (w1, u1))" "live_ok vw (w1, u1)" by auto
    have eqs: "live_run mg vw dr pl (ev # evs) (w, u) = live_run mg vw dr pl evs (w1, u1)"
      "update_run (concat (map update_events (ev # evs))) u = update_run (concat (map update_events evs)) u1"
      using w1(1) 2(1) by (simp_all add: live_run_def update_run_append)
    show ?thesis unfolding eqs using Cons.IH [OF w1(2)] Cons.prems(2) by simp
  qed
qed

section \<open>From the constructor on\<close>

definition live_start :: "'m magnum \<Rightarrow> 'm drawing \<Rightarrow> 'm constraints \<Rightarrow> 'p \<Rightarrow> (nat \<Rightarrow> f32) \<Rightarrow> (vector2 \<times> vector2) list \<Rightarrow> 'm gpu \<Rightarrow> bool \<Rightarrow>
    file_system \<Rightarrow> path \<Rightarrow> internet \<Rightarrow> ('p, 'm) live" where
  "live_start mg dr con idle junk mesh g deferred fs dir n =
     (us_start mg dr con idle junk mesh g deferred, update_started deferred fs dir n)"

lemma first_layout_live:
  fixes con :: "'m constraints" and idle :: 'p and mg :: "'m magnum"
  assumes "window_ok windowSize"
  obtains w where "live_ok vw (w, update_started deferred fs dir n)"
    and "\<And>evs. live_run mg vw dr pl (Ui (ViewportIn windowSize framebuffer) # evs) (live_start mg dr con idle junk mesh g deferred fs dir n)
        = live_run mg vw dr pl evs (w, update_started deferred fs dir n)"
proof
  let ?w = "us_start mg dr con idle junk mesh g deferred :: ('p, 'm, http_error) us_world"
  let ?w1 = "world_viewportEvent mg vw windowSize framebuffer ?w"
  let ?u = "update_started deferred fs dir n"
  have "updateChecker ?w1 = poller_of ?u"
    by (simp add: world_viewportEvent_def us_start_def updateDebugText_def update_started_def poller_of_def poller_start_def
        poller_init_def Let_def)
  with first_viewport_ok [OF assms] check_inv_start show "live_ok vw (?w1, ?u)" by (simp add: live_ok_def)
  show "live_run mg vw dr pl (Ui (ViewportIn windowSize framebuffer) # evs) (live_start mg dr con idle junk mesh g deferred fs dir n)
      = live_run mg vw dr pl evs (?w1, ?u)" for evs
    by (simp add: live_run_def live_start_def)
qed

text \<open>While files and network stay as they are.\<close>

definition quiet :: "live_event \<Rightarrow> bool" where
  "quiet ev = (case ev of Disk fs \<Rightarrow> False | Net n \<Rightarrow> False | _ \<Rightarrow> True)"

lemma quiet_events: "list_all quiet evs \<Longrightarrow> set (concat (map update_events evs)) \<subseteq> {CheckStep, PollStep}"
  by (induction evs) (auto simp: quiet_def split: live_event.splits)

lemma background_steps: "count_list (concat (map update_events evs)) CheckStep = count_list evs Background"
proof (induction evs)
  case (Cons ev evs)
  then show ?case by (cases ev) simp_all
qed simp

lemma frame_polls: "Frame nextFrame \<in> set evs \<Longrightarrow> PollStep \<in> set (concat (map update_events evs))"
  by force

lemma live_outcome:
  assumes "window_ok windowSize" and "list_all live_accepts (evs @ evs')" and "list_all quiet (evs @ evs')"
    and "2 \<le> count_list evs Background" and "Frame nextFrame \<in> set evs'"
  shows "case outcome (update_started False fs dir n) of
      Inl e \<Rightarrow> live_run mg vw dr pl (Ui (ViewportIn windowSize framebuffer) # evs @ evs')
          (live_start mg dr con idle junk mesh g False fs dir n) = Some (Inl e)
    | Inr u \<Rightarrow> \<exists>w. live_run mg vw dr pl (Ui (ViewportIn windowSize framebuffer) # evs @ evs')
          (live_start mg dr con idle junk mesh g False fs dir n) = Some (Inr (w, u)) \<and> live_ok vw (w, u)"
proof -
  obtain w where w: "live_ok vw (w, update_started False fs dir n)"
    "live_run mg vw dr pl (Ui (ViewportIn windowSize framebuffer) # evs @ evs') (live_start mg dr con idle junk mesh g False fs dir n)
        = live_run mg vw dr pl (evs @ evs') (w, update_started False fs dir n)"
    using first_layout_live [OF assms(1)] by metis
  have "update_run (concat (map update_events evs) @ concat (map update_events evs')) (update_started False fs dir n)
      = Some (outcome (update_started False fs dir n))"
    using quiet_events [of evs] quiet_events [of evs'] assms(3-5) background_steps frame_polls
    by (intro started_outcome) auto
  with live_run_follows [OF w(1) assms(2), of mg dr pl] show ?thesis
    by (simp add: w(2) split: sum.splits)
qed

text \<open>C3: End to end. Beside an installed application lies a manifest, and the server answers the repository's request,
  in any chunks, with a response whose body is a manifest: once the thread of the check has made its two steps and
  a frame has been drawn, whatever the user does and however the threads are scheduled, the application
  runs on with the check settled; the server was asked once, and exactly when the manifests' components differ
  or one has a smaller version string here, and the maintenance tool is there, it was launched, once.\<close>

theorem application_updates:
  fixes mg :: "'m magnum" and idle :: 'p
  assumes "fs (butlast dir @ [''components.xml'']) = Some (RegularFile bs)" and "manifest_with es (text_of bs)"
    and "True \<in> set (resolves n APP_REPOSITORY_HOST)"
    and "response_with body (answers n APP_REPOSITORY_HOST repository_request)" and "manifest_with es' body"
    and "window_ok windowSize" and "list_all live_accepts (evs @ evs')" and "list_all quiet (evs @ evs')"
    and "2 \<le> count_list evs Background" and "Frame nextFrame \<in> set evs'"
  shows "\<exists>w u. live_run mg vw dr pl (Ui (ViewportIn windowSize framebuffer) # evs @ evs')
        (live_start mg dr con idle junk mesh g False fs dir n) = Some (Inr (w, u))
    \<and> resolved (updateChecker w) \<and> requests u = [(APP_REPOSITORY_HOST, repository_request)]
    \<and> processes u =
        (if update_due (versions es) (versions es') \<and> fs_exists fs (butlast dir @ [''maintenancetool''])
         then [[path_string (butlast dir @ [''maintenancetool'']), ''--updater'']] else [])"
proof -
  note manifest = assms(1) [folded localManifestPath_def]
  obtain u where u: "outcome (update_started False fs dir n) = Inr u" "checkSettled u"
    "requests u = [(APP_REPOSITORY_HOST, repository_request)]"
    "processes u = (if update_due (versions es) (versions es') \<and> fs_exists fs (exectedMaintenanceToolPath dir)
         then [[path_string (exectedMaintenanceToolPath dir), ''--updater'']] else [])"
    using check_settles [where fs = fs and dir = dir, OF manifest assms(2-5)] by blast
  with live_outcome [where fs = fs and dir = dir and n = n and mg = mg and vw = vw and dr = dr and pl = pl
      and framebuffer = framebuffer and con = con and idle = idle and junk = junk and mesh = mesh and g = g, OF assms(6-10)] show ?thesis
    by (auto simp: live_ok_def poller_of_def exectedMaintenanceToolPath_def)
qed

text \<open>C6: The same application without a connection to the server: the download's exception is kept in the future, the
  first frame after the check throws it, nothing catches it, and the program ends, whatever the user does.\<close>

theorem offline_ends_application:
  assumes "fs (butlast dir @ [''components.xml'']) = Some (RegularFile bs)" and "manifest_with es (text_of bs)"
    and "True \<notin> set (resolves n APP_REPOSITORY_HOST)"
    and "window_ok windowSize" and "list_all live_accepts (evs @ evs')" and "list_all quiet (evs @ evs')"
    and "2 \<le> count_list evs Background" and "Frame nextFrame \<in> set evs'"
  shows "live_run mg vw dr pl (Ui (ViewportIn windowSize framebuffer) # evs @ evs')
        (live_start mg dr con idle junk mesh g False fs dir n) = Some (Inl NotConnected)"
  using live_outcome [where fs = fs and dir = dir and n = n and mg = mg and vw = vw and dr = dr and pl = pl
      and framebuffer = framebuffer and con = con and idle = idle and junk = junk and mesh = mesh and g = g,
      OF assms(4-8)] check_offline [where fs = fs and dir = dir, OF assms(1) [folded localManifestPath_def] assms(2,3)]
  by simp

text \<open>The sample of \<open>UpdateRun\<close>, while the mouse moves over the window and frames are drawn.\<close>

definition a_frame :: live_event where "a_frame = Frame (f32_lit 1, f32_lit 1)"

definition a_move :: live_event where "a_move = Ui (MouseMoveIn (left_event (30, 300) (0, 0) 0))"

lemma sample_events:
  "list_all live_accepts ([a_frame, a_move, Background, a_frame, Background, a_move] @ [a_frame, a_move, a_frame])"
  "list_all quiet ([a_frame, a_move, Background, a_frame, Background, a_move] @ [a_frame, a_move, a_frame])"
  "2 \<le> count_list [a_frame, a_move, Background, a_frame, Background, a_move] Background"
  "Frame (f32_lit 1, f32_lit 1) \<in> set [a_frame, a_move, a_frame]"
  by (simp_all add: a_frame_def a_move_def live_accepts_def quiet_def window_event_def app_accepts_def)

theorem application_updates_witness:
  "\<exists>w u. live_run plain_magnum plain_view plain_drawing (countdown_player 3)
        (Ui (ViewportIn (1280, 720) (1280, 720)) # [a_frame, a_move, Background, a_frame, Background, a_move] @ [a_frame, a_move, a_frame])
        (live_start plain_magnum plain_drawing (constraints_of plain_view (1280, 720)) 0 (\<lambda>_. NaN) [] plain_gpu False
          sample_disk [''app'', ''bin''] (sample_net [False, True])) = Some (Inr (w, u))
    \<and> processes u = [[''/app/maintenancetool'', ''--updater'']]"
proof -
  have connected: "True \<in> set (resolves (sample_net [False, True]) APP_REPOSITORY_HOST)" by (simp add: sample_net_def)
  show ?thesis
    using application_updates [where dir = "[''app'', ''bin'']" and fs = sample_disk and n = "sample_net [False, True]"
        and mg = plain_magnum and vw = plain_view and dr = plain_drawing and pl = "countdown_player 3"
        and con = "constraints_of plain_view (1280, 720)" and idle = 0 and junk = "\<lambda>_. NaN" and mesh = "[]" and g = plain_gpu
        and framebuffer = "(1280, 720)",
        OF sample_file sample_entries connected sample_response newer_manifest_entries some_events_ok(3) sample_events]
    by (auto simp: sample_due sample_tool)
qed

theorem offline_ends_application_witness:
  "live_run plain_magnum plain_view plain_drawing (countdown_player 3)
        (Ui (ViewportIn (1280, 720) (1280, 720)) # [a_frame, a_move, Background, a_frame, Background, a_move] @ [a_frame, a_move, a_frame])
        (live_start plain_magnum plain_drawing (constraints_of plain_view (1280, 720)) 0 (\<lambda>_. NaN) [] plain_gpu False
          sample_disk [''app'', ''bin''] (sample_net [False])) = Some (Inl NotConnected)"
proof -
  have offline: "True \<notin> set (resolves (sample_net [False]) APP_REPOSITORY_HOST)" by (simp add: sample_net_def)
  show ?thesis
    by (rule offline_ends_application [where dir = "[''app'', ''bin'']" and fs = sample_disk and n = "sample_net [False]",
          OF sample_file sample_entries offline some_events_ok(3) sample_events])
qed

end
